(* ===== verification/Prelude.thy ===== *)
theory Prelude
  imports Main "HOL-Library.Word" "HOL-Library.AList" "HOL-Library.Sublist"
begin

text \<open>
  Shared vocabulary of the development: names for the machine types the Rust sources use,
  results as sums, the part of the Rust standard library the sources call (strings, iterators,
  hash maps), first-match evaluation of ordered rules, and the two interfaces that several
  components are proved against, the \<open>hash_map\<close> contract and the \<open>rule_expansion\<close> contract.
\<close>

section \<open>Machine types, strings and results\<close>

text \<open>
  A Rust \<open>String\<close>, \<open>&str\<close> or \<open>Strng\<close> is its sequence of UTF-8 bytes, one \<^typ>\<open>char\<close> per byte.
  \<open>Result<T, E>\<close> is the sum type with the error on the left.
\<close>

type_synonym strng = string
type_synonym u8 = "8 word"
type_synonym u16 = "16 word"
type_synonym u32 = "32 word"
type_synonym u64 = "64 word"
type_synonym u128 = "128 word"
type_synonym ('a, 'e) result = "'e + 'a"
type_synonym ('k, 'v) hashmap = "('k \<times> 'v) list"

named_theorems store_simps \<open>lookup equations of the stores after each of their operations\<close>
named_theorems store_invs \<open>preservation of the store invariants by each operation\<close>

abbreviation Ok :: "'a \<Rightarrow> ('a, 'e) result" where
  "Ok \<equiv> Inr"

abbreviation Err :: "'e \<Rightarrow> ('a, 'e) result" where
  "Err \<equiv> Inl"

definition is_ok :: "('a, 'e) result \<Rightarrow> bool" where
  "is_ok r = (case r of Inl _ \<Rightarrow> False | Inr _ \<Rightarrow> True)"

text \<open>The \<open>?\<close> operator, \<open>r.map_err(f)\<close> and \<open>opt.ok_or(e)\<close>.\<close>

definition and_then :: "('a, 'e) result \<Rightarrow> ('a \<Rightarrow> ('b, 'e) result) \<Rightarrow> ('b, 'e) result" where
  "and_then r f = (case r of Inl e \<Rightarrow> Err e | Inr x \<Rightarrow> f x)"

definition map_err :: "('e \<Rightarrow> 'f) \<Rightarrow> ('a, 'e) result \<Rightarrow> ('a, 'f) result" where
  "map_err f r = map_sum f id r"

definition ok_or :: "'a option \<Rightarrow> 'e \<Rightarrow> ('a, 'e) result" where
  "ok_or x e = (case x of None \<Rightarrow> Err e | Some y \<Rightarrow> Ok y)"

text \<open>\<open>iter.map(f).collect::<Result<Vec<_>, _>>()\<close>: the first error ends the iteration.\<close>

fun traverse :: "('a \<Rightarrow> ('b, 'e) result) \<Rightarrow> 'a list \<Rightarrow> ('b list, 'e) result" where
  "traverse f [] = Ok []"
| "traverse f (x # xs) =
     (case f x of
        Inl e \<Rightarrow> Err e
      | Inr y \<Rightarrow> (case traverse f xs of Inl e \<Rightarrow> Err e | Inr ys \<Rightarrow> Ok (y # ys)))"

text \<open>\<open>opt.map(f).transpose()\<close>.\<close>

definition transpose_opt :: "('a \<Rightarrow> ('b, 'e) result) \<Rightarrow> 'a option \<Rightarrow> ('b option, 'e) result" where
  "transpose_opt f x =
     (case x of
        None \<Rightarrow> Ok None
      | Some a \<Rightarrow> (case f a of Inl e \<Rightarrow> Err e | Inr b \<Rightarrow> Ok (Some b)))"

text \<open>The narrowing cast \<open>n as i32\<close> of a \<open>usize\<close>: the low 32 bits, read in two's complement.\<close>

definition as_i32 :: "nat \<Rightarrow> int" where
  "as_i32 n = (let m = int n mod 2 ^ 32 in if m < 2 ^ 31 then m else m - 2 ^ 32)"

definition i32_max :: int where
  "i32_max = 2 ^ 31 - 1"

subsection \<open>The string operations the sources use\<close>

text \<open>\<open>s.split(c)\<close> with a one-byte separator: always at least one piece.\<close>

fun split_on :: "char \<Rightarrow> string \<Rightarrow> string list" where
  "split_on c [] = [[]]"
| "split_on c (x # xs) =
     (if x = c then [] # split_on c xs
      else (case split_on c xs of [] \<Rightarrow> [[x]] | y # ys \<Rightarrow> (x # y) # ys))"

text \<open>\<open>s.split_once(c)\<close>: the text before and after the first separator.\<close>

fun split_once :: "char \<Rightarrow> string \<Rightarrow> (string \<times> string) option" where
  "split_once c [] = None"
| "split_once c (x # xs) =
     (if x = c then Some ([], xs)
      else map_option (\<lambda>(a, b). (x # a, b)) (split_once c xs))"

text \<open>\<open>pieces.join(sep)\<close>.\<close>

fun join :: "string \<Rightarrow> string list \<Rightarrow> string" where
  "join sep [] = []"
| "join sep [x] = x"
| "join sep (x # xs) = x @ sep @ join sep xs"

text \<open>\<open>s.contains(pat)\<close>.\<close>

fun contains_str :: "string \<Rightarrow> string \<Rightarrow> bool" where
  "contains_str pat [] = (pat = [])"
| "contains_str pat (x # xs) = (prefix pat (x # xs) \<or> contains_str pat xs)"

text \<open>Decimal \<open>Display\<close> of an unsigned integer.\<close>

definition digit_char :: "nat \<Rightarrow> char" where
  "digit_char d = char_of (48 + d)"

fun show_nat :: "nat \<Rightarrow> string" where
  "show_nat n = (if n < 10 then [digit_char n] else show_nat (n div 10) @ [digit_char (n mod 10)])"

declare show_nat.simps [simp del]

text \<open>
  \<open>s.parse::<u16>()\<close>: decimal digits, at least one, after an optional plus sign, without overflow.
\<close>

fun parse_dec :: "nat \<Rightarrow> string \<Rightarrow> nat option" where
  "parse_dec acc [] = Some acc"
| "parse_dec acc (c # cs) =
     (if 48 \<le> (of_char c :: nat) \<and> (of_char c :: nat) \<le> 57
      then parse_dec (10 * acc + (of_char c - 48)) cs else None)"

definition parse_u16 :: "string \<Rightarrow> u16 option" where
  "parse_u16 s =
     (let body = (if s \<noteq> [] \<and> hd s = CHR ''+'' then tl s else s) in
      if body = [] then None
      else case parse_dec 0 body of
             None \<Rightarrow> None
           | Some n \<Rightarrow> if n < 65536 then Some (of_nat n) else None)"

subsection \<open>Hash maps and ordered rules\<close>

text \<open>
  A \<open>HashMap<K, V>\<close> is an association list with distinct keys. The order of the list stands for
  the iteration order, which Rust leaves unspecified: statements about iterating code hold for
  every list, hence for every order.
\<close>

definition hm_get :: "('k, 'v) hashmap \<Rightarrow> 'k \<Rightarrow> 'v option" where
  "hm_get m k = map_of m k"

definition hm_insert :: "'k \<Rightarrow> 'v \<Rightarrow> ('k, 'v) hashmap \<Rightarrow> ('k, 'v) hashmap" where
  "hm_insert k v m = AList.update k v m"

definition hm_remove :: "'k \<Rightarrow> ('k, 'v) hashmap \<Rightarrow> ('k, 'v) hashmap" where
  "hm_remove k m = AList.delete k m"

definition hm_contains :: "('k, 'v) hashmap \<Rightarrow> 'k \<Rightarrow> bool" where
  "hm_contains m k = (hm_get m k \<noteq> None)"

definition hm_values :: "('k, 'v) hashmap \<Rightarrow> 'v list" where
  "hm_values m = map snd m"

definition hm_keys :: "('k, 'v) hashmap \<Rightarrow> 'k list" where
  "hm_keys m = map fst m"

definition hm_wf :: "('k, 'v) hashmap \<Rightarrow> bool" where
  "hm_wf m = distinct (map fst m)"

text \<open>The verdict of an ordered rule list: the action of the first rule that matches.\<close>

definition first_verdict :: "('r \<Rightarrow> bool) \<Rightarrow> ('r \<Rightarrow> 'a) \<Rightarrow> 'r list \<Rightarrow> 'a option" where
  "first_verdict matches act rules = map_option act (find matches rules)"

text \<open>A loop that pushes onto a vector while it changes a state, as \<open>&mut\<close> arguments do.\<close>

fun thread :: "('x \<Rightarrow> 's \<Rightarrow> 'y list \<times> 's) \<Rightarrow> 'x list \<Rightarrow> 's \<Rightarrow> 'y list \<times> 's" where
  "thread f [] s = ([], s)"
| "thread f (x # xs) s = (let (ys, s1) = f x s; (zs, s2) = thread f xs s1 in (ys @ zs, s2))"

text \<open>
  Deliveries to an xDS store: a resource under its name, or the withdrawal of a name. A rejected
  resource leaves the store as it was. \<open>spec_step\<close> is the abstract store, a finite map from names to
  the last accepted value.
\<close>

datatype ('k, 'm) delivery = Deliver 'k 'm | Withdraw 'k

fun store_step ::
  "('s \<Rightarrow> 'k \<Rightarrow> 'm \<Rightarrow> ('s \<times> bool, 'e) result) \<Rightarrow> ('s \<Rightarrow> 'k \<Rightarrow> 's) \<Rightarrow> ('k, 'm) delivery \<Rightarrow> 's \<Rightarrow> 's"
where
  "store_step update withdraw (Deliver k m) s = (case update s k m of Inl _ \<Rightarrow> s | Inr (s', _) \<Rightarrow> s')"
| "store_step update withdraw (Withdraw k) s = withdraw s k"

fun spec_step ::
  "('k \<Rightarrow> 'm \<Rightarrow> ('v, 'e) result) \<Rightarrow> ('k, 'm) delivery \<Rightarrow> ('k \<rightharpoonup> 'v) \<Rightarrow> ('k \<rightharpoonup> 'v)"
where
  "spec_step admit (Deliver k m) g = (case admit k m of Inl _ \<Rightarrow> g | Inr v \<Rightarrow> g(k \<mapsto> v))"
| "spec_step admit (Withdraw k) g = g(k := None)"

section \<open>Results and strings: lemmas\<close>

lemma traverse_Ok_list_all2:
  "traverse f xs = Inr ys \<longleftrightarrow> list_all2 (\<lambda>x y. f x = Inr y) xs ys"
proof (induction xs arbitrary: ys)
  case (Cons x xs)
  show ?case
    by (cases ys; cases "f x"; cases "traverse f xs") (auto simp flip: Cons.IH)
qed auto

lemma traverse_total:
  "\<forall>x \<in> set xs. \<exists>y. f x = Inr y \<Longrightarrow> \<exists>ys. traverse f xs = Inr ys"
  by (induction xs) (auto split: sum.splits)

lemma traverse_Err:
  "traverse f xs = Inl e \<Longrightarrow> \<exists>x \<in> set xs. f x = Inl e"
  by (induction xs) (auto split: sum.splits)

lemma traverse_Ok_set:
  "traverse f xs = Inr ys \<Longrightarrow> y \<in> set ys \<Longrightarrow> \<exists>x \<in> set xs. f x = Inr y"
  by (induction xs arbitrary: ys) (auto split: sum.splits)

lemma traverse_Ok_all:
  "(\<exists>ys. traverse f xs = Inr ys \<and> (\<forall>y \<in> set ys. P y)) \<longleftrightarrow>
     (\<forall>x \<in> set xs. \<exists>y. f x = Inr y \<and> P y)"
  by (induction xs) (auto split: sum.splits)

lemma is_ok_simps [simp]: "is_ok (Inr x)" "\<not> is_ok (Inl e)"
  by (simp_all add: is_ok_def)

lemma and_then_simps [simp]: "and_then (Inr x) f = f x" "and_then (Inl e) f = Inl e"
  by (simp_all add: and_then_def)

lemma and_then_Ok: "and_then r f = Inr y \<longleftrightarrow> (\<exists>x. r = Inr x \<and> f x = Inr y)"
  by (cases r) auto

lemma and_then_Err: "and_then r f = Inl e \<longleftrightarrow> r = Inl e \<or> (\<exists>x. r = Inr x \<and> f x = Inl e)"
  by (cases r) auto

lemma is_ok_and_then: "is_ok (and_then r f) \<longleftrightarrow> (\<exists>x. r = Inr x \<and> is_ok (f x))"
  by (cases r) auto

lemma is_ok_and_then_Ok [simp]: "is_ok (and_then r (\<lambda>x. Inr (h x))) = is_ok r"
  by (cases r) simp_all

lemma is_ok_map_err [simp]: "is_ok (map_err f r) = is_ok r"
  by (cases r) (simp_all add: map_err_def)

lemma map_err_Ok [simp]: "map_err f r = Inr y \<longleftrightarrow> r = Inr y"
  by (cases r) (auto simp: map_err_def)

lemma map_err_simps [simp]: "map_err f (Inr y) = Inr y" "map_err f (Inl e) = Inl (f e)"
  by (simp_all add: map_err_def)

lemma ok_or_Ok [simp]: "ok_or x e = Inr y \<longleftrightarrow> x = Some y"
  by (cases x) (auto simp: ok_or_def)

lemma ok_or_simps [simp]: "ok_or None e = Inl e" "ok_or (Some y) e = Inr y"
  by (simp_all add: ok_or_def)

lemma is_ok_iff: "is_ok r \<longleftrightarrow> (\<exists>x. r = Inr x)"
  by (cases r) auto

lemma is_ok_map_sum [simp]: "is_ok (map_sum f g r) = is_ok r"
  by (cases r) auto

lemma is_ok_traverse: "is_ok (traverse f xs) \<longleftrightarrow> (\<forall>x \<in> set xs. is_ok (f x))"
  using traverse_Ok_all [of f xs "\<lambda>_. True"] by (simp add: is_ok_iff)

lemma find_enumerate:
  "map_option snd (find (\<lambda>(i, x). P x) (enumerate n xs)) = find P xs"
  by (induction xs arbitrary: n) auto

lemma find_Some_in: "find P xs = Some x \<Longrightarrow> x \<in> set xs \<and> P x"
  by (induction xs) (auto split: if_splits)

lemma set_enumerate_snd: "snd ` set (enumerate n xs) = set xs"
  by (induction xs arbitrary: n) auto

lemma ball_enumerate_snd: "(\<forall>x \<in> set (enumerate n xs). P (snd x)) \<longleftrightarrow> (\<forall>x \<in> set xs. P x)"
  by (induction xs arbitrary: n) auto

lemma as_i32_small: "n < 2147483648 \<Longrightarrow> as_i32 n = int n"
  by (simp add: as_i32_def Let_def)

lemma digit_chars:
  "digit_char 0 = CHR ''0''" "digit_char 1 = CHR ''1''" "digit_char (Suc 0) = CHR ''1''"
  "digit_char 2 = CHR ''2''" "digit_char 3 = CHR ''3''" "digit_char 4 = CHR ''4''"
  "digit_char 5 = CHR ''5''" "digit_char 6 = CHR ''6''" "digit_char 7 = CHR ''7''"
  "digit_char 8 = CHR ''8''" "digit_char 9 = CHR ''9''"
  by code_simp+

lemma digit_char_inj: "m < 10 \<Longrightarrow> n < 10 \<Longrightarrow> digit_char m = digit_char n \<Longrightarrow> m = n"
  unfolding digit_char_def by (drule arg_cong [of _ _ "of_char :: char \<Rightarrow> nat"]) simp

lemma show_nat_not_Nil [simp]: "show_nat n \<noteq> []" "[] \<noteq> show_nat n"
  by (subst show_nat.simps, simp)+

lemma show_nat_inj: "show_nat m = show_nat n \<longleftrightarrow> m = n"
proof
  show "show_nat m = show_nat n \<Longrightarrow> m = n"
  proof (induction m arbitrary: n rule: show_nat.induct)
    case (1 m)
    have "m = n" if "m < 10" "n < 10"
      using 1(2) that digit_char_inj [of m n] by (simp add: show_nat.simps [of m] show_nat.simps [of n])
    moreover have False if "m < 10" "\<not> n < 10"
      using 1(2) that by (simp add: show_nat.simps [of m] show_nat.simps [of n])
    moreover have False if "\<not> m < 10" "n < 10"
      using 1(2) that by (simp add: show_nat.simps [of m] show_nat.simps [of n])
    moreover have "m = n" if "\<not> m < 10" "\<not> n < 10"
    proof -
      from 1(2) that have "show_nat (m div 10) = show_nat (n div 10)"
          "digit_char (m mod 10) = digit_char (n mod 10)"
        by (simp_all add: show_nat.simps [of m] show_nat.simps [of n])
      then have "m div 10 = n div 10" "m mod 10 = n mod 10"
        using 1(1) [OF that(1)] digit_char_inj by auto
      then show ?thesis by (metis div_mult_mod_eq)
    qed
    ultimately show ?case by blast
  qed
qed simp

lemma show_nat_digits: "set (show_nat n) \<subseteq> digit_char ` {..<10}"
proof (induction n rule: show_nat.induct)
  case (1 n)
  then show ?case by (subst show_nat.simps) auto
qed

lemma digit_char_code: "d < 10 \<Longrightarrow> of_char (digit_char d) = (48 + d :: nat)"
  by (simp add: digit_char_def)

lemma underscore_not_digit: "CHR ''_'' \<notin> set (show_nat n)"
proof
  assume "CHR ''_'' \<in> set (show_nat n)"
  then obtain d where d: "d < 10" "CHR ''_'' = digit_char d"
    using show_nat_digits by blast
  with digit_char_code [OF d(1)] have "(of_char CHR ''_'' :: nat) = 48 + d" by simp
  with d(1) show False by simp
qed

lemma parse_dec_append:
  "parse_dec acc (xs @ ys) = Option.bind (parse_dec acc xs) (\<lambda>n. parse_dec n ys)"
  by (induction xs arbitrary: acc) auto

lemma parse_dec_show_nat: "parse_dec 0 (show_nat n) = Some n"
proof (induction n rule: show_nat.induct)
  case (1 n)
  show ?case
  proof (cases "n < 10")
    case True
    then show ?thesis by (simp add: show_nat.simps [of n] digit_char_code)
  next
    case False
    then show ?thesis
      using 1 by (simp add: show_nat.simps [of n] parse_dec_append digit_char_code)
  qed
qed

lemma show_nat_hd: "hd (show_nat n) \<noteq> CHR ''+''"
proof
  assume "hd (show_nat n) = CHR ''+''"
  moreover have "hd (show_nat n) \<in> set (show_nat n)" by simp
  ultimately obtain d where d: "d < 10" "CHR ''+'' = digit_char d"
    using show_nat_digits [of n] by auto
  with digit_char_code [OF d(1)] have "(of_char CHR ''+'' :: nat) = 48 + d" by simp
  then show False by simp
qed

lemma parse_u16_show: "parse_u16 (show_nat (unat p)) = Some p"
proof -
  have "unat p < 2 ^ 16" using unsigned_less [of p, where ?'a = nat] by simp
  then show ?thesis
    by (simp add: parse_u16_def show_nat_hd parse_dec_show_nat Let_def)
qed

lemma thread_append:
  "thread f (xs @ ys) s =
     (let (a, s1) = thread f xs s; (b, s2) = thread f ys s1 in (a @ b, s2))"
  by (induction xs arbitrary: s) (auto simp: Let_def split: prod.splits)

lemma split_on_not_Nil [simp]: "split_on c s \<noteq> []"
  by (induction s) (auto split: list.splits)

lemma split_on_no_sep: "c \<notin> set s \<Longrightarrow> split_on c s = [s]"
  by (induction s) auto

lemma split_on_append:
  "c \<notin> set s \<Longrightarrow> split_on c (s @ c # t) = s # split_on c t"
  by (induction s) auto

lemma split_on_pieces: "p \<in> set (split_on c s) \<Longrightarrow> c \<notin> set p"
proof (induction s arbitrary: p)
  case (Cons x xs)
  then show ?case by (cases "split_on c xs") (auto split: if_splits)
qed simp

lemma join_Cons: "xs \<noteq> [] \<Longrightarrow> join sep (x # xs) = x @ sep @ join sep xs"
  by (cases xs) auto

lemma join_split_on: "join [c] (split_on c s) = s"
proof (induction s)
  case (Cons x xs)
  then show ?case
  proof (cases "split_on c xs")
    case (Cons y ys)
    with Cons.IH show ?thesis
      by (cases ys) (auto simp: join_Cons)
  qed simp
qed simp

lemma split_on_join:
  "xs \<noteq> [] \<Longrightarrow> \<forall>x \<in> set xs. c \<notin> set x \<Longrightarrow> split_on c (join [c] xs) = xs"
proof (induction xs)
  case (Cons x xs)
  show ?case
  proof (cases "xs = []")
    case True
    with Cons.prems show ?thesis by (simp add: split_on_no_sep)
  next
    case False
    with Cons show ?thesis by (simp add: join_Cons split_on_append)
  qed
qed simp

lemma split_once_append: "c \<notin> set s \<Longrightarrow> split_once c (s @ c # t) = Some (s, t)"
  by (induction s) auto

lemma split_once_Some:
  "split_once c s = Some (a, b) \<longleftrightarrow> s = a @ c # b \<and> c \<notin> set a"
proof
  show "split_once c s = Some (a, b) \<Longrightarrow> s = a @ c # b \<and> c \<notin> set a"
    by (induction s arbitrary: a b) (auto split: if_splits)
qed (auto simp: split_once_append)

lemma split_once_None: "split_once c s = None \<longleftrightarrow> c \<notin> set s"
  by (induction s) auto

lemma contains_str_sublist: "contains_str pat s \<longleftrightarrow> sublist pat s"
  by (induction s) (auto simp: sublist_Cons_right)

section \<open>The hash map contract\<close>

text \<open>
  What the stores rely on. Loops that insert or remove a whole list of keys are characterised
  once, from the laws of single operations.
\<close>

locale hash_map =
  fixes get :: "'m \<Rightarrow> 'k \<Rightarrow> 'v option"
    and ins :: "'k \<Rightarrow> 'v \<Rightarrow> 'm \<Rightarrow> 'm"
    and del :: "'k \<Rightarrow> 'm \<Rightarrow> 'm"
    and wf_map :: "'m \<Rightarrow> bool"
    and entries :: "'m \<Rightarrow> ('k \<times> 'v) list"
  assumes get_ins: "get (ins k v m) k' = (if k' = k then Some v else get m k')"
    and get_del: "get (del k m) k' = (if k' = k then None else get m k')"
    and wf_ins: "wf_map m \<Longrightarrow> wf_map (ins k v m)"
    and wf_del: "wf_map m \<Longrightarrow> wf_map (del k m)"
    and entries_get: "wf_map m \<Longrightarrow> (k, v) \<in> set (entries m) \<longleftrightarrow> get m k = Some v"
begin

lemma get_ins_each:
  "get (fold (\<lambda>k. ins k v) ks m) k' = (if k' \<in> set ks then Some v else get m k')"
  by (induction ks arbitrary: m) (auto simp: get_ins)

lemma get_del_each:
  "get (fold del ks m) k' = (if k' \<in> set ks then None else get m k')"
  by (induction ks arbitrary: m) (auto simp: get_del)

lemma wf_ins_each: "wf_map m \<Longrightarrow> wf_map (fold (\<lambda>k. ins k v) ks m)"
  by (induction ks arbitrary: m) (auto simp: wf_ins)

lemma wf_del_each: "wf_map m \<Longrightarrow> wf_map (fold del ks m)"
  by (induction ks arbitrary: m) (auto simp: wf_del)

lemma wf_ins_pairs: "wf_map m \<Longrightarrow> wf_map (fold (\<lambda>(k, v). ins k v) kvs m)"
  by (induction kvs arbitrary: m) (auto simp: wf_ins)

lemma get_ins_pairs_notin:
  "k \<notin> fst ` set kvs \<Longrightarrow> get (fold (\<lambda>(k, v). ins k v) kvs m) k = get m k"
  by (induction kvs arbitrary: m) (auto simp: get_ins)

lemma get_ins_pairs_distinct:
  "distinct (map fst kvs) \<Longrightarrow> (k, v) \<in> set kvs \<Longrightarrow> get (fold (\<lambda>(k, v). ins k v) kvs m) k = Some v"
  by (induction kvs arbitrary: m) (auto simp: get_ins get_ins_pairs_notin)

lemma get_ins_pairs_Some:
  "get (fold (\<lambda>(k, v). ins k v) kvs m) k = Some v \<Longrightarrow> (k, v) \<in> set kvs \<or> get m k = Some v"
  by (induction kvs arbitrary: m) (force simp: get_ins split: if_splits)+

end

interpretation hm: hash_map hm_get hm_insert hm_remove hm_wf "\<lambda>m. m"
proof unfold_locales
  fix k k' :: 'a and v :: 'b and m :: "('a, 'b) hashmap"
  show "hm_get (hm_insert k v m) k' = (if k' = k then Some v else hm_get m k')"
    by (simp add: hm_get_def hm_insert_def update_conv')
  show "hm_get (hm_remove k m) k' = (if k' = k then None else hm_get m k')"
    by (simp add: hm_get_def hm_remove_def delete_conv')
  show "hm_wf m \<Longrightarrow> hm_wf (hm_insert k v m)"
    by (simp add: hm_wf_def hm_insert_def distinct_update)
  show "hm_wf m \<Longrightarrow> hm_wf (hm_remove k m)"
    by (simp add: hm_wf_def hm_remove_def distinct_delete)
  show "hm_wf m \<Longrightarrow> (k, v) \<in> set m \<longleftrightarrow> hm_get m k = Some v"
    by (simp add: hm_wf_def hm_get_def)
qed

lemmas hm_simps [simp, store_simps] = hm.get_ins hm.get_del
lemmas hm_wf_intros [intro, store_invs] = hm.wf_ins hm.wf_del hm.wf_ins_each hm.wf_del_each
  hm.wf_ins_pairs

lemma hm_get_Nil [simp]: "hm_get [] k = None"
  by (simp add: hm_get_def)

lemma hm_wf_Nil [simp]: "hm_wf []"
  by (simp add: hm_wf_def)

lemma hm_get_in_values: "hm_get m k = Some v \<Longrightarrow> v \<in> set (hm_values m)"
  by (force simp: hm_get_def hm_values_def dest: map_of_SomeD)

lemma hm_values_get: "hm_wf m \<Longrightarrow> v \<in> set (hm_values m) \<longleftrightarrow> (\<exists>k. hm_get m k = Some v)"
  by (force simp: hm_values_def simp flip: hm.entries_get)

lemma hm_keys_get: "k \<in> set (hm_keys m) \<longleftrightarrow> (\<exists>v. hm_get m k = Some v)"
  by (simp add: hm_keys_def hm_get_def) (metis domI domIff map_of_eq_None_iff not_Some_eq)

section \<open>First-match rule lists and their expansions\<close>

lemma first_verdict_Nil [simp]: "first_verdict mt act [] = None"
  by (simp add: first_verdict_def)

lemma first_verdict_Cons [simp]:
  "first_verdict mt act (r # rs) = (if mt r then Some (act r) else first_verdict mt act rs)"
  by (simp add: first_verdict_def)

lemma first_verdict_append:
  "first_verdict mt act (xs @ ys) =
     (case first_verdict mt act xs of None \<Rightarrow> first_verdict mt act ys | Some a \<Rightarrow> Some a)"
  by (induction xs) auto

lemma first_verdict_filter:
  "(\<And>r. r \<in> set rs \<Longrightarrow> mt r \<Longrightarrow> keep r) \<Longrightarrow>
     first_verdict mt act (filter keep rs) = first_verdict mt act rs"
  by (induction rs) auto

lemma first_verdict_None: "first_verdict mt act rs = None \<longleftrightarrow> (\<forall>r \<in> set rs. \<not> mt r)"
  by (induction rs) auto

lemma first_verdict_map:
  "first_verdict mt act (map f rs) = first_verdict (\<lambda>r. mt (f r)) (\<lambda>r. act (f r)) rs"
  by (induction rs) auto

lemma first_verdict_cong:
  "(\<And>r. r \<in> set rs \<Longrightarrow> mt r = mt' r) \<Longrightarrow> (\<And>r. r \<in> set rs \<Longrightarrow> act r = act' r) \<Longrightarrow>
     first_verdict mt act rs = first_verdict mt' act' rs"
  by (induction rs) auto

text \<open>
  A rule language compiled into another one, each rule into a list of lines with its own verdict
  that together match what the rule matches. Evaluating the compiled list then gives the verdict of
  the source list. The predicate \<open>compiles\<close> restricts the packets and rules a compilation speaks for.
\<close>

locale rule_expansion =
  fixes src_matches :: "'p \<Rightarrow> 'r \<Rightarrow> bool" and src_action :: "'r \<Rightarrow> 'a"
    and dst_matches :: "'p \<Rightarrow> 'l \<Rightarrow> bool" and dst_action :: "'l \<Rightarrow> 'a"
    and expand :: "'r \<Rightarrow> 'l list"
    and compiles :: "'p \<Rightarrow> 'r \<Rightarrow> bool"
  assumes expand_matches:
      "compiles p r \<Longrightarrow> (\<exists>l \<in> set (expand r). dst_matches p l) \<longleftrightarrow> src_matches p r"
    and expand_action: "compiles p r \<Longrightarrow> l \<in> set (expand r) \<Longrightarrow> dst_action l = src_action r"
begin

lemma first_verdict_expand_one:
  assumes "compiles p r"
  shows "first_verdict (dst_matches p) dst_action (expand r) =
           (if src_matches p r then Some (src_action r) else None)"
proof -
  have "first_verdict (dst_matches p) dst_action ls =
          (if \<exists>l \<in> set ls. dst_matches p l then Some (src_action r) else None)"
    if "set ls \<subseteq> set (expand r)" for ls
    using that by (induction ls) (auto simp: expand_action [OF assms])
  from this [of "expand r"] show ?thesis
    using expand_matches [OF assms] by simp
qed

lemma first_verdict_expand:
  assumes "\<forall>r \<in> set rs. compiles p r"
  shows "first_verdict (dst_matches p) dst_action (concat (map expand rs)) =
           first_verdict (src_matches p) src_action rs"
  using assms by (induction rs) (auto simp: first_verdict_append first_verdict_expand_one)

end

section \<open>The resource store contract\<close>

text \<open>
  What an xDS store promises its clients: a delivery is accepted or rejected by the message alone, an
  accepted one replaces the value under its name and nothing else, reports a change exactly when the
  value differs, and a withdrawal forgets one name.
\<close>

locale resource_store =
  fixes get :: "'s \<Rightarrow> 'k \<Rightarrow> 'v option"
    and admit :: "'k \<Rightarrow> 'm \<Rightarrow> ('v, 'e) result"
    and update :: "'s \<Rightarrow> 'k \<Rightarrow> 'm \<Rightarrow> ('s \<times> bool, 'e) result"
    and withdraw :: "'s \<Rightarrow> 'k \<Rightarrow> 's"
    and inv :: "'s \<Rightarrow> bool"
  assumes update_rejected: "admit k m = Inl e \<Longrightarrow> update s k m = Inl e"
    and update_accepted:
      "inv s \<Longrightarrow> admit k m = Inr v \<Longrightarrow>
         \<exists>s'. update s k m = Inr (s', get s k \<noteq> Some v) \<and> get s' = (get s)(k \<mapsto> v) \<and> inv s'"
    and withdraw_get: "inv s \<Longrightarrow> get (withdraw s k) = (get s)(k := None)"
    and withdraw_inv: "inv s \<Longrightarrow> inv (withdraw s k)"
begin

lemma store_step_refines:
  "inv s \<Longrightarrow> get (store_step update withdraw ev s) = spec_step admit ev (get s) \<and>
     inv (store_step update withdraw ev s)"
proof (induction ev)
  case (Deliver k m)
  then show ?case
    using update_rejected [of k m _ s] update_accepted [of s k m]
    by (cases "admit k m") fastforce+
qed (simp add: withdraw_get withdraw_inv)

lemma run_refines:
  "inv s \<Longrightarrow> get (fold (store_step update withdraw) evs s) = fold (spec_step admit) evs (get s) \<and>
     inv (fold (store_step update withdraw) evs s)"
  by (induction evs arbitrary: s) (simp_all add: store_step_refines)

end

lemma sort_key_already_sorted: "sorted (map f xs) \<Longrightarrow> sort_key f xs = xs"
  by (induction xs) (auto simp: insort_is_Cons)

end
