(* ===== verification/Net.thy ===== *)
theory Net
  imports Prelude
begin

text \<open>
  Addresses as the sources use them: \<open>std::net::IpAddr\<close> and \<open>SocketAddr\<close>, inclusive port ranges,
  and the operations of the third-party \<open>ipnet\<close> crate, which are parameters of the development
  (\<open>ipnet_ops\<close>). Also \<open>byte_to_ip\<close> of \<^verbatim>\<open>src/state/workload.rs\<close>, the SPIFFE \<open>Identity\<close> of
  \<^verbatim>\<open>src/identity/manager.rs\<close>, and the keys \<open>NamespacedHostname\<close> and \<open>NetworkAddress\<close>.
\<close>

unbundle bit_operations_syntax

section \<open>Addresses\<close>

datatype IpAddr = V4 u32 | V6 u128

fun is_ipv4 :: "IpAddr \<Rightarrow> bool" where
  "is_ipv4 (V4 _) = True"
| "is_ipv4 (V6 _) = False"

definition is_ipv6 :: "IpAddr \<Rightarrow> bool" where
  "is_ipv6 a = (\<not> is_ipv4 a)"

record SocketAddr =
  sock_ip :: IpAddr
  sock_port :: u16

definition socket_addr :: "IpAddr \<Rightarrow> u16 \<Rightarrow> SocketAddr" where
  "socket_addr ip p = \<lparr>sock_ip = ip, sock_port = p\<rparr>"

text \<open>\<open>RangeInclusive<u16>\<close> as its two bounds.\<close>

type_synonym port_range = "u16 \<times> u16"

definition range_contains :: "port_range \<Rightarrow> u16 \<Rightarrow> bool" where
  "range_contains r p = (fst r \<le> p \<and> p \<le> snd r)"

text \<open>
  An \<open>ipnet::IpNet\<close> is an address with a prefix length. What the crate computes on it (construction
  with its prefix-length check, truncation of the host bits, membership, printing, parsing) is a
  parameter.
\<close>

datatype IpNet = IpNet (net_addr: IpAddr) (net_len: u8)

definition net_is_v4 :: "IpNet \<Rightarrow> bool" where
  "net_is_v4 n = is_ipv4 (net_addr n)"

record ipnet_ops =
  net_new :: "IpAddr \<Rightarrow> u8 \<Rightarrow> IpNet option"
  net_trunc :: "IpNet \<Rightarrow> IpNet"
  net_contains :: "IpNet \<Rightarrow> IpAddr \<Rightarrow> bool"
  net_display :: "IpNet \<Rightarrow> string"
  net_parse :: "string \<Rightarrow> IpNet option"

text \<open>The documented fact that a network of one family holds no address of the other.\<close>

definition family_sound :: "ipnet_ops \<Rightarrow> bool" where
  "family_sound N = (\<forall>n a. net_contains N n a \<longrightarrow> net_is_v4 n = is_ipv4 a)"

text \<open>A concrete instance of the crate's documented behaviour, for concrete evaluations.\<close>

definition cidr_contains :: "IpNet \<Rightarrow> IpAddr \<Rightarrow> bool" where
  "cidr_contains n a =
     (case (net_addr n, a) of
        (V4 x, V4 y) \<Rightarrow> drop_bit (32 - unat (net_len n)) x = drop_bit (32 - unat (net_len n)) y
      | (V6 x, V6 y) \<Rightarrow> drop_bit (128 - unat (net_len n)) x = drop_bit (128 - unat (net_len n)) y
      | _ \<Rightarrow> False)"

definition cidr_new :: "IpAddr \<Rightarrow> u8 \<Rightarrow> IpNet option" where
  "cidr_new a l = (if unat l \<le> (if is_ipv4 a then 32 else 128) then Some (IpNet a l) else None)"

definition cidr_trunc :: "IpNet \<Rightarrow> IpNet" where
  "cidr_trunc n =
     IpNet (case net_addr n of
              V4 x \<Rightarrow> V4 (push_bit (32 - unat (net_len n)) (drop_bit (32 - unat (net_len n)) x))
            | V6 x \<Rightarrow> V6 (push_bit (128 - unat (net_len n)) (drop_bit (128 - unat (net_len n)) x)))
           (net_len n)"

definition octet :: "nat \<Rightarrow> u32 \<Rightarrow> string" where
  "octet k x = show_nat (unat (take_bit 8 (drop_bit (8 * k) x)))"

definition cidr_display :: "IpNet \<Rightarrow> string" where
  "cidr_display n =
     (case net_addr n of
        V4 x \<Rightarrow> join ''.'' [octet 3 x, octet 2 x, octet 1 x, octet 0 x]
      | V6 x \<Rightarrow> ''::'' @ show_nat (unat x)) @ ''/'' @ show_nat (unat (net_len n))"

definition cidr_parse :: "string \<Rightarrow> IpNet option" where
  "cidr_parse s =
     (case split_once CHR ''/'' s of
        None \<Rightarrow> None
      | Some (a, l) \<Rightarrow>
          (case map parse_u16 (split_on CHR ''.'' a @ [l]) of
             [Some w, Some x, Some y, Some z, Some n] \<Rightarrow>
               if w < 256 \<and> x < 256 \<and> y < 256 \<and> z < 256 \<and> n \<le> 32
               then Some (IpNet (V4 (foldl (\<lambda>acc b. push_bit 8 acc OR ucast b) 0 [w, x, y, z])) (ucast n))
               else None
           | _ \<Rightarrow> None))"

definition cidr_ops :: ipnet_ops where
  "cidr_ops = \<lparr>net_new = cidr_new, net_trunc = cidr_trunc, net_contains = cidr_contains,
     net_display = cidr_display, net_parse = cidr_parse\<rparr>"

text \<open>\<open>IpAddr::from([u8; 4])\<close> and \<open>from([u8; 16])\<close> read the bytes in network order.\<close>

definition be_word :: "u8 list \<Rightarrow> 'w::len word" where
  "be_word bs = foldl (\<lambda>acc b. push_bit 8 acc OR ucast b) 0 bs"

datatype byte_ip_error = ByteAddressParse nat

definition byte_to_ip :: "u8 list \<Rightarrow> (IpAddr, byte_ip_error) result" where
  "byte_to_ip b =
     (if length b = 4 then Ok (V4 (be_word b))
      else if length b = 16 then Ok (V6 (be_word b))
      else Err (ByteAddressParse (length b)))"

section \<open>Names\<close>

record NamespacedHostname =
  nh_namespace :: strng
  nh_hostname :: strng

record NetworkAddress =
  na_network :: strng
  na_address :: IpAddr

definition network_addr :: "strng \<Rightarrow> IpAddr \<Rightarrow> NetworkAddress" where
  "network_addr network vip = \<lparr>na_network = network, na_address = vip\<rparr>"

text \<open>\<open>FromStr for NamespacedHostname\<close>; the error carries the offending string.\<close>

definition NamespacedHostname_from_str :: "string \<Rightarrow> (NamespacedHostname, string) result" where
  "NamespacedHostname_from_str s =
     (case split_once CHR ''/'' s of
        None \<Rightarrow> Err s
      | Some (namespace, hostname) \<Rightarrow> Ok \<lparr>nh_namespace = namespace, nh_hostname = hostname\<rparr>)"

definition NamespacedHostname_display :: "NamespacedHostname \<Rightarrow> string" where
  "NamespacedHostname_display n = nh_namespace n @ ''/'' @ nh_hostname n"

section \<open>SPIFFE identities\<close>

datatype Identity =
  Spiffe (id_trust_domain: strng) (id_namespace: strng) (id_service_account: strng)

datatype identity_error = SpiffeError string

definition uri_prefix :: string where
  "uri_prefix = ''spiffe://''"

definition Identity_from_str :: "string \<Rightarrow> (Identity, identity_error) result" where
  "Identity_from_str s =
     (if \<not> prefix uri_prefix s then Err (SpiffeError s)
      else let parts = split_on CHR ''/'' (drop (length uri_prefix) s) in
        if length parts \<noteq> 5 then Err (SpiffeError s)
        else if parts ! 1 \<noteq> ''ns'' \<or> parts ! 3 \<noteq> ''sa'' then Err (SpiffeError s)
        else Ok (Spiffe (parts ! 0) (parts ! 2) (parts ! 4)))"

fun Identity_display :: "Identity \<Rightarrow> string" where
  "Identity_display (Spiffe td ns sa) = ''spiffe://'' @ td @ ''/ns/'' @ ns @ ''/sa/'' @ sa"

section \<open>Lemmas\<close>

lemma is_ipv6_simps [simp]: "\<not> is_ipv6 (V4 x)" "is_ipv6 (V6 y)"
  by (simp_all add: is_ipv6_def)

lemma family_sound_cidr: "family_sound cidr_ops"
  by (auto simp: family_sound_def cidr_ops_def cidr_contains_def net_is_v4_def split: IpAddr.splits)

lemma NamespacedHostname_display_parse:
  "NamespacedHostname_from_str s = Inr n \<Longrightarrow> NamespacedHostname_display n = s"
  by (auto simp: NamespacedHostname_from_str_def NamespacedHostname_display_def split_once_Some
      split: option.splits)

lemma NamespacedHostname_parse_display:
  "CHR ''/'' \<notin> set (nh_namespace n) \<Longrightarrow>
     NamespacedHostname_from_str (NamespacedHostname_display n) = Inr n"
  by (simp add: NamespacedHostname_from_str_def NamespacedHostname_display_def split_once_append)

lemma Identity_display_join:
  "Identity_display (Spiffe td ns sa) =
     uri_prefix @ join [CHR ''/''] [td, ''ns'', ns, ''sa'', sa]"
  by (simp add: uri_prefix_def)

lemma length_5_conv: "length xs = 5 \<longleftrightarrow> (\<exists>a b c d e. xs = [a, b, c, d, e])"
  by (auto simp: numeral_eq_Suc length_Suc_conv)

text \<open>
  SPIFFE identities: parsing succeeds exactly on the printed form of an identity whose three
  parts hold no slash, and it returns that identity. So printing then parsing is the identity on
  such identities, and a string that parses is the canonical form of what it parses to.
\<close>

theorem Identity_from_str_iff:
  "Identity_from_str s = Ok i \<longleftrightarrow>
     s = Identity_display i \<and> CHR ''/'' \<notin> set (id_trust_domain i) \<and>
     CHR ''/'' \<notin> set (id_namespace i) \<and> CHR ''/'' \<notin> set (id_service_account i)"
proof
  assume parsed: "Identity_from_str s = Ok i"
  then obtain t where s: "s = uri_prefix @ t"
    by (auto simp: Identity_from_str_def prefix_def split: if_splits)
  with parsed obtain a c e where parts: "split_on CHR ''/'' t = [a, ''ns'', c, ''sa'', e]"
      and i: "i = Spiffe a c e"
    by (auto simp: Identity_from_str_def Let_def length_5_conv split: if_splits)
  have "s = Identity_display i"
    using join_split_on [of "CHR ''/''" t] by (simp only: s i parts Identity_display_join)
  moreover have "CHR ''/'' \<notin> set a" "CHR ''/'' \<notin> set c" "CHR ''/'' \<notin> set e"
    using parts split_on_pieces [of _ "CHR ''/''" t] by auto
  ultimately show "s = Identity_display i \<and> CHR ''/'' \<notin> set (id_trust_domain i) \<and>
      CHR ''/'' \<notin> set (id_namespace i) \<and> CHR ''/'' \<notin> set (id_service_account i)"
    by (simp add: i)
next
  assume "s = Identity_display i \<and> CHR ''/'' \<notin> set (id_trust_domain i) \<and>
    CHR ''/'' \<notin> set (id_namespace i) \<and> CHR ''/'' \<notin> set (id_service_account i)"
  moreover obtain td ns sa where i: "i = Spiffe td ns sa" by (cases i)
  ultimately have "s = uri_prefix @ join [CHR ''/''] [td, ''ns'', ns, ''sa'', sa]"
    and pieces: "split_on CHR ''/'' (join [CHR ''/''] [td, ''ns'', ns, ''sa'', sa]) =
      [td, ''ns'', ns, ''sa'', sa]"
    by (auto simp only: Identity_display_join Identity.sel intro!: split_on_join) auto
  then show "Identity_from_str s = Ok i"
    by (simp add: Identity_from_str_def Let_def i del: join.simps)
qed

end
