(* ===== verification/Rbac.thy ===== *)
theory Rbac
  imports Net
begin

text \<open>
  The traffic policies of \<^verbatim>\<open>src/rbac.rs\<close>: the compiled policy types, conversion of the xDS messages
  with its validation, TCP matching, the ordered evaluation of one policy stage
  (\<open>assert_policies\<close>) and the policy store. The translation to firewall rules is in \<open>Firewall\<close>.
\<close>

section \<open>Policies and connections\<close>

datatype Direction = Inbound | Outbound

record Connection =
  conn_src :: SocketAddr
  conn_dst :: SocketAddr
  conn_src_identity :: "Identity option"
  conn_dst_network :: strng
  conn_direction :: Direction

datatype Action = Allow | Deny

datatype Protocol = ProtoAll | ProtoTcp | ProtoUdp | ProtoIcmp | ProtoSctp

record PortMatch =
  pm_protocol :: Protocol
  pm_range :: "port_range option"

record Rule =
  rule_action :: Action
  rule_source_ips :: "IpNet list"
  rule_destination_ips :: "IpNet list"
  rule_ports :: "PortMatch list"

record RuleSet =
  rs_rules :: "Rule list"

record TrafficPolicy =
  tp_ingress :: "RuleSet option"
  tp_egress :: "RuleSet option"

datatype AuthorizationRejectionError =
  NoWorkload | WorkloadMismatch | ExplicitlyDenied strng strng | NotAllowed

text \<open>Names of the protocol enumeration, as the configuration dump prints and reads them.\<close>

fun serialize_protocol :: "Protocol \<Rightarrow> string" where
  "serialize_protocol ProtoAll = ''ALL''"
| "serialize_protocol ProtoTcp = ''TCP''"
| "serialize_protocol ProtoUdp = ''UDP''"
| "serialize_protocol ProtoIcmp = ''ICMP''"
| "serialize_protocol ProtoSctp = ''SCTP''"

definition deserialize_protocol :: "string \<Rightarrow> (Protocol, string) result" where
  "deserialize_protocol name =
     (if name = ''ALL'' then Ok ProtoAll else if name = ''TCP'' then Ok ProtoTcp
      else if name = ''UDP'' then Ok ProtoUdp else if name = ''ICMP'' then Ok ProtoIcmp
      else if name = ''SCTP'' then Ok ProtoSctp else Err name)"

section \<open>Matching and evaluation\<close>

definition port_matches_tcp :: "Connection \<Rightarrow> PortMatch \<Rightarrow> bool" where
  "port_matches_tcp conn port =
     ((pm_protocol port = ProtoAll \<or> pm_protocol port = ProtoTcp) \<and>
      (case pm_range port of None \<Rightarrow> True | Some r \<Rightarrow> range_contains r (sock_port (conn_dst conn))))"

definition matches_tcp :: "ipnet_ops \<Rightarrow> Connection \<Rightarrow> Rule \<Rightarrow> bool" where
  "matches_tcp N conn rule =
     ((rule_source_ips rule = [] \<or>
        (\<exists>ip \<in> set (rule_source_ips rule). net_contains N ip (sock_ip (conn_src conn)))) \<and>
      (rule_destination_ips rule = [] \<or>
        (\<exists>ip \<in> set (rule_destination_ips rule). net_contains N ip (sock_ip (conn_dst conn)))) \<and>
      (rule_ports rule = [] \<or> (\<exists>port \<in> set (rule_ports rule). port_matches_tcp conn port)))"

definition rules_for :: "TrafficPolicy \<Rightarrow> Direction \<Rightarrow> RuleSet option" where
  "rules_for p d = (case d of Inbound \<Rightarrow> tp_ingress p | Outbound \<Rightarrow> tp_egress p)"

definition match_tcp :: "ipnet_ops \<Rightarrow> RuleSet \<Rightarrow> Connection \<Rightarrow> (nat \<times> Action) option" where
  "match_tcp N rs conn =
     map_option (\<lambda>(index, rule). (index, rule_action rule))
       (find (\<lambda>(_, rule). matches_tcp N conn rule) (enumerate 0 (rs_rules rs)))"

text \<open>The named policies of a stage, in evaluation order; \<open>None\<close> is an unresolved reference.\<close>

type_synonym policies = "(strng \<times> TrafficPolicy option) list"

definition policy_deny :: "strng \<Rightarrow> string \<Rightarrow> AuthorizationRejectionError" where
  "policy_deny name reason = ExplicitlyDenied name reason"

fun assert_policies_loop ::
  "ipnet_ops \<Rightarrow> Connection \<Rightarrow> bool \<Rightarrow> policies \<Rightarrow> (unit, AuthorizationRejectionError) result"
where
  "assert_policies_loop N conn configured [] =
     (if configured then Err (policy_deny '''' ''DEFAULT-DENY'') else Ok ())"
| "assert_policies_loop N conn configured ((name, policy) # ps) =
     (case Option.bind policy (\<lambda>p. rules_for p (conn_direction conn)) of
        None \<Rightarrow> assert_policies_loop N conn configured ps
      | Some rules \<Rightarrow>
          (case match_tcp N rules conn of
             Some (_, Allow) \<Rightarrow> Ok ()
           | Some (index, Deny) \<Rightarrow> Err (policy_deny name (''rule-'' @ show_nat index))
           | None \<Rightarrow> assert_policies_loop N conn True ps))"

definition assert_policies ::
  "ipnet_ops \<Rightarrow> policies \<Rightarrow> Connection \<Rightarrow> (unit, AuthorizationRejectionError) result"
where
  "assert_policies N ps conn =
     (case find (\<lambda>(_, policy). policy = None) ps of
        Some (name, _) \<Rightarrow> Err (policy_deny name ''policy-unavailable'')
      | None \<Rightarrow> assert_policies_loop N conn False ps)"

section \<open>Conversion from xDS\<close>

text \<open>
  The messages of \<^verbatim>\<open>proto/api/security/v1/trafficpolicy.proto\<close>. Enumerations arrive as \<open>i32\<close>,
  unsigned fields as \<open>u32\<close>.
\<close>

record XdsPolicyAddress =
  xa_address :: "u8 list"
  xa_length :: u32

record XdsPortMatch =
  xpm_protocol :: int
  xpm_port :: "u32 option"
  xpm_end_port :: "u32 option"

record XdsMatch =
  xm_source_ips :: "XdsPolicyAddress list"
  xm_destination_ips :: "XdsPolicyAddress list"
  xm_ports :: "XdsPortMatch list"

record XdsRule =
  xr_action :: int
  xr_match :: "XdsMatch option"

record XdsRuleSet =
  xrs_rules :: "XdsRule list"

record XdsTrafficPolicy =
  xtp_ingress :: "XdsRuleSet option"
  xtp_egress :: "XdsRuleSet option"

text \<open>What \<open>anyhow\<close> carries: the failure, wrapped in the contexts added on the way out.\<close>

datatype policy_error =
    UnknownEnumValue int
  | MissingMatch
  | BadAddressBytes nat
  | TryFromIntError
  | PrefixLenError
  | IcmpWithPort
  | PortOutOfRange
  | ReversedPortRange
  | BadPolicyName
  | WithContext string policy_error

definition Action_from_i32 :: "int \<Rightarrow> Action option" where
  "Action_from_i32 i = (if i = 0 then Some Allow else if i = 1 then Some Deny else None)"

definition Protocol_from_i32 :: "int \<Rightarrow> Protocol option" where
  "Protocol_from_i32 i =
     (if i = 0 then Some ProtoAll else if i = 1 then Some ProtoTcp else if i = 2 then Some ProtoUdp
      else if i = 3 then Some ProtoIcmp else if i = 4 then Some ProtoSctp else None)"

definition u16_try_from :: "u32 \<Rightarrow> (u16, policy_error) result" where
  "u16_try_from x = (if unat x < 65536 then Ok (ucast x) else Err TryFromIntError)"

definition with_context :: "string \<Rightarrow> ('a, policy_error) result \<Rightarrow> ('a, policy_error) result" where
  "with_context c r = (case r of Inl e \<Rightarrow> Err (WithContext c e) | Inr x \<Rightarrow> Ok x)"

definition parse_address :: "ipnet_ops \<Rightarrow> XdsPolicyAddress \<Rightarrow> (IpNet, policy_error) result" where
  "parse_address N address =
     (case byte_to_ip (xa_address address) of
        Inl (ByteAddressParse n) \<Rightarrow> Err (BadAddressBytes n)
      | Inr ip \<Rightarrow>
          (if unat (xa_length address) < 256 then
             (case net_new N ip (ucast (xa_length address)) of
                None \<Rightarrow> Err PrefixLenError
              | Some net \<Rightarrow> Ok (net_trunc N net))
           else Err TryFromIntError))"

definition PortMatch_try_from :: "XdsPortMatch \<Rightarrow> (PortMatch, policy_error) result" where
  "PortMatch_try_from x =
     (case Protocol_from_i32 (xpm_protocol x) of
        None \<Rightarrow> Err (UnknownEnumValue (xpm_protocol x))
      | Some protocol \<Rightarrow>
          (case transpose_opt u16_try_from (xpm_port x) of
             Inl e \<Rightarrow> Err e
           | Inr port \<Rightarrow>
               (case transpose_opt u16_try_from (xpm_end_port x) of
                  Inl e \<Rightarrow> Err e
                | Inr end_port \<Rightarrow>
                    Ok \<lparr>pm_protocol = protocol,
                        pm_range =
                          (case (port, end_port) of
                             (None, None) \<Rightarrow> None
                           | (Some p, None) \<Rightarrow> Some (p, p)
                           | (None, Some e) \<Rightarrow> Some (1, e)
                           | (Some s, Some e) \<Rightarrow> Some (s, e))\<rparr>)))"

definition Rule_try_from :: "ipnet_ops \<Rightarrow> XdsRule \<Rightarrow> (Rule, policy_error) result" where
  "Rule_try_from N x =
     (case Action_from_i32 (xr_action x) of
        None \<Rightarrow> Err (UnknownEnumValue (xr_action x))
      | Some action \<Rightarrow>
          (case xr_match x of
             None \<Rightarrow> Err MissingMatch
           | Some m \<Rightarrow>
               (case traverse (parse_address N) (xm_source_ips m) of
                  Inl e \<Rightarrow> Err e
                | Inr sources \<Rightarrow>
                    (case traverse (parse_address N) (xm_destination_ips m) of
                       Inl e \<Rightarrow> Err e
                     | Inr destinations \<Rightarrow>
                         (case traverse PortMatch_try_from (xm_ports m) of
                            Inl e \<Rightarrow> Err e
                          | Inr ports \<Rightarrow>
                              Ok \<lparr>rule_action = action, rule_source_ips = sources,
                                  rule_destination_ips = destinations, rule_ports = ports\<rparr>)))))"

definition RuleSet_try_from :: "ipnet_ops \<Rightarrow> XdsRuleSet \<Rightarrow> (RuleSet, policy_error) result" where
  "RuleSet_try_from N x =
     (case traverse (\<lambda>(index, rule). with_context (''rule '' @ show_nat index) (Rule_try_from N rule))
             (enumerate 0 (xrs_rules x)) of
        Inl e \<Rightarrow> Err e
      | Inr rules \<Rightarrow> Ok \<lparr>rs_rules = rules\<rparr>)"

definition PortMatch_validate :: "PortMatch \<Rightarrow> (unit, policy_error) result" where
  "PortMatch_validate p =
     (case pm_range p of
        None \<Rightarrow> Ok ()
      | Some r \<Rightarrow>
          (if pm_protocol p = ProtoIcmp then Err IcmpWithPort
           else if \<not> (fst r > 0 \<and> snd r > 0) then Err PortOutOfRange
           else if \<not> fst r \<le> snd r then Err ReversedPortRange
           else Ok ()))"

definition validate_rules :: "string \<Rightarrow> RuleSet \<Rightarrow> (unit, policy_error) result" where
  "validate_rules direction rs =
     map_sum id (\<lambda>_. ())
       (traverse
          (\<lambda>(index, rule). traverse
             (\<lambda>port. with_context (''TrafficPolicy '' @ direction @ '' rule '' @ show_nat index)
                       (PortMatch_validate port))
             (rule_ports rule))
          (enumerate 0 (rs_rules rs)))"

definition TrafficPolicy_validate :: "TrafficPolicy \<Rightarrow> (unit, policy_error) result" where
  "TrafficPolicy_validate p =
     map_sum id (\<lambda>_. ())
       (traverse
          (\<lambda>(direction, rules). case rules of None \<Rightarrow> Ok () | Some rs \<Rightarrow> validate_rules direction rs)
          [(''ingress'', tp_ingress p), (''egress'', tp_egress p)])"

definition TrafficPolicy_try_from ::
  "ipnet_ops \<Rightarrow> XdsTrafficPolicy \<Rightarrow> (TrafficPolicy, policy_error) result"
where
  "TrafficPolicy_try_from N x =
     (case with_context ''TrafficPolicy ingress'' (transpose_opt (RuleSet_try_from N) (xtp_ingress x)) of
        Inl e \<Rightarrow> Err e
      | Inr ingress \<Rightarrow>
          (case with_context ''TrafficPolicy egress'' (transpose_opt (RuleSet_try_from N) (xtp_egress x)) of
             Inl e \<Rightarrow> Err e
           | Inr egress \<Rightarrow>
               (let policy = \<lparr>tp_ingress = ingress, tp_egress = egress\<rparr> in
                case TrafficPolicy_validate policy of Inl e \<Rightarrow> Err e | Inr _ \<Rightarrow> Ok policy)))"

section \<open>The policy store\<close>

text \<open>
  \<open>ps_notified\<close> counts the sends on the watch channel \<open>notifier\<close>; the channel itself belongs to
  tokio.
\<close>

record TrafficPolicyStore =
  ps_resources :: "(strng, TrafficPolicy) hashmap"
  ps_notified :: nat

definition policy_store_default :: TrafficPolicyStore where
  "policy_store_default = \<lparr>ps_resources = [], ps_notified = 0\<rparr>"

definition policy_send :: "TrafficPolicyStore \<Rightarrow> TrafficPolicyStore" where
  "policy_send s = s\<lparr>ps_notified := Suc (ps_notified s)\<rparr>"

definition policy_get :: "TrafficPolicyStore \<Rightarrow> strng \<Rightarrow> TrafficPolicy option" where
  "policy_get s name = hm_get (ps_resources s) name"

definition policy_insert ::
  "TrafficPolicyStore \<Rightarrow> strng \<Rightarrow> TrafficPolicy \<Rightarrow> (TrafficPolicyStore \<times> bool, policy_error) result"
where
  "policy_insert s name policy =
     (if \<not> (name \<noteq> [] \<and> name \<noteq> ''*'') then Err BadPolicyName
      else if policy_get s name = Some policy then Ok (s, False)
      else Ok (s\<lparr>ps_resources := hm_insert name policy (ps_resources s)\<rparr>, True))"

definition policy_update ::
  "ipnet_ops \<Rightarrow> TrafficPolicyStore \<Rightarrow> strng \<Rightarrow> XdsTrafficPolicy \<Rightarrow>
     (TrafficPolicyStore \<times> bool, policy_error) result"
where
  "policy_update N s name resource =
     (case TrafficPolicy_try_from N resource of
        Inl e \<Rightarrow> Err e
      | Inr policy \<Rightarrow> policy_insert s name policy)"

definition policy_remove :: "TrafficPolicyStore \<Rightarrow> strng \<Rightarrow> TrafficPolicyStore \<times> bool" where
  "policy_remove s name =
     (s\<lparr>ps_resources := hm_remove name (ps_resources s)\<rparr>, hm_contains (ps_resources s) name)"

definition policy_replace :: "TrafficPolicyStore \<Rightarrow> TrafficPolicyStore \<Rightarrow> TrafficPolicyStore" where
  "policy_replace s next_store = s\<lparr>ps_resources := ps_resources next_store\<rparr>"

section \<open>Specification\<close>

text \<open>
  The rule sets a stage configures for a direction, and the stage read as one ordered rule list.
  Then the conditions the comments of the protocol file put on a message, and what a rule matches
  there: the specification the conversion is compared with.
\<close>

definition stage_bodies :: "Direction \<Rightarrow> policies \<Rightarrow> RuleSet list" where
  "stage_bodies d ps = List.map_filter (\<lambda>(_, p). Option.bind p (\<lambda>q. rules_for q d)) ps"

definition stage_rules :: "Direction \<Rightarrow> policies \<Rightarrow> Rule list" where
  "stage_rules d ps = concat (map rs_rules (stage_bodies d ps))"

definition xds_address_valid :: "ipnet_ops \<Rightarrow> XdsPolicyAddress \<Rightarrow> bool" where
  "xds_address_valid N a =
     (case byte_to_ip (xa_address a) of
        Inl _ \<Rightarrow> False
      | Inr ip \<Rightarrow> unat (xa_length a) < 256 \<and> net_new N ip (ucast (xa_length a)) \<noteq> None)"

definition wire_port_valid :: "u32 option \<Rightarrow> bool" where
  "wire_port_valid p = (case p of None \<Rightarrow> True | Some x \<Rightarrow> 1 \<le> unat x \<and> unat x \<le> 65535)"

definition xds_port_valid :: "XdsPortMatch \<Rightarrow> bool" where
  "xds_port_valid x =
     (xpm_protocol x \<in> {0, 1, 2, 3, 4} \<and>
      wire_port_valid (xpm_port x) \<and> wire_port_valid (xpm_end_port x) \<and>
      (case (xpm_port x, xpm_end_port x) of (Some p, Some e) \<Rightarrow> unat p \<le> unat e | _ \<Rightarrow> True) \<and>
      (xpm_protocol x = 3 \<longrightarrow> xpm_port x = None \<and> xpm_end_port x = None))"

definition xds_rule_valid :: "ipnet_ops \<Rightarrow> XdsRule \<Rightarrow> bool" where
  "xds_rule_valid N x =
     (xr_action x \<in> {0, 1} \<and>
      (case xr_match x of
         None \<Rightarrow> False
       | Some m \<Rightarrow>
           (\<forall>a \<in> set (xm_source_ips m). xds_address_valid N a) \<and>
           (\<forall>a \<in> set (xm_destination_ips m). xds_address_valid N a) \<and>
           (\<forall>q \<in> set (xm_ports m). xds_port_valid q)))"

definition wire_rules :: "XdsRuleSet option \<Rightarrow> XdsRule list" where
  "wire_rules rs = (case rs of None \<Rightarrow> [] | Some x \<Rightarrow> xrs_rules x)"

definition xds_address_matches :: "ipnet_ops \<Rightarrow> IpAddr \<Rightarrow> XdsPolicyAddress \<Rightarrow> bool" where
  "xds_address_matches N ip a =
     (case byte_to_ip (xa_address a) of
        Inl _ \<Rightarrow> False
      | Inr base \<Rightarrow>
          (case net_new N base (ucast (xa_length a)) of
             None \<Rightarrow> False | Some net \<Rightarrow> net_contains N net ip))"

definition xds_port_matches :: "u16 \<Rightarrow> XdsPortMatch \<Rightarrow> bool" where
  "xds_port_matches dst x =
     (xpm_protocol x \<in> {0, 1} \<and>
      (case (xpm_port x, xpm_end_port x) of
         (None, None) \<Rightarrow> True
       | (Some p, None) \<Rightarrow> unat dst = unat p
       | (None, Some e) \<Rightarrow> 1 \<le> unat dst \<and> unat dst \<le> unat e
       | (Some p, Some e) \<Rightarrow> unat p \<le> unat dst \<and> unat dst \<le> unat e))"

definition xds_rule_matches :: "ipnet_ops \<Rightarrow> Connection \<Rightarrow> XdsRule \<Rightarrow> bool" where
  "xds_rule_matches N conn x =
     (case xr_match x of
        None \<Rightarrow> False
      | Some m \<Rightarrow>
          (xm_source_ips m = [] \<or>
             list_ex (xds_address_matches N (sock_ip (conn_src conn))) (xm_source_ips m)) \<and>
          (xm_destination_ips m = [] \<or>
             list_ex (xds_address_matches N (sock_ip (conn_dst conn))) (xm_destination_ips m)) \<and>
          (xm_ports m = [] \<or> list_ex (xds_port_matches (sock_port (conn_dst conn))) (xm_ports m)))"

definition xds_rule_action :: "XdsRule \<Rightarrow> Action" where
  "xds_rule_action x = (if xr_action x = 0 then Allow else Deny)"

definition wire_direction :: "XdsTrafficPolicy \<Rightarrow> Direction \<Rightarrow> XdsRuleSet option" where
  "wire_direction x d = (case d of Inbound \<Rightarrow> xtp_ingress x | Outbound \<Rightarrow> xtp_egress x)"

text \<open>Truncating the host bits of a network, as documented by the crate, keeps its members.\<close>

definition trunc_sound :: "ipnet_ops \<Rightarrow> bool" where
  "trunc_sound N = (\<forall>n a. net_contains N (net_trunc N n) a = net_contains N n a)"

text \<open>What the policy store admits under a name.\<close>

definition policy_admit :: "ipnet_ops \<Rightarrow> strng \<Rightarrow> XdsTrafficPolicy \<Rightarrow> (TrafficPolicy, policy_error) result" where
  "policy_admit N name m =
     (case TrafficPolicy_try_from N m of
        Inl e \<Rightarrow> Err e
      | Inr policy \<Rightarrow> if name = [] \<or> name = ''*'' then Err BadPolicyName else Ok policy)"

definition wire_range :: "u32 option \<Rightarrow> u32 option \<Rightarrow> port_range option" where
  "wire_range p e =
     (case (p, e) of
        (None, None) \<Rightarrow> None
      | (Some x, None) \<Rightarrow> Some (ucast x, ucast x)
      | (None, Some y) \<Rightarrow> Some (1, ucast y)
      | (Some x, Some y) \<Rightarrow> Some (ucast x, ucast y))"

definition fits_u16 :: "u32 option \<Rightarrow> bool" where
  "fits_u16 p = (case p of None \<Rightarrow> True | Some x \<Rightarrow> unat x < 65536)"

text \<open>A message with one ingress rule, its converted form and a connection, for evaluation.\<close>

definition example_wire_policy :: XdsTrafficPolicy where
  "example_wire_policy =
     \<lparr>xtp_ingress = Some \<lparr>xrs_rules =
        [\<lparr>xr_action = 0, xr_match = Some
           \<lparr>xm_source_ips = [\<lparr>xa_address = [10, 1, 2, 3], xa_length = 8\<rparr>], xm_destination_ips = [],
            xm_ports = [\<lparr>xpm_protocol = 1, xpm_port = Some 80, xpm_end_port = Some 443\<rparr>]\<rparr>\<rparr>]\<rparr>,
      xtp_egress = None\<rparr>"

definition example_policy :: TrafficPolicy where
  "example_policy =
     \<lparr>tp_ingress = Some \<lparr>rs_rules =
        [\<lparr>rule_action = Allow, rule_source_ips = [IpNet (V4 0x0A000000) 8], rule_destination_ips = [],
          rule_ports = [\<lparr>pm_protocol = ProtoTcp, pm_range = Some (80, 443)\<rparr>]\<rparr>]\<rparr>,
      tp_egress = None\<rparr>"

definition example_connection :: "u32 \<Rightarrow> u16 \<Rightarrow> Connection" where
  "example_connection src port =
     \<lparr>conn_src = socket_addr (V4 src) 40000, conn_dst = socket_addr (V4 0x0A000001) port,
      conn_src_identity = None, conn_dst_network = '''', conn_direction = Inbound\<rparr>"

section \<open>Lemmas\<close>

lemma with_context_ok [simp]: "is_ok (with_context c r) = is_ok r"
  by (cases r) (auto simp: with_context_def)

lemma with_context_Inr [simp]: "with_context c r = Inr x \<longleftrightarrow> r = Inr x"
  by (cases r) (auto simp: with_context_def)

lemma match_tcp_verdict:
  "map_option snd (match_tcp N rs conn) =
     first_verdict (matches_tcp N conn) rule_action (rs_rules rs)"
  unfolding match_tcp_def first_verdict_def find_enumerate [of "matches_tcp N conn" 0, symmetric]
  by (simp add: option.map_comp comp_def case_prod_beta)

lemma match_tcp_cases:
  obtains "match_tcp N rs conn = None"
      and "first_verdict (matches_tcp N conn) rule_action (rs_rules rs) = None"
  | i a where "match_tcp N rs conn = Some (i, a)"
      and "first_verdict (matches_tcp N conn) rule_action (rs_rules rs) = Some a"
  using match_tcp_verdict [of N rs conn] by (cases "match_tcp N rs conn") auto

lemma stage_bodies_simps [simp]:
  "stage_bodies d [] = []"
  "stage_bodies d ((n, p) # ps) =
     (case Option.bind p (\<lambda>q. rules_for q d) of
        None \<Rightarrow> stage_bodies d ps | Some b \<Rightarrow> b # stage_bodies d ps)"
  by (simp_all add: stage_bodies_def map_filter_simps split: option.splits)

lemma stage_rules_simps [simp]:
  "stage_rules d [] = []"
  "stage_rules d ((n, p) # ps) =
     (case Option.bind p (\<lambda>q. rules_for q d) of
        None \<Rightarrow> stage_rules d ps | Some b \<Rightarrow> rs_rules b @ stage_rules d ps)"
  by (simp_all add: stage_rules_def split: option.splits)

lemma assert_policies_loop_Ok:
  "assert_policies_loop N conn configured ps = Inr () \<longleftrightarrow>
     (case first_verdict (matches_tcp N conn) rule_action (stage_rules (conn_direction conn) ps) of
        Some a \<Rightarrow> a = Allow
      | None \<Rightarrow> \<not> configured \<and> stage_bodies (conn_direction conn) ps = [])"
proof (induction N conn configured ps rule: assert_policies_loop.induct)
  case (2 N conn configured name policy ps)
  show ?case
  proof (cases "Option.bind policy (\<lambda>p. rules_for p (conn_direction conn))")
    case None
    with 2 show ?thesis by (simp split: option.splits)
  next
    case (Some body)
    show ?thesis
    proof (cases rule: match_tcp_cases [of N body conn])
      case 1
      with Some 2 show ?thesis by (simp add: first_verdict_append split: option.splits)
    next
      case (2 i a)
      with Some show ?thesis by (cases a) (simp_all add: first_verdict_append)
    qed
  qed
qed simp

lemma find_missing_None:
  "find (\<lambda>(_, p). p = None) ps = None \<longleftrightarrow> None \<notin> snd ` set ps"
  by (induction ps) (auto simp: image_iff)

lemma assert_policies_Ok:
  "assert_policies N ps conn = Ok () \<longleftrightarrow>
     None \<notin> snd ` set ps \<and>
     (stage_bodies (conn_direction conn) ps = [] \<or>
      first_verdict (matches_tcp N conn) rule_action (stage_rules (conn_direction conn) ps) = Some Allow)"
proof (cases "find (\<lambda>(_, policy). policy = None) ps")
  case None
  then have "None \<notin> snd ` set ps"
    by (simp only: find_missing_None not_False_eq_True)
  moreover have "stage_rules (conn_direction conn) ps = []"
    if "stage_bodies (conn_direction conn) ps = []"
    using that by (simp add: stage_rules_def)
  ultimately show ?thesis
    using None by (auto simp: assert_policies_def assert_policies_loop_Ok split: option.splits)
next
  case (Some np)
  then have "None \<in> snd ` set ps"
    using find_missing_None [of ps] by auto
  with Some show ?thesis
    by (cases np) (simp add: assert_policies_def)
qed


lemma parse_address_ok: "is_ok (parse_address N a) \<longleftrightarrow> xds_address_valid N a"
  by (auto simp: parse_address_def xds_address_valid_def is_ok_iff
      split: sum.splits byte_ip_error.splits option.splits)

lemma unat_ucast_u16: "unat x < 65536 \<Longrightarrow> unat (ucast x :: u16) = unat (x :: u32)"
  by (simp add: unsigned_ucast_eq take_bit_nat_eq_self)

lemma u16_le:
  assumes "unat x < 65536" "unat y < 65536"
  shows "(ucast x :: u16) \<le> ucast (y :: u32) \<longleftrightarrow> unat (x :: u32) \<le> unat y"
  unfolding word_le_nat_alt unat_ucast_u16 [OF assms(1)] unat_ucast_u16 [OF assms(2)] ..

lemma u16_pos:
  assumes "unat x < 65536"
  shows "0 < (ucast x :: u16) \<longleftrightarrow> 1 \<le> unat (x :: u32)"
  unfolding word_less_nat_alt unat_ucast_u16 [OF assms(1)] by auto

lemma transpose_u16:
  "transpose_opt u16_try_from p = (if fits_u16 p then Inr (map_option ucast p) else Inl TryFromIntError)"
  by (auto simp: transpose_opt_def u16_try_from_def fits_u16_def split: option.splits)

lemma PortMatch_try_from_Inr:
  "PortMatch_try_from x = Inr pm \<longleftrightarrow>
     (\<exists>proto. Protocol_from_i32 (xpm_protocol x) = Some proto \<and>
        fits_u16 (xpm_port x) \<and> fits_u16 (xpm_end_port x) \<and>
        pm = \<lparr>pm_protocol = proto, pm_range = wire_range (xpm_port x) (xpm_end_port x)\<rparr>)"
  by (auto simp: PortMatch_try_from_def transpose_u16 wire_range_def split: option.splits)

lemma range_validate:
  assumes "fits_u16 p" "fits_u16 e"
  shows "is_ok (PortMatch_validate \<lparr>pm_protocol = proto, pm_range = wire_range p e\<rparr>) \<longleftrightarrow>
    wire_port_valid p \<and> wire_port_valid e \<and>
    (case (p, e) of (Some x, Some y) \<Rightarrow> unat x \<le> unat y | _ \<Rightarrow> True) \<and>
    (proto = ProtoIcmp \<longrightarrow> p = None \<and> e = None)"
proof -
  have "(1 :: u16) = ucast (1 :: u32)" by simp
  then have "(1 :: u16) \<le> ucast (y :: u32) \<longleftrightarrow> 1 \<le> unat y" if "unat y < 65536" for y
    using u16_le [of 1 y] that by simp
  then show ?thesis
    using assms
    by (auto simp: PortMatch_validate_def wire_range_def wire_port_valid_def fits_u16_def
        u16_le u16_pos split: option.splits)
qed

lemma Protocol_from_i32_cases:
  "Protocol_from_i32 i = Some q \<longleftrightarrow>
     i = 0 \<and> q = ProtoAll \<or> i = 1 \<and> q = ProtoTcp \<or> i = 2 \<and> q = ProtoUdp \<or>
     i = 3 \<and> q = ProtoIcmp \<or> i = 4 \<and> q = ProtoSctp"
  by (auto simp: Protocol_from_i32_def)

lemma portmatch_accept:
  "(\<exists>p. PortMatch_try_from x = Inr p \<and> is_ok (PortMatch_validate p)) \<longleftrightarrow> xds_port_valid x"
proof -
  have fits: "fits_u16 p" if "wire_port_valid p" for p
    using that by (auto simp: fits_u16_def wire_port_valid_def split: option.splits)
  have "(\<exists>p. PortMatch_try_from x = Inr p \<and> is_ok (PortMatch_validate p)) \<longleftrightarrow>
      (\<exists>proto. Protocol_from_i32 (xpm_protocol x) = Some proto \<and>
        fits_u16 (xpm_port x) \<and> fits_u16 (xpm_end_port x) \<and>
        is_ok (PortMatch_validate \<lparr>pm_protocol = proto, pm_range = wire_range (xpm_port x) (xpm_end_port x)\<rparr>))"
    by (auto simp: PortMatch_try_from_Inr)
  also have "\<dots> \<longleftrightarrow> xds_port_valid x"
    by (auto simp: range_validate xds_port_valid_def Protocol_from_i32_cases fits)
  finally show ?thesis .
qed

lemma Action_from_i32_cases:
  "Action_from_i32 i = Some a \<longleftrightarrow> i = 0 \<and> a = Allow \<or> i = 1 \<and> a = Deny"
  by (auto simp: Action_from_i32_def)

lemma rule_accept:
  "(\<exists>r. Rule_try_from N x = Inr r \<and> (\<forall>p \<in> set (rule_ports r). is_ok (PortMatch_validate p))) \<longleftrightarrow>
     xds_rule_valid N x"
proof -
  have "(\<exists>r. Rule_try_from N x = Inr r \<and> (\<forall>p \<in> set (rule_ports r). is_ok (PortMatch_validate p))) \<longleftrightarrow>
      (\<exists>a m. Action_from_i32 (xr_action x) = Some a \<and> xr_match x = Some m \<and>
         is_ok (traverse (parse_address N) (xm_source_ips m)) \<and>
         is_ok (traverse (parse_address N) (xm_destination_ips m)) \<and>
         (\<exists>ps. traverse PortMatch_try_from (xm_ports m) = Inr ps \<and>
            (\<forall>p \<in> set ps. is_ok (PortMatch_validate p))))"
    by (auto simp: Rule_try_from_def is_ok_iff split: option.splits sum.splits)
  then show ?thesis
    by (auto simp: traverse_Ok_all portmatch_accept is_ok_traverse parse_address_ok
        xds_rule_valid_def Action_from_i32_cases split: option.splits)
qed

lemma validate_rules_ok:
  "is_ok (validate_rules d rs) \<longleftrightarrow>
     (\<forall>r \<in> set (rs_rules rs). \<forall>p \<in> set (rule_ports r). is_ok (PortMatch_validate p))"
  using ball_enumerate_snd [of 0 "rs_rules rs" "\<lambda>r. \<forall>p \<in> set (rule_ports r). is_ok (PortMatch_validate p)"]
  by (simp add: validate_rules_def is_ok_traverse case_prod_beta)

lemma RuleSet_try_from_Inr:
  "RuleSet_try_from N x = Inr rs \<longleftrightarrow> traverse (Rule_try_from N) (xrs_rules x) = Inr (rs_rules rs)"
proof -
  have "traverse (\<lambda>(i, r). with_context (f i) (Rule_try_from N r)) (enumerate n xs) = Inr ys \<longleftrightarrow>
      traverse (Rule_try_from N) xs = Inr ys" for f n xs ys
    unfolding traverse_Ok_list_all2
    by (induction xs arbitrary: n ys) (auto simp: list_all2_Cons1)
  from this [of "\<lambda>i. ''rule '' @ show_nat i" 0 "xrs_rules x" "rs_rules rs"] show ?thesis
    by (cases rs) (auto simp: RuleSet_try_from_def split: sum.splits)
qed

lemma ex_RuleSet: "(\<exists>rs. P (rs_rules (rs :: RuleSet))) \<longleftrightarrow> (\<exists>l. P l)"
  by (metis RuleSet.select_convs(1))

lemma ex_TrafficPolicy: "(\<exists>p. P (tp_ingress p) (tp_egress (p :: TrafficPolicy))) \<longleftrightarrow> (\<exists>i e. P i e)"
  by (metis TrafficPolicy.select_convs(1,2))

lemma ruleset_accept:
  "(\<exists>rs. RuleSet_try_from N x = Inr rs \<and> is_ok (validate_rules d rs)) \<longleftrightarrow>
     list_all (xds_rule_valid N) (xrs_rules x)"
proof -
  have "(\<exists>rs. RuleSet_try_from N x = Inr rs \<and> is_ok (validate_rules d rs)) \<longleftrightarrow>
    (\<exists>rs. traverse (Rule_try_from N) (xrs_rules x) = Inr rs \<and>
       (\<forall>r \<in> set rs. \<forall>p \<in> set (rule_ports r). is_ok (PortMatch_validate p)))"
    unfolding RuleSet_try_from_Inr validate_rules_ok by (rule ex_RuleSet)
  then show ?thesis
    by (simp add: traverse_Ok_all rule_accept list_all_iff)
qed

lemma ruleset_option_accept:
  "(\<exists>rs. transpose_opt (RuleSet_try_from N) x = Inr rs \<and>
      (case rs of None \<Rightarrow> True | Some b \<Rightarrow> is_ok (validate_rules d b))) \<longleftrightarrow>
     list_all (xds_rule_valid N) (wire_rules x)"
proof (cases x)
  case (Some y)
  show ?thesis
    unfolding Some wire_rules_def option.case ruleset_accept [of N y d, symmetric]
    by (auto simp: transpose_opt_def split: sum.splits)
qed (simp add: transpose_opt_def wire_rules_def)

lemma TrafficPolicy_validate_ok:
  "is_ok (TrafficPolicy_validate p) \<longleftrightarrow>
     (case tp_ingress p of None \<Rightarrow> True | Some b \<Rightarrow> is_ok (validate_rules ''ingress'' b)) \<and>
     (case tp_egress p of None \<Rightarrow> True | Some b \<Rightarrow> is_ok (validate_rules ''egress'' b))"
  by (auto simp: TrafficPolicy_validate_def is_ok_traverse simp del: traverse.simps split: option.splits)

lemma TrafficPolicy_try_from_Inr:
  "TrafficPolicy_try_from N x = Inr p \<longleftrightarrow>
     transpose_opt (RuleSet_try_from N) (xtp_ingress x) = Inr (tp_ingress p) \<and>
     transpose_opt (RuleSet_try_from N) (xtp_egress x) = Inr (tp_egress p) \<and>
     is_ok (TrafficPolicy_validate p)"
  by (cases p)
    (auto simp: TrafficPolicy_try_from_def Let_def with_context_def is_ok_iff split: sum.splits)

text \<open>
  Admission of a policy: conversion accepts exactly the messages whose rules all satisfy the
  conditions written in the protocol definition: a known action, a match present, addresses of 4
  or 16 bytes with a prefix length the address family has, known protocols, ports between 1 and
  65535, ranges not reversed, and no ports on ICMP. One bad rule rejects the whole policy.
\<close>

theorem TrafficPolicy_try_from_accepts_iff:
  "is_ok (TrafficPolicy_try_from N x) \<longleftrightarrow>
     list_all (xds_rule_valid N) (wire_rules (xtp_ingress x) @ wire_rules (xtp_egress x))"
proof -
  have "is_ok (TrafficPolicy_try_from N x) \<longleftrightarrow> (\<exists>i e.
      (transpose_opt (RuleSet_try_from N) (xtp_ingress x) = Inr i \<and>
       (case i of None \<Rightarrow> True | Some b \<Rightarrow> is_ok (validate_rules ''ingress'' b))) \<and>
      (transpose_opt (RuleSet_try_from N) (xtp_egress x) = Inr e \<and>
       (case e of None \<Rightarrow> True | Some b \<Rightarrow> is_ok (validate_rules ''egress'' b))))"
    unfolding is_ok_iff [of "TrafficPolicy_try_from N x"] TrafficPolicy_try_from_Inr
      TrafficPolicy_validate_ok
    using ex_TrafficPolicy [of "\<lambda>i e. transpose_opt (RuleSet_try_from N) (xtp_ingress x) = Inr i \<and>
      transpose_opt (RuleSet_try_from N) (xtp_egress x) = Inr e \<and>
      (case i of None \<Rightarrow> True | Some b \<Rightarrow> is_ok (validate_rules ''ingress'' b)) \<and>
      (case e of None \<Rightarrow> True | Some b \<Rightarrow> is_ok (validate_rules ''egress'' b))"]
    by (simp only: conj_ac)
  then show ?thesis
    using ruleset_option_accept [of N "xtp_ingress x" "''ingress''"]
      ruleset_option_accept [of N "xtp_egress x" "''egress''"] by auto
qed

interpretation policy_resources: resource_store policy_get "policy_admit N" "policy_update N"
  "\<lambda>s k. fst (policy_remove s k)" "\<lambda>s. hm_wf (ps_resources s)"
proof unfold_locales
  fix s :: TrafficPolicyStore and k v and m :: XdsTrafficPolicy
  assume inv: "hm_wf (ps_resources s)"
  show "\<exists>s'. policy_update N s k m = Inr (s', policy_get s k \<noteq> Some v) \<and>
      policy_get s' = (policy_get s)(k \<mapsto> v) \<and> hm_wf (ps_resources s')"
    if "policy_admit N k m = Inr v"
    using that inv
    by (auto simp: policy_admit_def policy_update_def policy_insert_def policy_get_def fun_eq_iff
        hm.wf_ins split: sum.splits if_splits)
qed (auto simp: policy_admit_def policy_update_def policy_insert_def policy_get_def policy_remove_def
    fun_eq_iff hm.wf_del split: sum.splits if_splits)

text \<open>
  C5. The policy store implements the abstract map of last accepted policies: after any sequence of
  deliveries and withdrawals, starting empty, looking a name up gives the policy of the last accepted
  message for it since its last withdrawal. Rejected messages change nothing.
\<close>

theorem policy_store_refines:
  "policy_get (fold (store_step (policy_update N) (\<lambda>s k. fst (policy_remove s k))) evs policy_store_default) =
     fold (spec_step (policy_admit N)) evs Map.empty"
proof -
  have "policy_get policy_store_default = Map.empty"
    by (simp add: policy_store_default_def policy_get_def fun_eq_iff)
  then show ?thesis
    using policy_resources.run_refines [of policy_store_default N evs]
    by (simp add: policy_store_default_def)
qed

lemma PortMatch_try_from_matches:
  assumes "PortMatch_try_from x = Inr pm"
  shows "port_matches_tcp conn pm \<longleftrightarrow> xds_port_matches (sock_port (conn_dst conn)) x"
proof -
  have le: "(d :: u16) \<le> ucast y \<longleftrightarrow> unat d \<le> unat (y :: u32)"
    and ge: "ucast y \<le> (d :: u16) \<longleftrightarrow> unat (y :: u32) \<le> unat d" if "unat y < 65536" for d y
    unfolding word_le_nat_alt unat_ucast_u16 [OF that] by simp_all
  have eq: "ucast y = (d :: u16) \<Longrightarrow> unat d = unat (y :: u32)" if "unat y < 65536" for d y
    using unat_ucast_u16 [OF that] by auto
  have one: "(1 :: u16) \<le> d \<longleftrightarrow> 1 \<le> unat d" for d
    by (simp add: word_le_nat_alt)
  show ?thesis
    using assms
    by (auto simp: PortMatch_try_from_Inr port_matches_tcp_def xds_port_matches_def wire_range_def
        range_contains_def fits_u16_def le ge one Protocol_from_i32_cases eq split: option.splits)
qed

lemma parse_address_matches:
  "trunc_sound N \<Longrightarrow> parse_address N a = Inr net \<Longrightarrow> net_contains N net ip = xds_address_matches N ip a"
  by (auto simp: parse_address_def xds_address_matches_def trunc_sound_def
      split: sum.splits byte_ip_error.splits option.splits if_splits)

lemma traverse_any:
  "traverse f xs = Inr ys \<Longrightarrow> (\<And>x y. f x = Inr y \<Longrightarrow> P y = Q x) \<Longrightarrow>
     (ys = [] \<or> (\<exists>y \<in> set ys. P y)) = (xs = [] \<or> list_ex Q xs)"
proof -
  assume *: "traverse f xs = Inr ys" "\<And>x y. f x = Inr y \<Longrightarrow> P y = Q x"
  then have "(\<exists>y \<in> set ys. P y) = list_ex Q xs"
    by (induction xs arbitrary: ys) (auto split: sum.splits)
  moreover have "ys = [] \<longleftrightarrow> xs = []"
    using *(1) by (cases xs) (auto split: sum.splits)
  ultimately show ?thesis by simp
qed

lemma Rule_try_from_matches:
  assumes "trunc_sound N" "Rule_try_from N x = Inr r"
  shows "matches_tcp N conn r = xds_rule_matches N conn x \<and> rule_action r = xds_rule_action x"
proof -
  from assms(2) obtain a m ss ds ps where
      x: "Action_from_i32 (xr_action x) = Some a" "xr_match x = Some m"
    and r: "r = \<lparr>rule_action = a, rule_source_ips = ss, rule_destination_ips = ds, rule_ports = ps\<rparr>"
    and s: "traverse (parse_address N) (xm_source_ips m) = Inr ss"
    and d: "traverse (parse_address N) (xm_destination_ips m) = Inr ds"
    and p: "traverse PortMatch_try_from (xm_ports m) = Inr ps"
    by (auto simp: Rule_try_from_def split: option.splits sum.splits)
  have "rule_action r = xds_rule_action x"
    using x(1) by (auto simp: r xds_rule_action_def Action_from_i32_cases)
  moreover have "matches_tcp N conn r = xds_rule_matches N conn x"
    unfolding matches_tcp_def xds_rule_matches_def x(2) r Rule.select_convs option.case
    using traverse_any [OF s parse_address_matches [OF assms(1)]]
      traverse_any [OF d parse_address_matches [OF assms(1)]]
      traverse_any [OF p PortMatch_try_from_matches] by simp
  ultimately show ?thesis by simp
qed

lemma traverse_first_verdict:
  "traverse f xs = Inr ys \<Longrightarrow> (\<And>x y. f x = Inr y \<Longrightarrow> mt y = mt' x \<and> act y = act' x) \<Longrightarrow>
     first_verdict mt act ys = first_verdict mt' act' xs"
  by (induction xs arbitrary: ys) (auto split: sum.splits)

lemma TrafficPolicy_try_from_rules:
  assumes "TrafficPolicy_try_from N x = Inr p"
  shows "(rules_for p d = None \<longleftrightarrow> wire_direction x d = None) \<and>
    (\<forall>rs. rules_for p d = Some rs \<longrightarrow>
       traverse (Rule_try_from N) (wire_rules (wire_direction x d)) = Inr (rs_rules rs))"
  using assms unfolding TrafficPolicy_try_from_Inr
  by (cases d; cases "tp_ingress p"; cases "tp_egress p")
    (auto simp: rules_for_def wire_direction_def wire_rules_def transpose_opt_def
      RuleSet_try_from_Inr split: option.splits sum.splits)

text \<open>
  C3. Meaning is kept by conversion: an accepted policy configures the same directions as its
  message, and in each of them a TCP connection gets the verdict of the first wire rule that matches
  it, read on the raw bytes, prefix lengths and 32-bit ports of the message.
\<close>

theorem TrafficPolicy_try_from_meaning:
  assumes "trunc_sound N" "TrafficPolicy_try_from N x = Ok p"
  shows "map_option (\<lambda>rs. map_option snd (match_tcp N rs conn)) (rules_for p d) =
    map_option (\<lambda>rs. first_verdict (xds_rule_matches N conn) xds_rule_action (xrs_rules rs))
      (wire_direction x d)"
proof (cases "rules_for p d")
  case None
  then show ?thesis using TrafficPolicy_try_from_rules [OF assms(2), of d] by simp
next
  case (Some rs)
  with TrafficPolicy_try_from_rules [OF assms(2), of d] obtain xrs where
      xrs: "wire_direction x d = Some xrs"
    and tr: "traverse (Rule_try_from N) (xrs_rules xrs) = Inr (rs_rules rs)"
    by (auto simp: wire_rules_def)
  show ?thesis
    using traverse_first_verdict [OF tr Rule_try_from_matches [OF assms(1)]]
    by (simp add: Some xrs match_tcp_verdict)
qed

lemma drop_push_drop: "drop_bit k (push_bit k (drop_bit k x)) = drop_bit k (x :: 'w::len word)"
  by (rule bit_word_eqI) (auto simp: bit_simps dest: bit_imp_le_length)

lemma trunc_sound_cidr: "trunc_sound cidr_ops"
  by (auto simp: trunc_sound_def cidr_ops_def cidr_contains_def cidr_trunc_def drop_push_drop
      split: IpAddr.splits)

lemma example_policy_converts: "TrafficPolicy_try_from cidr_ops example_wire_policy = Ok example_policy"
  by (simp add: TrafficPolicy_try_from_def example_wire_policy_def example_policy_def transpose_opt_def
      RuleSet_try_from_def Rule_try_from_def parse_address_def PortMatch_try_from_def u16_try_from_def
      byte_to_ip_def be_word_def cidr_ops_def cidr_new_def cidr_trunc_def Action_from_i32_def
      Protocol_from_i32_def with_context_def TrafficPolicy_validate_def validate_rules_def
      PortMatch_validate_def)

theorem TrafficPolicy_try_from_meaning_witness:
  "trunc_sound cidr_ops \<and> TrafficPolicy_try_from cidr_ops example_wire_policy = Ok example_policy \<and>
   map_option (\<lambda>rs. map_option snd (match_tcp cidr_ops rs (example_connection 0x0A0909FF 100)))
     (rules_for example_policy Inbound) = Some (Some Allow)"
  unfolding TrafficPolicy_try_from_meaning [OF trunc_sound_cidr example_policy_converts]
  by (intro conjI trunc_sound_cidr example_policy_converts)
    (simp add: example_wire_policy_def example_connection_def wire_direction_def xds_rule_matches_def
      xds_address_matches_def xds_port_matches_def byte_to_ip_def be_word_def cidr_ops_def cidr_new_def
      cidr_contains_def socket_addr_def xds_rule_action_def)

end
