(* ===== verification/Firewall.thy ===== *)
theory Firewall
  imports Rbac
begin

text \<open>
  The firewall rule model of \<^verbatim>\<open>src/firewall/types.rs\<close> and the translation of traffic policies into
  it, \<open>firewall_rulesets\<close> of \<^verbatim>\<open>src/rbac.rs\<close>. The two backends that print the rules are in \<open>Nft\<close> and
  \<open>Ipt\<close>. TCP is decided by the proxy (\<open>Rbac\<close>); the statements here are about all other packets.
\<close>

section \<open>Firewall rules\<close>

datatype RuleAction = FwAllow | FwDeny

datatype FwDirection = FwInbound | FwOutbound

datatype FirewallProtocol = NonTcp | FwUdp | FwSctp | FwIcmp

record PortGroup =
  pg_protocol :: FirewallProtocol
  pg_ports :: "port_range list"

record FirewallMatch =
  fm_source_ips :: "IpNet list"
  fm_dest_ips :: "IpNet list"
  fm_port_groups :: "PortGroup list"

record FirewallRule =
  fr_name :: strng
  fr_action :: RuleAction
  fr_direction :: FwDirection
  fr_priority :: int
  fr_clauses :: "FirewallMatch list list"

record FwRuleSet =
  fs_inline_rules :: "FirewallRule list"
  fs_rules :: "FirewallRule list"
  fs_policy_attached :: bool

section \<open>From policies to firewall rules\<close>

definition firewall_protocol :: "Protocol \<Rightarrow> FirewallProtocol option" where
  "firewall_protocol p =
     (case p of
        ProtoAll \<Rightarrow> Some NonTcp
      | ProtoUdp \<Rightarrow> Some FwUdp
      | ProtoIcmp \<Rightarrow> Some FwIcmp
      | ProtoSctp \<Rightarrow> Some FwSctp
      | ProtoTcp \<Rightarrow> None)"

definition firewall_port_groups :: "PortMatch list \<Rightarrow> PortGroup list" where
  "firewall_port_groups ports =
     List.map_filter
       (\<lambda>port. map_option
          (\<lambda>protocol. \<lparr>pg_protocol = protocol,
             pg_ports = (case pm_range port of None \<Rightarrow> [] | Some r \<Rightarrow> [r])\<rparr>)
          (firewall_protocol (pm_protocol port)))
       ports"

definition firewall_action :: "Action \<Rightarrow> RuleAction" where
  "firewall_action a = (case a of Allow \<Rightarrow> FwAllow | Deny \<Rightarrow> FwDeny)"

text \<open>One rule of a policy body; \<open>None\<close> when the rule speaks of TCP only.\<close>

definition firewall_rule :: "FwDirection \<Rightarrow> strng \<Rightarrow> nat \<Rightarrow> nat \<Rightarrow> Rule \<Rightarrow> FirewallRule option" where
  "firewall_rule direction name offset index rule =
     (let port_groups = firewall_port_groups (rule_ports rule) in
      if rule_ports rule \<noteq> [] \<and> port_groups = [] then None
      else Some \<lparr>fr_name = name @ ''/rule-'' @ show_nat index,
             fr_action = firewall_action (rule_action rule),
             fr_direction = direction,
             fr_priority = as_i32 (offset + index),
             fr_clauses = [[\<lparr>fm_source_ips = rule_source_ips rule, fm_dest_ips = rule_destination_ips rule,
                             fm_port_groups = port_groups\<rparr>]]\<rparr>)"

definition policy_body :: "FwDirection \<Rightarrow> TrafficPolicy \<Rightarrow> RuleSet option" where
  "policy_body direction policy =
     (case direction of FwInbound \<Rightarrow> tp_ingress policy | FwOutbound \<Rightarrow> tp_egress policy)"

text \<open>The loop over the policies: the rules pushed, and the final value of \<open>configured\<close>.\<close>

fun firewall_loop :: "FwDirection \<Rightarrow> bool \<Rightarrow> nat \<Rightarrow> policies \<Rightarrow> FirewallRule list \<times> bool" where
  "firewall_loop direction configured offset [] = ([], configured)"
| "firewall_loop direction configured offset ((name, policy) # ps) =
     (case Option.bind policy (policy_body direction) of
        None \<Rightarrow> firewall_loop direction configured offset ps
      | Some body \<Rightarrow>
          (let (rest, c) = firewall_loop direction True (offset + length (rs_rules body)) ps in
           (List.map_filter (\<lambda>(index, rule). firewall_rule direction name offset index rule)
              (enumerate 0 (rs_rules body)) @ rest, c)))"

definition default_deny :: "FwDirection \<Rightarrow> strng \<Rightarrow> FirewallRule" where
  "default_deny direction name =
     \<lparr>fr_name = name, fr_action = FwDeny, fr_direction = direction, fr_priority = i32_max,
      fr_clauses = [[\<lparr>fm_source_ips = [], fm_dest_ips = [],
                      fm_port_groups = [\<lparr>pg_protocol = NonTcp, pg_ports = []\<rparr>]\<rparr>]]\<rparr>"

definition firewall_direction_rules :: "policies \<Rightarrow> FwDirection \<Rightarrow> FirewallRule list" where
  "firewall_direction_rules ps direction =
     (let missing = map_option fst (find (\<lambda>(_, policy). policy = None) ps);
          deny_name = (case missing of None \<Rightarrow> ''DEFAULT-DENY'' | Some name \<Rightarrow> name @ ''/policy-unavailable'');
          (rules, configured) =
            firewall_loop direction (missing \<noteq> None) 0 (filter (\<lambda>_. missing = None) ps)
      in if configured then rules @ [default_deny direction deny_name] else rules)"

definition firewall_rulesets :: "policies \<Rightarrow> FwRuleSet" where
  "firewall_rulesets ps =
     \<lparr>fs_inline_rules = [],
      fs_rules = concat (map (firewall_direction_rules ps) [FwInbound, FwOutbound]),
      fs_policy_attached = False\<rparr>"

text \<open>The rule set \<open>resolve_workload_firewall\<close> builds from the workload policies and the inline policy.\<close>

definition workload_ruleset :: "policies \<Rightarrow> TrafficPolicy option \<Rightarrow> FwRuleSet" where
  "workload_ruleset ps inline =
     (let rules = firewall_rulesets ps in
      case inline of
        None \<Rightarrow> rules
      | Some policy \<Rightarrow> rules\<lparr>fs_inline_rules := fs_rules (firewall_rulesets [(''inline'', Some policy)])\<rparr>)"

text \<open>The inline policy as a stage of its own.\<close>

definition inline_stage :: "TrafficPolicy option \<Rightarrow> policies" where
  "inline_stage inline = (case inline of None \<Rightarrow> [] | Some policy \<Rightarrow> [(''inline'', Some policy)])"

section \<open>Expansion of clauses, as both backends do it\<close>

text \<open>
  \<open>flatten_clauses\<close> of either backend starts from one unconstrained combination and merges every
  match of every clause into every combination so far. The merge differs: nftables keeps lists of
  networks for its sets, iptables expands them. It is the argument here.
\<close>

definition is_no_port_restriction :: "FirewallMatch \<Rightarrow> bool" where
  "is_no_port_restriction m =
     (fm_port_groups m = [] \<or>
      (length (fm_port_groups m) = 1 \<and> pg_protocol (fm_port_groups m ! 0) = NonTcp \<and>
       pg_ports (fm_port_groups m ! 0) = []))"

definition expand_clauses :: "('f \<Rightarrow> FirewallMatch \<Rightarrow> 'f list) \<Rightarrow> 'f \<Rightarrow> FirewallMatch list list \<Rightarrow> 'f list" where
  "expand_clauses merge start clauses =
     foldl (\<lambda>combinations clause.
              concat (map (\<lambda>existing. concat (map (merge existing) clause)) combinations))
       [start] clauses"

section \<open>What the rules mean\<close>

text \<open>
  Packets, and the meaning the comments of \<^verbatim>\<open>types.rs\<close> give to a firewall rule: clauses are
  conjoined, the matches of a clause disjoined, an empty field matches anything. A policy rule is
  read on packets as \<^verbatim>\<open>trafficpolicy.proto\<close> says: \<open>ALL\<close> with a port constraint only matches
  protocols that have destination ports.
\<close>

datatype L4 = L4Tcp | L4Udp | L4Sctp | L4Icmp | L4Icmp6 | L4Other nat

record Packet =
  pk_proto :: L4
  pk_src :: IpAddr
  pk_dst :: IpAddr
  pk_dport :: u16

definition has_ports :: "L4 \<Rightarrow> bool" where
  "has_ports l = (l = L4Tcp \<or> l = L4Udp \<or> l = L4Sctp)"

definition icmp_of :: "IpAddr \<Rightarrow> L4" where
  "icmp_of a = (if is_ipv4 a then L4Icmp else L4Icmp6)"

text \<open>Both addresses are of one family, and each ICMP goes with its own.\<close>

definition packet_wf :: "Packet \<Rightarrow> bool" where
  "packet_wf p =
     (is_ipv4 (pk_src p) = is_ipv4 (pk_dst p) \<and>
      (pk_proto p = L4Icmp \<longrightarrow> is_ipv4 (pk_dst p)) \<and> (pk_proto p = L4Icmp6 \<longrightarrow> \<not> is_ipv4 (pk_dst p)))"

definition ranges_match :: "port_range list \<Rightarrow> u16 \<Rightarrow> bool" where
  "ranges_match rs p = list_ex (\<lambda>r. range_contains r p) rs"

definition protocol_matches :: "Packet \<Rightarrow> Protocol \<Rightarrow> bool" where
  "protocol_matches p proto =
     (case proto of
        ProtoAll \<Rightarrow> True
      | ProtoTcp \<Rightarrow> pk_proto p = L4Tcp
      | ProtoUdp \<Rightarrow> pk_proto p = L4Udp
      | ProtoIcmp \<Rightarrow> pk_proto p = icmp_of (pk_dst p)
      | ProtoSctp \<Rightarrow> pk_proto p = L4Sctp)"

definition port_matches_packet :: "Packet \<Rightarrow> PortMatch \<Rightarrow> bool" where
  "port_matches_packet p pm =
     (protocol_matches p (pm_protocol pm) \<and>
      (case pm_range pm of None \<Rightarrow> True | Some r \<Rightarrow> has_ports (pk_proto p) \<and> range_contains r (pk_dport p)))"

definition nets_match :: "ipnet_ops \<Rightarrow> IpNet list \<Rightarrow> IpAddr \<Rightarrow> bool" where
  "nets_match N ns a = (ns = [] \<or> list_ex (\<lambda>n. net_contains N n a) ns)"

definition rule_matches_packet :: "ipnet_ops \<Rightarrow> Packet \<Rightarrow> Rule \<Rightarrow> bool" where
  "rule_matches_packet N p r =
     (nets_match N (rule_source_ips r) (pk_src p) \<and> nets_match N (rule_destination_ips r) (pk_dst p) \<and>
      (rule_ports r = [] \<or> list_ex (port_matches_packet p) (rule_ports r)))"

definition group_matches :: "Packet \<Rightarrow> PortGroup \<Rightarrow> bool" where
  "group_matches p g =
     (case pg_protocol g of
        NonTcp \<Rightarrow>
          (if pg_ports g = [] then pk_proto p \<noteq> L4Tcp
           else (pk_proto p = L4Udp \<or> pk_proto p = L4Sctp) \<and> ranges_match (pg_ports g) (pk_dport p))
      | FwUdp \<Rightarrow> pk_proto p = L4Udp \<and> (pg_ports g = [] \<or> ranges_match (pg_ports g) (pk_dport p))
      | FwSctp \<Rightarrow> pk_proto p = L4Sctp \<and> (pg_ports g = [] \<or> ranges_match (pg_ports g) (pk_dport p))
      | FwIcmp \<Rightarrow> pk_proto p = icmp_of (pk_dst p))"

definition groups_match :: "Packet \<Rightarrow> PortGroup list \<Rightarrow> bool" where
  "groups_match p gs = (if gs = [] then pk_proto p \<noteq> L4Tcp else list_ex (group_matches p) gs)"

definition fm_matches :: "ipnet_ops \<Rightarrow> Packet \<Rightarrow> FirewallMatch \<Rightarrow> bool" where
  "fm_matches N p m =
     (nets_match N (fm_source_ips m) (pk_src p) \<and> nets_match N (fm_dest_ips m) (pk_dst p) \<and>
      groups_match p (fm_port_groups m))"

definition fr_matches :: "ipnet_ops \<Rightarrow> Packet \<Rightarrow> FirewallRule \<Rightarrow> bool" where
  "fr_matches N p r = list_all (list_ex (fm_matches N p)) (fr_clauses r)"

text \<open>What else of a packet the fixed rules of the chains test.\<close>

record PacketCtx =
  cx_packet :: Packet
  cx_established :: bool
  cx_loopback :: bool
  cx_mark :: u32
  cx_uid :: nat
  cx_gid :: nat
  cx_orig_dport :: u16

text \<open>
  The invariant the backends' comments state for multi-clause rules: no two clauses constrain the same
  dimension. \<open>constrains_dim\<close> gives the dimensions of a match.
\<close>

datatype dimension = DimSource | DimDest | DimPort

definition constrains_dim :: "FirewallMatch \<Rightarrow> dimension \<Rightarrow> bool" where
  "constrains_dim m d =
     (case d of
        DimSource \<Rightarrow> fm_source_ips m \<noteq> []
      | DimDest \<Rightarrow> fm_dest_ips m \<noteq> []
      | DimPort \<Rightarrow> \<not> is_no_port_restriction m)"

definition independent :: "FirewallMatch \<Rightarrow> FirewallMatch \<Rightarrow> bool" where
  "independent m m' = list_all (\<lambda>d. \<not> (constrains_dim m d \<and> constrains_dim m' d)) [DimSource, DimDest, DimPort]"

fun clauses_independent :: "FirewallMatch list list \<Rightarrow> bool" where
  "clauses_independent [] = True"
| "clauses_independent (c # cs) =
     (list_all (\<lambda>m. list_all (list_all (independent m)) cs) c \<and> clauses_independent cs)"

text \<open>The order a backend evaluates the rules of a direction in: a stable sort by priority.\<close>

definition direction_chain :: "FwDirection \<Rightarrow> FirewallRule list \<Rightarrow> FirewallRule list" where
  "direction_chain d rs = sort_key fr_priority (filter (\<lambda>r. fr_direction r = d) rs)"

text \<open>
  The verdict of a complete rule set on a packet: the inline gate first, where an allow goes on to
  the workload rules, then these, then the trailing reject when \<open>policy_attached\<close> is set.
\<close>

definition ruleset_accepts :: "ipnet_ops \<Rightarrow> FwDirection \<Rightarrow> FwRuleSet \<Rightarrow> Packet \<Rightarrow> bool" where
  "ruleset_accepts N d rs p =
     (first_verdict (fr_matches N p) fr_action (direction_chain d (fs_inline_rules rs)) \<noteq> Some FwDeny \<and>
      (case first_verdict (fr_matches N p) fr_action (direction_chain d (fs_rules rs)) of
         Some a \<Rightarrow> a = FwAllow
       | None \<Rightarrow> \<not> fs_policy_attached rs))"

definition fw_direction :: "Direction \<Rightarrow> FwDirection" where
  "fw_direction d = (case d of Inbound \<Rightarrow> FwInbound | Outbound \<Rightarrow> FwOutbound)"

text \<open>
  The stage verdict on a packet, by the policies: the same reading as for TCP connections
  (\<open>assert_policies\<close>), with \<open>None\<close> when no policy configures the direction.
\<close>

definition stage_verdict :: "ipnet_ops \<Rightarrow> Direction \<Rightarrow> policies \<Rightarrow> Packet \<Rightarrow> RuleAction option" where
  "stage_verdict N d ps p =
     (if None \<in> snd ` set ps then Some FwDeny
      else if stage_bodies d ps = [] then None
      else (case first_verdict (rule_matches_packet N p) rule_action (stage_rules d ps) of
              Some Allow \<Rightarrow> Some FwAllow
            | _ \<Rightarrow> Some FwDeny))"

text \<open>What validation guarantees and the translation needs: no port constraint on ICMP.\<close>

definition icmp_portless :: "Rule \<Rightarrow> bool" where
  "icmp_portless r = list_all (\<lambda>pm. pm_protocol pm \<noteq> ProtoIcmp \<or> pm_range pm = None) (rule_ports r)"

definition stage_validated :: "policies \<Rightarrow> bool" where
  "stage_validated ps =
     list_all (\<lambda>(_, policy). case policy of None \<Rightarrow> True | Some q \<Rightarrow> is_ok (TrafficPolicy_validate q)) ps"

text \<open>The rules of a stage with what the translation attaches to each: name, offset, index.\<close>

fun stage_tagged :: "Direction \<Rightarrow> nat \<Rightarrow> policies \<Rightarrow> (strng \<times> nat \<times> nat \<times> Rule) list" where
  "stage_tagged d offset [] = []"
| "stage_tagged d offset ((name, policy) # ps) =
     (case Option.bind policy (\<lambda>q. rules_for q d) of
        None \<Rightarrow> stage_tagged d offset ps
      | Some body \<Rightarrow>
          map (\<lambda>(i, r). (name, offset, i, r)) (enumerate 0 (rs_rules body)) @
          stage_tagged d (offset + length (rs_rules body)) ps)"

definition expand_tagged :: "FwDirection \<Rightarrow> strng \<times> nat \<times> nat \<times> Rule \<Rightarrow> FirewallRule list" where
  "expand_tagged fd = (\<lambda>(name, offset, i, r).
     case firewall_rule fd name offset i r of None \<Rightarrow> [] | Some f \<Rightarrow> [f])"

text \<open>A stage and a packet for evaluation: DNS from 10.0.0.0/8 is allowed, in front of a TCP-only rule.\<close>

definition example_stage :: policies where
  "example_stage =
     [(''ns/tcp'', Some example_policy),
      (''ns/dns'', Some \<lparr>tp_ingress = Some \<lparr>rs_rules =
          [\<lparr>rule_action = Allow, rule_source_ips = [IpNet (V4 0x0A000000) 8], rule_destination_ips = [],
            rule_ports = [\<lparr>pm_protocol = ProtoAll, pm_range = Some (53, 53)\<rparr>]\<rparr>]\<rparr>,
        tp_egress = None\<rparr>)]"

definition example_packet :: "u32 \<Rightarrow> u16 \<Rightarrow> Packet" where
  "example_packet src port =
     \<lparr>pk_proto = L4Udp, pk_src = V4 src, pk_dst = V4 0x0A000001, pk_dport = port\<rparr>"

text \<open>The rule set of the golden test \<open>inpod_mixed_rules\<close> of both backends.\<close>

definition example_ruleset :: FwRuleSet where
  "example_ruleset =
     \<lparr>fs_inline_rules = [],
      fs_rules =
        [\<lparr>fr_name = ''deny-dns-in'', fr_action = FwDeny, fr_direction = FwInbound, fr_priority = 0,
          fr_clauses = [[\<lparr>fm_source_ips = [IpNet (V4 0x0A000000) 8], fm_dest_ips = [],
            fm_port_groups = [\<lparr>pg_protocol = NonTcp, pg_ports = [(53, 53)]\<rparr>]\<rparr>]]\<rparr>,
         \<lparr>fr_name = ''allow-dns-out'', fr_action = FwAllow, fr_direction = FwOutbound, fr_priority = 0,
          fr_clauses = [[\<lparr>fm_source_ips = [], fm_dest_ips = [IpNet (V4 0x08080800) 24],
            fm_port_groups = [\<lparr>pg_protocol = NonTcp, pg_ports = [(53, 53)]\<rparr>]\<rparr>]]\<rparr>],
      fs_policy_attached = True\<rparr>"

definition example_ctx :: "Packet \<Rightarrow> PacketCtx" where
  "example_ctx p = \<lparr>cx_packet = p, cx_established = False, cx_loopback = False, cx_mark = 0,
     cx_uid = 1000, cx_gid = 1000, cx_orig_dport = pk_dport p\<rparr>"

section \<open>Lemmas\<close>

lemma policy_body_rules_for: "policy_body (fw_direction d) = (\<lambda>q. rules_for q d)"
  by (cases d) (auto simp: policy_body_def fw_direction_def rules_for_def)

lemma map_filter_concat: "List.map_filter f xs = concat (map (\<lambda>x. case f x of None \<Rightarrow> [] | Some y \<Rightarrow> [y]) xs)"
  by (induction xs) (auto simp: map_filter_simps split: option.splits)

lemma firewall_loop_tagged:
  "firewall_loop (fw_direction d) c offset ps =
     (concat (map (expand_tagged (fw_direction d)) (stage_tagged d offset ps)),
      c \<or> stage_bodies d ps \<noteq> [])"
proof (induction ps arbitrary: c offset)
  case (Cons np ps)
  show ?case
    by (cases np; cases "Option.bind (snd np) (\<lambda>q. rules_for q d)")
      (auto simp: Cons.IH policy_body_rules_for map_filter_concat expand_tagged_def comp_def case_prod_beta)
qed simp

lemma stage_tagged_rules: "map (\<lambda>t. snd (snd (snd t))) (stage_tagged d offset ps) = stage_rules d ps"
proof (induction d offset ps rule: stage_tagged.induct)
  case (2 d offset name policy ps)
  then show ?case
    by (auto simp: comp_def case_prod_beta split: option.splits)
qed simp

lemma port_group_matches:
  assumes "pk_proto p \<noteq> L4Tcp" "firewall_protocol (pm_protocol pm) = Some q"
    and "pm_protocol pm \<noteq> ProtoIcmp \<or> pm_range pm = None"
  shows "group_matches p \<lparr>pg_protocol = q, pg_ports = (case pm_range pm of None \<Rightarrow> [] | Some r \<Rightarrow> [r])\<rparr> =
    port_matches_packet p pm"
  using assms
  by (auto simp: group_matches_def port_matches_packet_def protocol_matches_def firewall_protocol_def
      has_ports_def ranges_match_def icmp_of_def split: Protocol.splits option.splits)

lemma tcp_port_no_packet:
  "pk_proto p \<noteq> L4Tcp \<Longrightarrow> firewall_protocol (pm_protocol pm) = None \<Longrightarrow> \<not> port_matches_packet p pm"
  by (auto simp: port_matches_packet_def protocol_matches_def firewall_protocol_def split: Protocol.splits)

lemma firewall_port_groups_match:
  assumes "pk_proto p \<noteq> L4Tcp" "list_all (\<lambda>pm. pm_protocol pm \<noteq> ProtoIcmp \<or> pm_range pm = None) pms"
  shows "list_ex (group_matches p) (firewall_port_groups pms) = list_ex (port_matches_packet p) pms"
  using assms(2)
proof (induction pms)
  case (Cons pm pms)
  then show ?case
    using port_group_matches [OF assms(1), of pm] tcp_port_no_packet [OF assms(1), of pm]
    by (cases "firewall_protocol (pm_protocol pm)")
      (auto simp: firewall_port_groups_def map_filter_simps)
qed (simp add: firewall_port_groups_def map_filter_simps)

interpretation policy_to_firewall: rule_expansion
  "\<lambda>(N, p) t. rule_matches_packet N p (snd (snd (snd t)))"
  "\<lambda>t. firewall_action (rule_action (snd (snd (snd t))))"
  "\<lambda>(N, p). fr_matches N p" fr_action "expand_tagged fd"
  "\<lambda>(N, p) t. pk_proto p \<noteq> L4Tcp \<and> icmp_portless (snd (snd (snd t)))"
proof unfold_locales
  fix q :: "ipnet_ops \<times> Packet" and t :: "strng \<times> nat \<times> nat \<times> Rule"
  obtain N p where q: "q = (N, p)" by (cases q)
  obtain name off i r where t: "t = (name, off, i, r)" by (cases t)
  assume "(case q of (N, p) \<Rightarrow> \<lambda>t. pk_proto p \<noteq> L4Tcp \<and> icmp_portless (snd (snd (snd t)))) t"
  then have nt: "pk_proto p \<noteq> L4Tcp" and ok: "icmp_portless r" by (simp_all add: q t)
  note groups = firewall_port_groups_match [OF nt ok [unfolded icmp_portless_def]]
  have empty: "\<not> list_ex (port_matches_packet p) (rule_ports r)" if "firewall_port_groups (rule_ports r) = []"
    using groups that by simp
  have none: "firewall_port_groups [] = []"
    by (simp add: firewall_port_groups_def map_filter_simps)
  show "(\<exists>l \<in> set (expand_tagged fd t). (case q of (N, p) \<Rightarrow> fr_matches N p) l) =
      (case q of (N, p) \<Rightarrow> \<lambda>t. rule_matches_packet N p (snd (snd (snd t)))) t"
    using groups empty nt none
    by (auto simp: q t expand_tagged_def firewall_rule_def Let_def fr_matches_def fm_matches_def
        groups_match_def rule_matches_packet_def)
next
  fix l and t :: "strng \<times> nat \<times> nat \<times> Rule"
  assume "l \<in> set (expand_tagged fd t)"
  then show "fr_action l = firewall_action (rule_action (snd (snd (snd t))))"
    by (cases t) (auto simp: expand_tagged_def firewall_rule_def Let_def split: if_splits)
qed

lemma validate_icmp:
  "is_ok (PortMatch_validate pm) \<Longrightarrow> pm_protocol pm \<noteq> ProtoIcmp \<or> pm_range pm = None"
  by (auto simp: PortMatch_validate_def split: option.splits if_splits)

lemma validated_rules:
  assumes "is_ok (TrafficPolicy_validate q)" "rules_for q d = Some body" "r \<in> set (rs_rules body)"
  shows "icmp_portless r"
  using assms validate_icmp
  by (cases d) (auto simp: TrafficPolicy_validate_ok rules_for_def validate_rules_ok icmp_portless_def
      list_all_iff)

lemma stage_validated_rules: "stage_validated ps \<Longrightarrow> r \<in> set (stage_rules d ps) \<Longrightarrow> icmp_portless r"
  by (induction ps) (auto simp: stage_validated_def Option.bind_eq_Some_conv validated_rules split: option.splits)

lemma firewall_direction_rules_tagged:
  "firewall_direction_rules ps (fw_direction d) =
     (if None \<in> snd ` set ps
      then [default_deny (fw_direction d)
              (fst (the (find (\<lambda>(_, policy). policy = None) ps)) @ ''/policy-unavailable'')]
      else if stage_bodies d ps = [] then []
      else concat (map (expand_tagged (fw_direction d)) (stage_tagged d 0 ps)) @
           [default_deny (fw_direction d) ''DEFAULT-DENY''])"
proof (cases "find (\<lambda>(_, policy). policy = None) ps")
  case None
  moreover have "stage_tagged d 0 ps = []" if "stage_bodies d ps = []"
    using stage_tagged_rules [of d 0 ps] that by (simp add: stage_rules_def)
  ultimately show ?thesis
    using find_missing_None [of ps]
    by (auto simp: firewall_direction_rules_def firewall_loop_tagged Let_def)
next
  case (Some np)
  then show ?thesis
    using find_missing_None [of ps] by (auto simp: firewall_direction_rules_def Let_def)
qed

lemma firewall_direction_rules_direction:
  "r \<in> set (firewall_direction_rules ps (fw_direction d)) \<Longrightarrow> fr_direction r = fw_direction d"
  by (auto simp: firewall_direction_rules_tagged default_deny_def expand_tagged_def firewall_rule_def Let_def
      split: if_splits)

lemma direction_chain_rulesets:
  "filter (\<lambda>r. fr_direction r = fw_direction d) (fs_rules (firewall_rulesets ps)) =
     firewall_direction_rules ps (fw_direction d)"
proof -
  have "filter (\<lambda>r. fr_direction r = fw_direction d) (firewall_direction_rules ps (fw_direction d')) =
      (if d = d' then firewall_direction_rules ps (fw_direction d) else [])" for d'
    using firewall_direction_rules_direction [of _ ps d']
    by (cases d; cases d') (auto simp: filter_empty_conv filter_id_conv fw_direction_def)
  from this [of Inbound] this [of Outbound] show ?thesis
    by (cases d) (simp_all add: firewall_rulesets_def fw_direction_def)
qed

lemma stage_tagged_positions:
  "map (\<lambda>(_, off, i, _). off + i) (stage_tagged d offset ps) =
     [offset ..< offset + length (stage_rules d ps)]"
proof (induction d offset ps rule: stage_tagged.induct)
  case (2 d offset name policy ps)
  have shift: "map ((+) offset) [0 ..< n] = [offset ..< offset + n]" for n
    by (induction n) simp_all
  have "map (\<lambda>x. offset + fst x) (enumerate 0 rs) = [offset ..< offset + length rs]" for rs :: "Rule list"
    using shift [of "length rs"] map_fst_enumerate [of 0 rs]
    by (metis (no_types, lifting) add_0 comp_def map_eq_conv map_map)
  then have head: "map (\<lambda>t. fst (snd t) + fst (snd (snd t)))
      (map (\<lambda>(i, r). (name, offset, i, r)) (enumerate 0 rs)) = [offset ..< offset + length rs]"
    for rs :: "Rule list"
    by (simp add: comp_def case_prod_beta)
  show ?case
  proof (cases "Option.bind policy (\<lambda>q. rules_for q d)")
    case (Some body)
    then show ?thesis
      using 2(2) [OF Some] Some head [of "rs_rules body"] upt_add_eq_append [of offset "offset + length (rs_rules body)"
          "length (stage_rules d ps)"]
      by (simp add: case_prod_beta add.assoc)
  qed (use 2 in simp)
qed simp

lemma sorted_expand:
  assumes "sorted (map (\<lambda>(_, off, i, _). off + i) ts)"
    and "\<forall>(_, off, i, _) \<in> set ts. off + i < 2147483648"
  shows "sorted (map fr_priority (concat (map (expand_tagged fd) ts)))"
    and "\<forall>f \<in> set (concat (map (expand_tagged fd) ts)). fr_priority f \<le> i32_max"
proof -
  have prio: "fr_priority f = int (off + i)" if "f \<in> set (expand_tagged fd (n, off, i, r))" "off + i < 2147483648"
    for f n off i r
    using that
    by (auto simp: expand_tagged_def firewall_rule_def Let_def as_i32_small simp flip: of_nat_add split: if_splits)
  show "\<forall>f \<in> set (concat (map (expand_tagged fd) ts)). fr_priority f \<le> i32_max"
    using assms(2) prio by (force simp: i32_max_def)
  show "sorted (map fr_priority (concat (map (expand_tagged fd) ts)))"
    using assms
  proof (induction ts)
    case (Cons t ts)
    obtain n off i r where t: "t = (n, off, i, r)" by (cases t)
    have "\<forall>g \<in> set (concat (map (expand_tagged fd) ts)). int (off + i) \<le> fr_priority g"
      using Cons.prems prio by (force simp: t)
    moreover have "sorted (map fr_priority (expand_tagged fd t))"
      by (auto simp: t expand_tagged_def split: option.splits)
    ultimately show ?case
      using Cons prio [of _ n off i r] by (auto simp: sorted_append t)
  qed simp
qed

lemma direction_chain_sorted:
  assumes "length (stage_rules d ps) \<le> 2147483648"
  shows "direction_chain (fw_direction d) (fs_rules (firewall_rulesets ps)) =
    firewall_direction_rules ps (fw_direction d)"
proof -
  let ?ts = "stage_tagged d 0 ps"
  have pos: "map (\<lambda>(_, off, i, _). off + i) ?ts = [0 ..< length (stage_rules d ps)]"
    using stage_tagged_positions [of d 0 ps] by simp
  then have "off + i \<in> set [0 ..< length (stage_rules d ps)]" if "(n, off, i, r) \<in> set ?ts" for n off i r
    using that by (force simp flip: pos)
  with assms have "\<forall>(_, off, i, _) \<in> set ?ts. off + i < 2147483648" by fastforce
  with sorted_expand [of ?ts "fw_direction d"] pos have
    "sorted (map fr_priority (firewall_direction_rules ps (fw_direction d)))"
    by (auto simp: firewall_direction_rules_tagged sorted_append default_deny_def)
  then show ?thesis
    by (simp add: direction_chain_def direction_chain_rulesets sort_key_already_sorted)
qed

lemma first_verdict_action_map:
  "first_verdict mt (\<lambda>r. g (act r)) rs = map_option g (first_verdict mt act rs)"
  by (induction rs) auto

lemma stage_chain_verdict:
  assumes "pk_proto p \<noteq> L4Tcp" "stage_validated ps" "length (stage_rules d ps) \<le> 2147483648"
  shows "first_verdict (fr_matches N p) fr_action
      (direction_chain (fw_direction d) (fs_rules (firewall_rulesets ps))) = stage_verdict N d ps p"
proof -
  have deny: "fr_matches N p (default_deny fd n)" "fr_action (default_deny fd n) = FwDeny" for fd n
    using assms(1)
    by (simp_all add: fr_matches_def default_deny_def fm_matches_def nets_match_def groups_match_def
        group_matches_def)
  have "\<forall>t \<in> set (stage_tagged d 0 ps). icmp_portless (snd (snd (snd t)))"
    using stage_validated_rules [OF assms(2), of _ d]
    by (force simp flip: stage_tagged_rules [of d 0 ps])
  then have "first_verdict (fr_matches N p) fr_action
        (concat (map (expand_tagged (fw_direction d)) (stage_tagged d 0 ps))) =
      map_option firewall_action (first_verdict (rule_matches_packet N p) rule_action (stage_rules d ps))"
    using policy_to_firewall.first_verdict_expand [of "stage_tagged d 0 ps" "(N, p)" "fw_direction d"] assms(1)
    unfolding stage_tagged_rules [of d 0 ps, symmetric] first_verdict_map
    by (simp add: first_verdict_action_map [of _ firewall_action])
  then show ?thesis
    unfolding direction_chain_sorted [OF assms(3)] firewall_direction_rules_tagged stage_verdict_def
    by (auto simp: deny first_verdict_append firewall_action_def split: option.splits Action.splits)
qed


lemma example_stage_verdict:
  "stage_verdict cidr_ops Inbound example_stage (example_packet 0x0A090909 53) = Some FwAllow"
  by (simp add: stage_verdict_def example_stage_def example_policy_def example_packet_def rules_for_def
      rule_matches_packet_def nets_match_def port_matches_packet_def protocol_matches_def
      has_ports_def range_contains_def cidr_ops_def cidr_contains_def)

lemma example_stage_validated:
  "stage_validated example_stage" "length (stage_rules Inbound example_stage) = 2"
  by (simp_all add: stage_validated_def example_stage_def example_policy_def TrafficPolicy_validate_def
      validate_rules_def PortMatch_validate_def with_context_def rules_for_def)


section \<open>Correctness of clause expansion\<close>

text \<open>
  The contract of a merge: a combination that does not yet constrain what a match constrains is
  replaced by combinations that together match where both do, and it stays open for every
  independent match.
\<close>

locale clause_expansion =
  fixes merge :: "'f \<Rightarrow> FirewallMatch \<Rightarrow> 'f list"
    and start :: 'f
    and combo_matches :: "ipnet_ops \<Rightarrow> Packet \<Rightarrow> 'f \<Rightarrow> bool"
    and open_for :: "'f \<Rightarrow> FirewallMatch \<Rightarrow> bool"
    and inscope :: "ipnet_ops \<Rightarrow> Packet \<Rightarrow> bool"
  assumes start_matches: "inscope N p \<Longrightarrow> combo_matches N p start"
    and start_open: "open_for start m"
    and merge_matches:
      "inscope N p \<Longrightarrow> open_for e m \<Longrightarrow>
         (\<exists>f \<in> set (merge e m). combo_matches N p f) \<longleftrightarrow> combo_matches N p e \<and> fm_matches N p m"
    and merge_open:
      "f \<in> set (merge e m) \<Longrightarrow> open_for e m' \<Longrightarrow> independent m m' \<Longrightarrow> open_for f m'"
begin

lemma foldl_matches:
  assumes scope: "inscope N p"
  shows "clauses_independent cs \<Longrightarrow> (\<forall>e \<in> set es. \<forall>c \<in> set cs. \<forall>m \<in> set c. open_for e m) \<Longrightarrow>
    (\<exists>f \<in> set (foldl (\<lambda>es c. concat (map (\<lambda>e. concat (map (merge e) c)) es)) es cs). combo_matches N p f) \<longleftrightarrow>
    (\<exists>e \<in> set es. combo_matches N p e \<and> list_all (list_ex (fm_matches N p)) cs)"
proof (induction cs arbitrary: es)
  case (Cons c cs)
  let ?es = "concat (map (\<lambda>e. concat (map (merge e) c)) es)"
  have "open_for f m'" if "e \<in> set es" "m \<in> set c" "f \<in> set (merge e m)" "c' \<in> set cs" "m' \<in> set c'"
    for e m f c' m'
  proof -
    from Cons.prems(1) that have "independent m m'" by (simp add: list_all_iff)
    with Cons.prems(2) that show ?thesis by (auto intro: merge_open)
  qed
  then have "\<forall>f \<in> set ?es. \<forall>c' \<in> set cs. \<forall>m' \<in> set c'. open_for f m'"
    by auto
  with Cons have "(\<exists>f \<in> set (foldl (\<lambda>es c. concat (map (\<lambda>e. concat (map (merge e) c)) es)) ?es cs).
        combo_matches N p f) \<longleftrightarrow>
      (\<exists>f \<in> set ?es. combo_matches N p f) \<and> list_all (list_ex (fm_matches N p)) cs"
    by auto
  also have "(\<exists>f \<in> set ?es. combo_matches N p f) \<longleftrightarrow>
      (\<exists>e \<in> set es. \<exists>m \<in> set c. \<exists>f \<in> set (merge e m). combo_matches N p f)"
    by auto
  also have "\<dots> \<longleftrightarrow> (\<exists>e \<in> set es. \<exists>m \<in> set c. combo_matches N p e \<and> fm_matches N p m)"
    using Cons.prems(2) merge_matches [OF scope] by (metis list.set_intros(1))
  finally show ?case
    by (auto simp: list_ex_iff)
qed auto

lemma expand_matches_clauses:
  assumes "inscope N p" "clauses_independent cs"
  shows "(\<exists>f \<in> set (expand_clauses merge start cs). combo_matches N p f) \<longleftrightarrow>
    list_all (list_ex (fm_matches N p)) cs"
  using foldl_matches [OF assms, of "[start]"] start_open start_matches [OF assms(1)]
  by (simp add: expand_clauses_def)

end

lemma no_port_restriction_groups:
  "is_no_port_restriction m \<Longrightarrow> groups_match p (fm_port_groups m) \<longleftrightarrow> pk_proto p \<noteq> L4Tcp"
  by (cases "fm_port_groups m") (auto simp: is_no_port_restriction_def groups_match_def group_matches_def)

section \<open>The backend contract\<close>

text \<open>
  What a backend promises: the rules it installs accept exactly the packets its fixed rules let
  through and those the rule set accepts, for the packets it \<open>sees\<close>. The policy-level statement
  is proved once from it.
\<close>

lemma expand_tagged_independent: "f \<in> set (expand_tagged fd t) \<Longrightarrow> clauses_independent (fr_clauses f)"
  by (cases t) (auto simp: expand_tagged_def firewall_rule_def Let_def split: if_splits)

lemma firewall_direction_rules_independent:
  "f \<in> set (firewall_direction_rules ps (fw_direction d)) \<Longrightarrow> clauses_independent (fr_clauses f)"
  by (auto simp: firewall_direction_rules_tagged default_deny_def expand_tagged_independent split: if_splits)

lemma firewall_rulesets_independent:
  "list_all (\<lambda>r. clauses_independent (fr_clauses r)) (fs_rules (firewall_rulesets ps))"
  using firewall_direction_rules_independent [of _ ps Inbound]
    firewall_direction_rules_independent [of _ ps Outbound]
  by (auto simp: firewall_rulesets_def list_all_iff fw_direction_def)

lemma workload_ruleset_independent:
  "list_all (\<lambda>r. clauses_independent (fr_clauses r))
     (fs_rules (workload_ruleset ps inline) @ fs_inline_rules (workload_ruleset ps inline))"
  using firewall_rulesets_independent
  by (auto simp: workload_ruleset_def Let_def firewall_rulesets_def [of ps] split: option.splits)
    (auto simp: firewall_rulesets_def)

locale firewall_backend =
  fixes accepts :: "ipnet_ops \<Rightarrow> FwRuleSet \<Rightarrow> FwDirection \<Rightarrow> PacketCtx \<Rightarrow> bool"
    and bypass :: "FwDirection \<Rightarrow> PacketCtx \<Rightarrow> bool"
    and sees :: "Packet \<Rightarrow> bool"
  assumes accepts_ruleset:
    "family_sound N \<Longrightarrow> packet_wf (cx_packet cx) \<Longrightarrow> pk_proto (cx_packet cx) \<noteq> L4Tcp \<Longrightarrow> sees (cx_packet cx) \<Longrightarrow>
       list_all (\<lambda>r. clauses_independent (fr_clauses r)) (fs_rules rs @ fs_inline_rules rs) \<Longrightarrow>
       accepts N rs d cx \<longleftrightarrow> bypass d cx \<or> ruleset_accepts N d rs (cx_packet cx)"
begin

lemma accepts_workload:
  assumes "family_sound N" "packet_wf (cx_packet cx)" "pk_proto (cx_packet cx) \<noteq> L4Tcp" "sees (cx_packet cx)"
    and "stage_validated ps" "stage_validated (inline_stage inline)"
    and "length (stage_rules d ps) \<le> 2147483648" "length (stage_rules d (inline_stage inline)) \<le> 2147483648"
  shows "accepts N (workload_ruleset ps inline) (fw_direction d) cx \<longleftrightarrow>
    bypass (fw_direction d) cx \<or>
    stage_verdict N d (inline_stage inline) (cx_packet cx) \<noteq> Some FwDeny \<and>
    stage_verdict N d ps (cx_packet cx) \<noteq> Some FwDeny"
proof -
  note verdict = stage_chain_verdict [OF assms(3)]
  have "ruleset_accepts N (fw_direction d) (workload_ruleset ps inline) (cx_packet cx) \<longleftrightarrow>
      stage_verdict N d (inline_stage inline) (cx_packet cx) \<noteq> Some FwDeny \<and>
      stage_verdict N d ps (cx_packet cx) \<noteq> Some FwDeny"
    using verdict [OF assms(5,7), of N] verdict [OF assms(6,8), of N]
    by (cases "stage_verdict N d ps (cx_packet cx)"; cases "the (stage_verdict N d ps (cx_packet cx))")
      (auto simp: ruleset_accepts_def workload_ruleset_def inline_stage_def Let_def stage_verdict_def
        direction_chain_def firewall_rulesets_def split: option.splits)
  then show ?thesis
    using accepts_ruleset [OF assms(1-4) workload_ruleset_independent] by simp
qed

end

end
