(* ===== verification/Nft.thy ===== *)
theory Nft
  imports Firewall
begin

text \<open>
  The nftables backend, \<^verbatim>\<open>src/firewall/backend/nft.rs\<close>. The strings the code builds with \<open>format!\<close>
  are kept as syntax trees (\<open>nft_expr\<close>, \<open>NftLine\<close>, \<open>nft_stmt\<close>) until they are printed; the printing
  functions give their text. The evaluation of a chain is stated on the trees, with the documented
  meaning of each statement.
\<close>

section \<open>Syntax of the generated script\<close>

datatype nft_addr = NftCidr IpNet | NftNamed string | NftInline "IpNet list"

datatype ip_side = Saddr | Daddr

datatype nft_expr =
    IpMatch bool ip_side nft_addr
  | L4NotTcp
  | L4UdpSctp
  | L4UdpOnly
  | L4SctpOnly
  | Dport string "port_range list"
  | Icmp4
  | Icmp6
  | IcmpAny

datatype nft_verdict = NvAccept | NvReject | NvReturn

record NftLine =
  nl_parts :: "nft_expr list"
  nl_action :: nft_verdict
  nl_comment :: string

record NftFlatMatch =
  nf_source_ips :: "IpNet list"
  nf_dest_ips :: "IpNet list"
  nf_port_groups :: "PortGroup list"

record NamedSet =
  ns_name :: string
  ns_is_v4 :: bool
  ns_elements :: "IpNet list"

record RenderedRule =
  rr_sets :: "NamedSet list"
  rr_lines :: "NftLine list"

record NftBackend =
  nb_netns_path :: "string option"
  nb_proxy_mark :: "u32 option"
  nb_workload_name :: "string option"
  nb_workload_namespace :: "string option"

section \<open>Rendering\<close>

definition nft_new :: NftBackend where
  "nft_new = \<lparr>nb_netns_path = None, nb_proxy_mark = None, nb_workload_name = None,
     nb_workload_namespace = None\<rparr>"

definition nft_in_netns :: "string \<Rightarrow> NftBackend \<Rightarrow> NftBackend" where
  "nft_in_netns path b = b\<lparr>nb_netns_path := Some path\<rparr>"

definition nft_skip_mark :: "u32 \<Rightarrow> NftBackend \<Rightarrow> NftBackend" where
  "nft_skip_mark mark b = b\<lparr>nb_proxy_mark := Some mark\<rparr>"

definition nft_with_workload_info :: "string \<Rightarrow> string \<Rightarrow> NftBackend \<Rightarrow> NftBackend" where
  "nft_with_workload_info name namespace b =
     b\<lparr>nb_workload_name := Some name, nb_workload_namespace := Some namespace\<rparr>"

definition group_by_family :: "IpNet list \<Rightarrow> IpNet list \<times> IpNet list" where
  "group_by_family cidrs = (filter net_is_v4 cidrs, filter (\<lambda>c. \<not> net_is_v4 c) cidrs)"

text \<open>
  \<open>chars().filter(|c| !c.is_control())\<close> on the UTF-8 bytes: the control characters are the bytes
  below 32, 127, and the two-byte encodings C2 80 to C2 9F.
\<close>

fun strip_control :: "string \<Rightarrow> string" where
  "strip_control [] = []"
| "strip_control [c] = (if of_char c < (32 :: nat) \<or> of_char c = (127 :: nat) then [] else [c])"
| "strip_control (c # d # cs) =
     (if of_char c < (32 :: nat) \<or> of_char c = (127 :: nat) then strip_control (d # cs)
      else if of_char c = (194 :: nat) \<and> (128 :: nat) \<le> of_char d \<and> of_char d \<le> (159 :: nat)
      then strip_control cs
      else c # strip_control (d # cs))"

definition backslash :: char where
  "backslash = CHR 0x5C"

definition dquote :: char where
  "dquote = CHR 0x22"

definition escape_comment :: "string \<Rightarrow> string" where
  "escape_comment s =
     concat (map (\<lambda>c. if c = dquote then [backslash, dquote] else [c])
       (concat (map (\<lambda>c. if c = backslash then [backslash, backslash] else [c]) (strip_control s))))"

definition NAMED_SET_THRESHOLD :: nat where
  "NAMED_SET_THRESHOLD = 128"

text \<open>The counter and the sets of the rule being rendered are the \<open>&mut\<close> arguments.\<close>

type_synonym nft_state = "nat \<times> NamedSet list"

definition render_ip_match ::
  "IpNet list \<Rightarrow> ip_side \<Rightarrow> bool \<Rightarrow> nft_state \<Rightarrow> nft_expr list \<times> nft_state"
where
  "render_ip_match cidrs side is_v4 st =
     (let (set_counter, sets) = st in
      if cidrs = [] then ([], st)
      else if length cidrs = 1 then ([IpMatch is_v4 side (NftCidr (cidrs ! 0))], st)
      else if length cidrs > NAMED_SET_THRESHOLD then
        (let name = ''zt_'' @ show_nat set_counter @ ''_'' @ (if is_v4 then ''v4'' else ''v6'') in
         ([IpMatch is_v4 side (NftNamed name)],
          (set_counter + 1, sets @ [\<lparr>ns_name = name, ns_is_v4 = is_v4, ns_elements = cidrs\<rparr>])))
      else ([IpMatch is_v4 side (NftInline cidrs)], st))"

definition nft_default_flat :: NftFlatMatch where
  "nft_default_flat = \<lparr>nf_source_ips = [], nf_dest_ips = [],
     nf_port_groups = [\<lparr>pg_protocol = NonTcp, pg_ports = []\<rparr>]\<rparr>"

definition nft_merge :: "NftFlatMatch \<Rightarrow> FirewallMatch \<Rightarrow> NftFlatMatch list" where
  "nft_merge e m =
     [\<lparr>nf_source_ips = (if fm_source_ips m = [] then nf_source_ips e else fm_source_ips m),
       nf_dest_ips = (if fm_dest_ips m = [] then nf_dest_ips e else fm_dest_ips m),
       nf_port_groups = (if is_no_port_restriction m then nf_port_groups e else fm_port_groups m)\<rparr>]"

definition nft_flatten_clauses :: "FirewallMatch list list \<Rightarrow> NftFlatMatch list" where
  "nft_flatten_clauses clauses = expand_clauses nft_merge nft_default_flat clauses"

definition render_port_group :: "PortGroup \<Rightarrow> bool option \<Rightarrow> nft_expr list" where
  "render_port_group grp effective_is_v4 =
     (case pg_protocol grp of
        NonTcp \<Rightarrow>
          (if pg_ports grp = [] then [L4NotTcp] else [L4UdpSctp, Dport ''th'' (pg_ports grp)])
      | FwUdp \<Rightarrow> (if pg_ports grp = [] then [L4UdpOnly] else [Dport ''udp'' (pg_ports grp)])
      | FwSctp \<Rightarrow> (if pg_ports grp = [] then [L4SctpOnly] else [Dport ''sctp'' (pg_ports grp)])
      | FwIcmp \<Rightarrow>
          (case effective_is_v4 of Some True \<Rightarrow> [Icmp4] | Some False \<Rightarrow> [Icmp6] | None \<Rightarrow> [IcmpAny]))"

definition family_groups :: "IpNet list \<Rightarrow> (bool \<times> IpNet list) list" where
  "family_groups cidrs =
     (if cidrs = [] then [(True, [])]
      else let (v4, v6) = group_by_family cidrs in
        (if v4 \<noteq> [] then [(True, v4)] else []) @ (if v6 \<noteq> [] then [(False, v6)] else []))"

definition effective_family :: "bool \<times> IpNet list \<Rightarrow> bool \<times> IpNet list \<Rightarrow> bool option" where
  "effective_family src dst =
     (if snd src \<noteq> [] then Some (fst src) else if snd dst \<noteq> [] then Some (fst dst) else None)"

text \<open>The body of the two inner loops, over the family groups of source and destination.\<close>

definition render_pair ::
  "nft_verdict \<Rightarrow> string \<Rightarrow> NftFlatMatch \<times> (bool \<times> IpNet list) \<times> (bool \<times> IpNet list) \<Rightarrow> nft_state \<Rightarrow>
     NftLine list \<times> nft_state"
where
  "render_pair action comment = (\<lambda>(flat, src, dst) st.
     if snd src \<noteq> [] \<and> snd dst \<noteq> [] \<and> fst src \<noteq> fst dst then ([], st)
     else
       (let (src_part, st1) = render_ip_match (snd src) Saddr (fst src) st;
            (dst_part, st2) = render_ip_match (snd dst) Daddr (fst dst) st1
        in (map (\<lambda>grp. \<lparr>nl_parts = src_part @ dst_part @ render_port_group grp (effective_family src dst),
                            nl_action = action, nl_comment = comment\<rparr>)
              (nf_port_groups flat), st2)))"

definition rule_pairs ::
  "FirewallRule \<Rightarrow> (NftFlatMatch \<times> (bool \<times> IpNet list) \<times> (bool \<times> IpNet list)) list"
where
  "rule_pairs rule =
     concat (map (\<lambda>flat.
       concat (map (\<lambda>src. map (\<lambda>dst. (flat, src, dst)) (family_groups (nf_dest_ips flat)))
         (family_groups (nf_source_ips flat))))
       (nft_flatten_clauses (fr_clauses rule)))"

definition render_rule_with_action :: "FirewallRule \<Rightarrow> nft_verdict \<Rightarrow> nat \<Rightarrow> RenderedRule \<times> nat" where
  "render_rule_with_action rule action set_counter =
     (let comment = ''comment '' @ [dquote] @ escape_comment (fr_name rule) @ [dquote];
          (lines, set_counter', sets) = thread (render_pair action comment) (rule_pairs rule) (set_counter, [])
      in (\<lparr>rr_sets = sets, rr_lines = lines\<rparr>, set_counter'))"

definition nft_render_rule :: "FirewallRule \<Rightarrow> nat \<Rightarrow> RenderedRule \<times> nat" where
  "nft_render_rule rule set_counter =
     render_rule_with_action rule (case fr_action rule of FwAllow \<Rightarrow> NvAccept | FwDeny \<Rightarrow> NvReject) set_counter"

definition nft_render_inline :: "FirewallRule \<Rightarrow> nat \<Rightarrow> RenderedRule \<times> nat" where
  "nft_render_inline rule set_counter =
     render_rule_with_action rule (case fr_action rule of FwAllow \<Rightarrow> NvReturn | FwDeny \<Rightarrow> NvReject) set_counter"

text \<open>Rendering a list of rules: the rendered rules in order, with the counter passed along.\<close>

definition render_each :: "(FirewallRule \<Rightarrow> nat \<Rightarrow> RenderedRule \<times> nat) \<Rightarrow> FirewallRule list \<Rightarrow> nat \<Rightarrow>
  (FirewallRule \<times> RenderedRule) list \<times> nat"
where
  "render_each render = thread (\<lambda>rule c. let (r, c') = render rule c in ([(rule, r)], c'))"

datatype nft_stmt =
    CtEstablished
  | IifLo
  | OifLo
  | MarkReturn u32
  | SkuidReturn
  | SkgidReturn
  | JumpInline
  | RuleLine NftLine
  | RejectNonTcp

record NftScript =
  sc_sets :: "NamedSet list"
  sc_has_inline :: bool
  sc_inline_input :: "NftLine list"
  sc_inline_output :: "NftLine list"
  sc_input :: "nft_stmt list"
  sc_output :: "nft_stmt list"

definition nft_compile :: "NftBackend \<Rightarrow> FwRuleSet \<Rightarrow> NftScript" where
  "nft_compile b ruleset =
     (let inbound_rules = sort_key fr_priority (filter (\<lambda>r. fr_direction r = FwInbound) (fs_rules ruleset));
          outbound_rules = sort_key fr_priority (filter (\<lambda>r. fr_direction r = FwOutbound) (fs_rules ruleset));
          (inb, c1) = render_each nft_render_rule inbound_rules 0;
          (outb, c2) = render_each nft_render_rule outbound_rules c1;
          (inl, c3) = render_each nft_render_inline (sort_key fr_priority (fs_inline_rules ruleset)) c2;
          inline_lines = (\<lambda>d. concat (map (rr_lines \<circ> snd) (filter (\<lambda>(rule, _). fr_direction rule = d) inl)));
          has_inline = (fs_inline_rules ruleset \<noteq> []);
          jump = (if has_inline then [JumpInline] else []);
          tail = (if fs_policy_attached ruleset then [RejectNonTcp] else [])
      in \<lparr>sc_sets = concat (map (rr_sets \<circ> snd) (inb @ outb @ inl)),
          sc_has_inline = has_inline,
          sc_inline_input = inline_lines FwInbound,
          sc_inline_output = inline_lines FwOutbound,
          sc_input =
            [CtEstablished, IifLo] @ jump @
            map RuleLine (concat (map (rr_lines \<circ> snd) inb)) @ tail,
          sc_output =
            [CtEstablished, OifLo] @
            (case nb_proxy_mark b of Some mark \<Rightarrow> [MarkReturn mark] | None \<Rightarrow> [SkuidReturn, SkgidReturn]) @ jump @
            map RuleLine (concat (map (rr_lines \<circ> snd) outb)) @ tail\<rparr>)"

section \<open>Printing\<close>

definition nft_port_text :: "port_range \<Rightarrow> string" where
  "nft_port_text p =
     (if fst p = snd p then show_nat (unat (fst p))
      else show_nat (unat (fst p)) @ ''-'' @ show_nat (unat (snd p)))"

definition format_nft_ports :: "string \<Rightarrow> port_range list \<Rightarrow> string" where
  "format_nft_ports proto_or_th ports =
     (if length ports = 1 then proto_or_th @ '' dport '' @ nft_port_text (ports ! 0)
      else proto_or_th @ '' dport { '' @ join '', '' (map nft_port_text ports) @ '' }'')"

fun nft_addr_text :: "ipnet_ops \<Rightarrow> nft_addr \<Rightarrow> string" where
  "nft_addr_text N (NftCidr c) = net_display N c"
| "nft_addr_text N (NftNamed name) = ''@'' @ name"
| "nft_addr_text N (NftInline cs) = ''{ '' @ join '', '' (map (net_display N) cs) @ '' }''"

fun nft_expr_text :: "ipnet_ops \<Rightarrow> nft_expr \<Rightarrow> string" where
  "nft_expr_text N (IpMatch is_v4 side a) =
     (if is_v4 then ''ip'' else ''ip6'') @ '' '' @ (case side of Saddr \<Rightarrow> ''saddr'' | Daddr \<Rightarrow> ''daddr'') @
     '' '' @ nft_addr_text N a"
| "nft_expr_text N L4NotTcp = ''meta l4proto != tcp''"
| "nft_expr_text N L4UdpSctp = ''meta l4proto { udp, sctp }''"
| "nft_expr_text N L4UdpOnly = ''meta l4proto udp''"
| "nft_expr_text N L4SctpOnly = ''meta l4proto sctp''"
| "nft_expr_text N (Dport proto ports) = format_nft_ports proto ports"
| "nft_expr_text N Icmp4 = ''ip protocol icmp''"
| "nft_expr_text N Icmp6 = ''meta l4proto ipv6-icmp''"
| "nft_expr_text N IcmpAny = ''meta l4proto { icmp, ipv6-icmp }''"

fun nft_verdict_text :: "nft_verdict \<Rightarrow> string" where
  "nft_verdict_text NvAccept = ''accept''"
| "nft_verdict_text NvReject = ''reject''"
| "nft_verdict_text NvReturn = ''return''"

definition nft_line_text :: "ipnet_ops \<Rightarrow> NftLine \<Rightarrow> string" where
  "nft_line_text N l =
     join '' '' (map (nft_expr_text N) (nl_parts l) @ [nft_verdict_text (nl_action l), nl_comment l])"

fun nft_stmt_text :: "ipnet_ops \<Rightarrow> FwDirection \<Rightarrow> nft_stmt \<Rightarrow> string" where
  "nft_stmt_text N d CtEstablished = ''ct state established,related accept''"
| "nft_stmt_text N d IifLo = ''iif lo accept''"
| "nft_stmt_text N d OifLo = ''oif lo accept''"
| "nft_stmt_text N d (MarkReturn mark) = ''meta mark '' @ show_nat (unat mark) @ '' return''"
| "nft_stmt_text N d SkuidReturn = ''meta skuid 1337 return''"
| "nft_stmt_text N d SkgidReturn = ''meta skgid 1337 return''"
| "nft_stmt_text N d JumpInline =
     ''meta l4proto != tcp jump '' @ (case d of FwInbound \<Rightarrow> ''zt_inline_input'' | FwOutbound \<Rightarrow> ''zt_inline_output'')"
| "nft_stmt_text N d (RuleLine l) = nft_line_text N l"
| "nft_stmt_text N d RejectNonTcp = ''meta l4proto != tcp reject''"

definition nl :: string where
  "nl = [CHR 0x0A]"

definition named_set_text :: "ipnet_ops \<Rightarrow> NamedSet \<Rightarrow> string" where
  "named_set_text N s =
     ''  set '' @ ns_name s @ '' {'' @ nl @
     ''    type '' @ (if ns_is_v4 s then ''ipv4_addr'' else ''ipv6_addr'') @ nl @
     ''    flags interval'' @ nl @
     ''    elements = { '' @ join '', '' (map (net_display N) (ns_elements s)) @ '' }'' @ nl @
     ''  }'' @ nl"

definition indented :: "string list \<Rightarrow> string" where
  "indented ls = concat (map (\<lambda>l. ''    '' @ l @ nl) ls)"

definition inline_chain_text :: "ipnet_ops \<Rightarrow> string \<times> NftLine list \<Rightarrow> string" where
  "inline_chain_text N = (\<lambda>(name, ls). ''  chain '' @ name @ '' {'' @ nl @ indented (map (nft_line_text N) ls) @ ''  }'' @ nl)"

definition nft_render_ruleset :: "ipnet_ops \<Rightarrow> NftBackend \<Rightarrow> FwRuleSet \<Rightarrow> string" where
  "nft_render_ruleset N b ruleset =
     (let sc = nft_compile b ruleset in
      ''add table inet ztunnel'' @ nl @ ''delete table inet ztunnel'' @ nl @ ''table inet ztunnel {'' @ nl @
      concat (map (named_set_text N) (sc_sets sc)) @
      (if sc_has_inline sc
       then concat (map (inline_chain_text N)
              [(''zt_inline_input'', sc_inline_input sc), (''zt_inline_output'', sc_inline_output sc)])
       else '''') @
      ''  chain zt_policy_input {'' @ nl @
      ''    type filter hook input priority -150; policy accept;'' @ nl @
      indented (map (nft_stmt_text N FwInbound) (sc_input sc)) @ ''  }'' @ nl @
      ''  chain zt_policy_output {'' @ nl @
      ''    type filter hook output priority -150; policy accept;'' @ nl @
      indented (map (nft_stmt_text N FwOutbound) (sc_output sc)) @ ''  }'' @ nl @
      ''}'' @ nl)"

section \<open>Meaning of the script\<close>

definition side_addr :: "Packet \<Rightarrow> ip_side \<Rightarrow> IpAddr" where
  "side_addr p side = (case side of Saddr \<Rightarrow> pk_src p | Daddr \<Rightarrow> pk_dst p)"

definition addr_nets :: "NamedSet list \<Rightarrow> nft_addr \<Rightarrow> IpNet list" where
  "addr_nets sets a =
     (case a of
        NftCidr c \<Rightarrow> [c]
      | NftInline cs \<Rightarrow> cs
      | NftNamed name \<Rightarrow>
          (case find (\<lambda>s. ns_name s = name) sets of None \<Rightarrow> [] | Some s \<Rightarrow> ns_elements s))"

fun nft_eval :: "ipnet_ops \<Rightarrow> NamedSet list \<Rightarrow> Packet \<Rightarrow> nft_expr \<Rightarrow> bool" where
  "nft_eval N sets p (IpMatch v4 side a) =
     (is_ipv4 (side_addr p side) = v4 \<and>
      list_ex (\<lambda>c. net_contains N c (side_addr p side)) (addr_nets sets a))"
| "nft_eval N sets p L4NotTcp = (pk_proto p \<noteq> L4Tcp)"
| "nft_eval N sets p L4UdpSctp = (pk_proto p = L4Udp \<or> pk_proto p = L4Sctp)"
| "nft_eval N sets p L4UdpOnly = (pk_proto p = L4Udp)"
| "nft_eval N sets p L4SctpOnly = (pk_proto p = L4Sctp)"
| "nft_eval N sets p (Dport proto ports) =
     ((proto = ''udp'' \<longrightarrow> pk_proto p = L4Udp) \<and> (proto = ''sctp'' \<longrightarrow> pk_proto p = L4Sctp) \<and>
      ranges_match ports (pk_dport p))"
| "nft_eval N sets p Icmp4 = (is_ipv4 (pk_dst p) \<and> pk_proto p = L4Icmp)"
| "nft_eval N sets p Icmp6 = (pk_proto p = L4Icmp6)"
| "nft_eval N sets p IcmpAny = (pk_proto p = L4Icmp \<or> pk_proto p = L4Icmp6)"

definition nft_line_matches :: "ipnet_ops \<Rightarrow> NamedSet list \<Rightarrow> Packet \<Rightarrow> NftLine \<Rightarrow> bool" where
  "nft_line_matches N sets p l = list_all (nft_eval N sets p) (nl_parts l)"

text \<open>
  A base chain with policy accept: the first terminal verdict decides, and \<open>return\<close> ends the chain
  with its policy. Returning from the inline chain goes on behind the jump.
\<close>

fun nft_run ::
  "ipnet_ops \<Rightarrow> NamedSet list \<Rightarrow> NftLine list \<Rightarrow> PacketCtx \<Rightarrow> nft_stmt list \<Rightarrow> bool"
where
  "nft_run N sets inl cx [] = True"
| "nft_run N sets inl cx (CtEstablished # ss) = (cx_established cx \<or> nft_run N sets inl cx ss)"
| "nft_run N sets inl cx (IifLo # ss) = (cx_loopback cx \<or> nft_run N sets inl cx ss)"
| "nft_run N sets inl cx (OifLo # ss) = (cx_loopback cx \<or> nft_run N sets inl cx ss)"
| "nft_run N sets inl cx (MarkReturn m # ss) = (cx_mark cx = m \<or> nft_run N sets inl cx ss)"
| "nft_run N sets inl cx (SkuidReturn # ss) = (cx_uid cx = 1337 \<or> nft_run N sets inl cx ss)"
| "nft_run N sets inl cx (SkgidReturn # ss) = (cx_gid cx = 1337 \<or> nft_run N sets inl cx ss)"
| "nft_run N sets inl cx (JumpInline # ss) =
     (if pk_proto (cx_packet cx) \<noteq> L4Tcp then
        (case first_verdict (nft_line_matches N sets (cx_packet cx)) nl_action inl of
           Some NvAccept \<Rightarrow> True
         | Some NvReject \<Rightarrow> False
         | _ \<Rightarrow> nft_run N sets inl cx ss)
      else nft_run N sets inl cx ss)"
| "nft_run N sets inl cx (RuleLine l # ss) =
     (if nft_line_matches N sets (cx_packet cx) l then nl_action l \<noteq> NvReject
      else nft_run N sets inl cx ss)"
| "nft_run N sets inl cx (RejectNonTcp # ss) =
     (\<not> pk_proto (cx_packet cx) \<noteq> L4Tcp \<and> nft_run N sets inl cx ss)"

definition nft_accepts :: "ipnet_ops \<Rightarrow> NftScript \<Rightarrow> FwDirection \<Rightarrow> PacketCtx \<Rightarrow> bool" where
  "nft_accepts N sc d cx =
     (case d of
        FwInbound \<Rightarrow> nft_run N (sc_sets sc) (sc_inline_input sc) cx (sc_input sc)
      | FwOutbound \<Rightarrow> nft_run N (sc_sets sc) (sc_inline_output sc) cx (sc_output sc))"

text \<open>The packets the fixed rules in front of the policy rules let through.\<close>

definition nft_bypass :: "NftBackend \<Rightarrow> FwDirection \<Rightarrow> PacketCtx \<Rightarrow> bool" where
  "nft_bypass b d cx =
     (cx_established cx \<or> cx_loopback cx \<or>
      (d = FwOutbound \<and>
       (case nb_proxy_mark b of
          Some mark \<Rightarrow> cx_mark cx = mark
        | None \<Rightarrow> cx_uid cx = 1337 \<or> cx_gid cx = 1337)))"

definition set_name :: "nat \<Rightarrow> bool \<Rightarrow> string" where
  "set_name c v4 = ''zt_'' @ show_nat c @ ''_'' @ (if v4 then ''v4'' else ''v6'')"

definition lookup_ok :: "NamedSet list \<Rightarrow> NamedSet list \<Rightarrow> bool" where
  "lookup_ok T sets = (\<forall>s \<in> set sets. find (\<lambda>t. ns_name t = ns_name s) T = Some s)"

definition numbered :: "nat \<Rightarrow> nat \<Rightarrow> NamedSet list \<Rightarrow> bool" where
  "numbered c c' sets =
     (c \<le> c' \<and> list_all2 (\<lambda>s i. \<exists>v4. ns_name s = set_name i v4) sets [c ..< c'])"

text \<open>The networks of a family group, and the packets a pair of groups selects.\<close>

definition side_matches :: "ipnet_ops \<Rightarrow> Packet \<Rightarrow> ip_side \<Rightarrow> bool \<times> IpNet list \<Rightarrow> bool" where
  "side_matches N p side g =
     (snd g = [] \<or> (is_ipv4 (side_addr p side) = fst g \<and>
        list_ex (\<lambda>c. net_contains N c (side_addr p side)) (snd g)))"

definition pair_matches ::
  "ipnet_ops \<Rightarrow> Packet \<Rightarrow> NftFlatMatch \<times> (bool \<times> IpNet list) \<times> (bool \<times> IpNet list) \<Rightarrow> bool"
where
  "pair_matches N p = (\<lambda>(flat, src, dst).
     \<not> (snd src \<noteq> [] \<and> snd dst \<noteq> [] \<and> fst src \<noteq> fst dst) \<and>
     side_matches N p Saddr src \<and> side_matches N p Daddr dst \<and>
     list_ex (group_matches p) (nf_port_groups flat))"

definition nft_flat_matches :: "ipnet_ops \<Rightarrow> Packet \<Rightarrow> NftFlatMatch \<Rightarrow> bool" where
  "nft_flat_matches N p f =
     (nets_match N (nf_source_ips f) (pk_src p) \<and> nets_match N (nf_dest_ips f) (pk_dst p) \<and>
      list_ex (group_matches p) (nf_port_groups f))"

definition rendered :: "(RuleAction \<Rightarrow> nft_verdict) \<Rightarrow> (FirewallRule \<times> RenderedRule) list \<Rightarrow> bool" where
  "rendered act prs =
     (\<forall>(rule, rr) \<in> set prs. \<exists>c c'. render_rule_with_action rule (act (fr_action rule)) c = (rr, c'))"

abbreviation accept_verdict :: "RuleAction \<Rightarrow> nft_verdict" where
  "accept_verdict a \<equiv> (case a of FwAllow \<Rightarrow> NvAccept | FwDeny \<Rightarrow> NvReject)"

abbreviation return_verdict :: "RuleAction \<Rightarrow> nft_verdict" where
  "return_verdict a \<equiv> (case a of FwAllow \<Rightarrow> NvReturn | FwDeny \<Rightarrow> NvReject)"

section \<open>Lemmas\<close>

lemma set_name_inj: "set_name c v = set_name c' v' \<Longrightarrow> c = c'"
proof -
  assume "set_name c v = set_name c' v'"
  then have "show_nat c @ CHR ''_'' # (if v then ''v4'' else ''v6'') =
      show_nat c' @ CHR ''_'' # (if v' then ''v4'' else ''v6'')"
    by (simp add: set_name_def)
  then have "split_once CHR ''_'' (show_nat c @ CHR ''_'' # (if v then ''v4'' else ''v6'')) =
      split_once CHR ''_'' (show_nat c' @ CHR ''_'' # (if v' then ''v4'' else ''v6''))"
    by (rule arg_cong)
  then show ?thesis
    by (simp add: split_once_append underscore_not_digit show_nat_inj)
qed

lemma numbered_append: "numbered c c1 xs \<Longrightarrow> numbered c1 c2 ys \<Longrightarrow> numbered c c2 (xs @ ys)"
  using upt_add_eq_append [of c c1 "c2 - c1"]
  by (auto simp: numbered_def intro: list_all2_appendI)

lemma numbered_Nil: "numbered c c []"
  by (simp add: numbered_def)

lemma list_all2_in_left: "list_all2 P xs ys \<Longrightarrow> x \<in> set xs \<Longrightarrow> \<exists>y \<in> set ys. P x y"
  by (induction rule: list_all2_induct) auto

lemma numbered_distinct: "numbered c c' sets \<Longrightarrow> distinct (map ns_name sets)"
proof (induction sets arbitrary: c)
  case (Cons s sets)
  then have c: "c < c'" and s: "\<exists>v. ns_name s = set_name c v"
    and rest: "list_all2 (\<lambda>s i. \<exists>v4. ns_name s = set_name i v4) sets [Suc c ..< c']"
    by (auto simp: numbered_def list_all2_Cons1 upt_eq_Cons_conv)
  have "ns_name s \<noteq> ns_name t" if "t \<in> set sets" for t
  proof -
    from list_all2_in_left [OF rest that] obtain i v where "i \<in> set [Suc c ..< c']" "ns_name t = set_name i v"
      by blast
    with s show ?thesis by (auto dest!: set_name_inj)
  qed
  with Cons.IH [of "Suc c"] rest c show ?case by (auto simp: numbered_def)
qed simp

lemma distinct_lookup: "distinct (map ns_name T) \<Longrightarrow> lookup_ok T T"
proof (induction T)
  case (Cons t T)
  then show ?case by (force simp: lookup_ok_def)
qed (simp add: lookup_ok_def)

lemma lookup_ok_append [simp]: "lookup_ok T (xs @ ys) \<longleftrightarrow> lookup_ok T xs \<and> lookup_ok T ys"
  by (auto simp: lookup_ok_def)

lemma render_ip_match_spec:
  assumes "render_ip_match cidrs side v4 (c, sets) = (parts, c', sets')"
  shows "\<exists>new. sets' = sets @ new \<and> numbered c c' new \<and>
    (\<forall>T. lookup_ok T new \<longrightarrow> list_all (nft_eval N T p) parts = side_matches N p side (v4, cidrs))"
proof -
  consider "cidrs = []" | x where "cidrs = [x]" | "length cidrs > NAMED_SET_THRESHOLD"
    | "length cidrs > 1" "length cidrs \<le> NAMED_SET_THRESHOLD"
    by (cases "length cidrs > NAMED_SET_THRESHOLD"; cases cidrs; cases "tl cidrs") auto
  then show ?thesis
  proof cases
    case 3
    then have "cidrs \<noteq> []" "length cidrs \<noteq> 1" by (auto simp: NAMED_SET_THRESHOLD_def)
    with 3 assms show ?thesis
      by (auto simp: render_ip_match_def Let_def numbered_def lookup_ok_def addr_nets_def side_matches_def
          set_name_def upt_conv_Cons)
  next
    case 4
    then have "cidrs \<noteq> []" "length cidrs \<noteq> 1" "\<not> length cidrs > NAMED_SET_THRESHOLD" by auto
    with assms show ?thesis
      by (auto simp: render_ip_match_def Let_def numbered_Nil addr_nets_def side_matches_def)
  qed (use assms in \<open>auto simp: render_ip_match_def Let_def numbered_Nil addr_nets_def side_matches_def\<close>)
qed

lemma render_port_group_eval:
  assumes "packet_wf p"
    and "\<And>v. fam = Some v \<Longrightarrow> is_ipv4 (pk_dst p) = v"
  shows "list_all (nft_eval N T p) (render_port_group g fam) = group_matches p g"
proof -
  have "L4Icmp = pk_proto p \<longrightarrow> is_ipv4 (pk_dst p)" "L4Icmp6 = pk_proto p \<longrightarrow> \<not> is_ipv4 (pk_dst p)"
    using assms(1) by (auto simp: packet_wf_def)
  with assms(2) show ?thesis
    by (cases "pg_protocol g"; cases fam)
      (auto simp: render_port_group_def group_matches_def icmp_of_def split: bool.splits)
qed

lemma render_pair_spec:
  assumes "packet_wf p" "render_pair action comment t (c, sets) = (ls, c', sets')"
  shows "\<exists>new. sets' = sets @ new \<and> numbered c c' new \<and>
    (\<forall>T. lookup_ok T new \<longrightarrow> (\<exists>l \<in> set ls. nft_line_matches N T p l) = pair_matches N p t)"
proof -
  obtain flat src dst where t: "t = (flat, src, dst)" by (cases t)
  show ?thesis
  proof (cases "snd src \<noteq> [] \<and> snd dst \<noteq> [] \<and> fst src \<noteq> fst dst")
    case True
    with assms(2) show ?thesis by (auto simp: t render_pair_def numbered_Nil pair_matches_def)
  next
    case False
    obtain sp c1 s1 where src: "render_ip_match (snd src) Saddr (fst src) (c, sets) = (sp, c1, s1)"
      by (cases "render_ip_match (snd src) Saddr (fst src) (c, sets)") auto
    obtain dp c2 s2 where dst: "render_ip_match (snd dst) Daddr (fst dst) (c1, s1) = (dp, c2, s2)"
      by (cases "render_ip_match (snd dst) Daddr (fst dst) (c1, s1)") auto
    from render_ip_match_spec [OF src, of N p] obtain n1 where n1: "s1 = sets @ n1" "numbered c c1 n1"
      "\<And>T. lookup_ok T n1 \<Longrightarrow> list_all (nft_eval N T p) sp = side_matches N p Saddr src" by auto
    from render_ip_match_spec [OF dst, of N p] obtain n2 where n2: "s2 = s1 @ n2" "numbered c1 c2 n2"
      "\<And>T. lookup_ok T n2 \<Longrightarrow> list_all (nft_eval N T p) dp = side_matches N p Daddr dst" by auto
    have res: "c' = c2" "sets' = sets @ n1 @ n2"
      "ls = map (\<lambda>g. \<lparr>nl_parts = sp @ dp @ render_port_group g (effective_family src dst),
              nl_action = action, nl_comment = comment\<rparr>) (nf_port_groups flat)"
      using assms(2) unfolding t render_pair_def prod.case if_not_P [OF False] src Let_def dst
      by (simp_all add: n1 n2)
    have fam: "is_ipv4 (pk_dst p) = v" if "side_matches N p Saddr src" "side_matches N p Daddr dst"
      "effective_family src dst = Some v" for v
      using that assms(1) by (auto simp: effective_family_def side_matches_def side_addr_def packet_wf_def
          split: if_splits)
    have "(\<exists>l \<in> set ls. nft_line_matches N T p l) = pair_matches N p t" if "lookup_ok T (n1 @ n2)" for T
    proof -
      have "(\<exists>l \<in> set ls. nft_line_matches N T p l) \<longleftrightarrow>
          side_matches N p Saddr src \<and> side_matches N p Daddr dst \<and>
          (\<exists>g \<in> set (nf_port_groups flat). list_all (nft_eval N T p) (render_port_group g (effective_family src dst)))"
        using that n1(3) n2(3) by (auto simp: res nft_line_matches_def)
      then show ?thesis
        using render_port_group_eval [OF assms(1) fam] False
        by (auto simp: t pair_matches_def list_ex_iff)
    qed
    then show ?thesis
      using res numbered_append [OF n1(2) n2(2)] by auto
  qed
qed

lemma thread_pairs_spec:
  assumes "packet_wf p"
  shows "thread (render_pair action comment) ts (c, sets) = (ls, c', sets') \<Longrightarrow>
    \<exists>new. sets' = sets @ new \<and> numbered c c' new \<and>
      (\<forall>T. lookup_ok T new \<longrightarrow>
         (\<exists>l \<in> set ls. nft_line_matches N T p l) = (\<exists>t \<in> set ts. pair_matches N p t))"
proof (induction ts arbitrary: c sets ls)
  case (Cons t ts)
  obtain l1 c1 s1 where one: "render_pair action comment t (c, sets) = (l1, c1, s1)"
    by (cases "render_pair action comment t (c, sets)") auto
  obtain l2 where rest: "thread (render_pair action comment) ts (c1, s1) = (l2, c', sets')" and ls: "ls = l1 @ l2"
    using Cons.prems by (auto simp: one Let_def split: prod.splits)
  from render_pair_spec [OF assms one, of N] obtain n1 where n1: "s1 = sets @ n1" "numbered c c1 n1"
    "\<And>T. lookup_ok T n1 \<Longrightarrow> (\<exists>l \<in> set l1. nft_line_matches N T p l) = pair_matches N p t" by auto
  from Cons.IH [OF rest] obtain n2 where n2: "sets' = s1 @ n2" "numbered c1 c' n2"
    "\<And>T. lookup_ok T n2 \<Longrightarrow> (\<exists>l \<in> set l2. nft_line_matches N T p l) = (\<exists>t \<in> set ts. pair_matches N p t)"
    by auto
  have "(\<exists>l \<in> set ls. nft_line_matches N T p l) = (\<exists>t \<in> set (t # ts). pair_matches N p t)"
    if "lookup_ok T (n1 @ n2)" for T
    using that n1(3) [of T] n2(3) [of T] by (simp add: ls bex_Un)
  then show ?case
    using n1(1) n2(1) numbered_append [OF n1(2) n2(2)] by (intro exI [of _ "n1 @ n2"]) simp
qed (simp add: numbered_Nil)

lemma render_pair_action:
  "l \<in> set (fst (render_pair action comment t st)) \<Longrightarrow> nl_action l = action"
  by (cases t) (auto simp: render_pair_def Let_def split: prod.splits if_splits)

lemma thread_pairs_action:
  "thread (render_pair action comment) ts st = (ls, st') \<Longrightarrow> l \<in> set ls \<Longrightarrow> nl_action l = action"
proof (induction ts arbitrary: st ls)
  case (Cons t ts)
  then show ?case
    using render_pair_action [of l action comment t st]
    by (auto simp: Let_def split: prod.splits)
qed simp

lemma family_groups_matches:
  assumes "family_sound N"
  shows "(\<exists>g \<in> set (family_groups cs). side_matches N p side g) = nets_match N cs (side_addr p side)"
proof -
  have "net_contains N c (side_addr p side) \<Longrightarrow> net_is_v4 c = is_ipv4 (side_addr p side)" for c
    using assms by (simp add: family_sound_def)
  then show ?thesis
    by (cases "filter net_is_v4 cs = []"; cases "filter (\<lambda>c. \<not> net_is_v4 c) cs = []")
      (auto simp: family_groups_def group_by_family_def side_matches_def nets_match_def list_ex_iff
        filter_empty_conv)
qed

lemma rule_pairs_matches:
  assumes "family_sound N" "packet_wf p"
  shows "(\<exists>t \<in> set (rule_pairs rule). pair_matches N p t) =
    (\<exists>f \<in> set (nft_flatten_clauses (fr_clauses rule)). nft_flat_matches N p f)"
proof -
  have same: "fst src = fst dst" if "side_matches N p Saddr src" "side_matches N p Daddr dst"
    "snd src \<noteq> []" "snd dst \<noteq> []" for src dst
    using that assms(2) by (auto simp: side_matches_def side_addr_def packet_wf_def)
  have pair: "pair_matches N p (flat, src, dst) \<longleftrightarrow> side_matches N p Saddr src \<and>
      side_matches N p Daddr dst \<and> list_ex (group_matches p) (nf_port_groups flat)" for flat src dst
    using same [of src dst] by (auto simp: pair_matches_def)
  have "(\<exists>src \<in> set (family_groups S). \<exists>dst \<in> set (family_groups D). pair_matches N p (flat, src, dst)) =
      ((\<exists>src \<in> set (family_groups S). side_matches N p Saddr src) \<and>
       (\<exists>dst \<in> set (family_groups D). side_matches N p Daddr dst) \<and>
       list_ex (group_matches p) (nf_port_groups flat))" for S D flat
    using pair by blast
  then show ?thesis
    by (auto simp: rule_pairs_def nft_flat_matches_def family_groups_matches [OF assms(1)] side_addr_def)
qed

interpretation nft_clauses: clause_expansion nft_merge nft_default_flat nft_flat_matches
  "\<lambda>e m. (nf_source_ips e = [] \<or> fm_source_ips m = []) \<and> (nf_dest_ips e = [] \<or> fm_dest_ips m = []) \<and>
     (nf_port_groups e = [\<lparr>pg_protocol = NonTcp, pg_ports = []\<rparr>] \<or> is_no_port_restriction m)"
  "\<lambda>N p. pk_proto p \<noteq> L4Tcp"
proof unfold_locales
  fix N and p :: Packet and e :: NftFlatMatch and m :: FirewallMatch
  assume nt: "pk_proto p \<noteq> L4Tcp" and op:
    "(nf_source_ips e = [] \<or> fm_source_ips m = []) \<and> (nf_dest_ips e = [] \<or> fm_dest_ips m = []) \<and>
     (nf_port_groups e = [\<lparr>pg_protocol = NonTcp, pg_ports = []\<rparr>] \<or> is_no_port_restriction m)"
  have "group_matches p \<lparr>pg_protocol = NonTcp, pg_ports = []\<rparr>"
    using nt by (simp add: group_matches_def)
  then show "(\<exists>f \<in> set (nft_merge e m). nft_flat_matches N p f) = (nft_flat_matches N p e \<and> fm_matches N p m)"
    using op nt no_port_restriction_groups [of m p]
    by (auto simp: nft_merge_def nft_flat_matches_def fm_matches_def nets_match_def groups_match_def
        is_no_port_restriction_def)
qed (auto simp: nft_flat_matches_def nft_default_flat_def nets_match_def group_matches_def nft_merge_def
    independent_def constrains_dim_def)

lemma nft_rule_lines:
  assumes "render_rule_with_action rule act c = (rr, c')" "packet_wf p"
  shows "numbered c c' (rr_sets rr) \<and> (\<forall>l \<in> set (rr_lines rr). nl_action l = act) \<and>
    (\<forall>T N. family_sound N \<longrightarrow> pk_proto p \<noteq> L4Tcp \<longrightarrow> clauses_independent (fr_clauses rule) \<longrightarrow>
       lookup_ok T (rr_sets rr) \<longrightarrow>
       (\<exists>l \<in> set (rr_lines rr). nft_line_matches N T p l) = fr_matches N p rule)"
proof -
  obtain comment ls sets where
    th: "thread (render_pair act comment) (rule_pairs rule) (c, []) = (ls, c', sets)"
    and rr: "rr = \<lparr>rr_sets = sets, rr_lines = ls\<rparr>"
    using assms(1) by (auto simp: render_rule_with_action_def Let_def split: prod.splits)
  show ?thesis
    using thread_pairs_spec [OF assms(2) th] thread_pairs_action [OF th]
      rule_pairs_matches [OF _ assms(2)] nft_clauses.expand_matches_clauses [of p]
    by (auto simp: rr fr_matches_def nft_flatten_clauses_def)
qed

section \<open>Correctness of the script\<close>

interpretation nft_lines: rule_expansion
  "\<lambda>(N, T, p) (rule, rr). fr_matches N p rule" "\<lambda>(rule, rr). act (fr_action rule)"
  "\<lambda>(N, T, p). nft_line_matches N T p" nl_action "\<lambda>(rule, rr). rr_lines rr"
  "\<lambda>(N, T, p) (rule, rr). (\<exists>c c'. render_rule_with_action rule (act (fr_action rule)) c = (rr, c')) \<and>
     packet_wf p \<and> pk_proto p \<noteq> L4Tcp \<and> family_sound N \<and> clauses_independent (fr_clauses rule) \<and>
     lookup_ok T (rr_sets rr)"
proof unfold_locales
  fix q :: "ipnet_ops \<times> NamedSet list \<times> Packet" and r :: "FirewallRule \<times> RenderedRule"
  assume *: "(case q of (N, T, p) \<Rightarrow> \<lambda>(rule, rr).
      (\<exists>c c'. render_rule_with_action rule (act (fr_action rule)) c = (rr, c')) \<and>
      packet_wf p \<and> pk_proto p \<noteq> L4Tcp \<and> family_sound N \<and> clauses_independent (fr_clauses rule) \<and>
      lookup_ok T (rr_sets rr)) r"
  then show "(\<exists>l \<in> set (case r of (rule, rr) \<Rightarrow> rr_lines rr). (case q of (N, T, p) \<Rightarrow> nft_line_matches N T p) l) =
      (case q of (N, T, p) \<Rightarrow> \<lambda>(rule, rr). fr_matches N p rule) r"
    by (cases q; cases r) (auto dest!: nft_rule_lines)
  show "nl_action l = (case r of (rule, rr) \<Rightarrow> act (fr_action rule))"
    if "l \<in> set (case r of (rule, rr) \<Rightarrow> rr_lines rr)" for l
    using * that by (cases q; cases r) (auto dest!: nft_rule_lines)
qed

lemma render_each_spec:
  assumes "packet_wf p"
  shows "render_each (\<lambda>rule. render_rule_with_action rule (act (fr_action rule))) rules c = (prs, c') \<Longrightarrow>
    map fst prs = rules \<and>
    (\<forall>(rule, rr) \<in> set prs. \<exists>c c'. render_rule_with_action rule (act (fr_action rule)) c = (rr, c')) \<and>
    numbered c c' (concat (map (rr_sets \<circ> snd) prs))"
proof (induction rules arbitrary: c prs)
  case (Cons rule rules)
  obtain rr c1 where one: "render_rule_with_action rule (act (fr_action rule)) c = (rr, c1)"
    by (cases "render_rule_with_action rule (act (fr_action rule)) c")
  from Cons.prems obtain prs' where
      rest: "render_each (\<lambda>rule. render_rule_with_action rule (act (fr_action rule))) rules c1 = (prs', c')"
    and prs: "prs = (rule, rr) # prs'"
    by (auto simp: render_each_def one Let_def split: prod.splits)
  from Cons.IH [OF rest] nft_rule_lines [OF one assms] one show ?case
    by (auto simp: prs intro: numbered_append)
qed (simp add: render_each_def numbered_Nil)

lemma nft_run_rules:
  "nft_run N sets inl cx (map RuleLine ls @ ss) =
     (case first_verdict (nft_line_matches N sets (cx_packet cx)) nl_action ls of
        None \<Rightarrow> nft_run N sets inl cx ss
      | Some v \<Rightarrow> v \<noteq> NvReject)"
  by (induction ls) auto

lemma nft_render_rule_act:
  "nft_render_rule =
     (\<lambda>rule. render_rule_with_action rule ((\<lambda>a. case a of FwAllow \<Rightarrow> NvAccept | FwDeny \<Rightarrow> NvReject) (fr_action rule)))"
  "nft_render_inline =
     (\<lambda>rule. render_rule_with_action rule ((\<lambda>a. case a of FwAllow \<Rightarrow> NvReturn | FwDeny \<Rightarrow> NvReject) (fr_action rule)))"
  by (simp_all add: fun_eq_iff nft_render_rule_def nft_render_inline_def)

lemma rendered_verdict:
  assumes "packet_wf p" "pk_proto p \<noteq> L4Tcp" "family_sound N"
    and each: "\<forall>(rule, rr) \<in> set prs. \<exists>c c'. render_rule_with_action rule (act (fr_action rule)) c = (rr, c')"
    and indep: "\<forall>(rule, rr) \<in> set prs. clauses_independent (fr_clauses rule)"
    and look: "lookup_ok T (concat (map (rr_sets \<circ> snd) prs))"
  shows "first_verdict (nft_line_matches N T p) nl_action (concat (map (rr_lines \<circ> snd) prs)) =
    map_option act (first_verdict (fr_matches N p) fr_action (map fst prs))"
proof -
  have "lookup_ok T (rr_sets rr)" if "(rule, rr) \<in> set prs" for rule rr
    using look that by (force simp: lookup_ok_def)
  then have "\<forall>r \<in> set prs. (\<lambda>(N, T, p) (rule, rr).
      (\<exists>c c'. render_rule_with_action rule (act (fr_action rule)) c = (rr, c')) \<and>
      packet_wf p \<and> pk_proto p \<noteq> L4Tcp \<and> family_sound N \<and> clauses_independent (fr_clauses rule) \<and>
      lookup_ok T (rr_sets rr)) (N, T, p) r"
    using assms(1-3) each indep by fastforce
  from nft_lines.first_verdict_expand [OF this] show ?thesis
    by (simp add: comp_def case_prod_beta' first_verdict_map first_verdict_action_map [of _ act])
qed

lemma nft_compile_cases:
  assumes "packet_wf p"
  obtains inb outb inl where
    "map fst inb = direction_chain FwInbound (fs_rules rs)" "rendered accept_verdict inb"
    "map fst outb = direction_chain FwOutbound (fs_rules rs)" "rendered accept_verdict outb"
    "map fst inl = sort_key fr_priority (fs_inline_rules rs)" "rendered return_verdict inl"
    "sc_sets (nft_compile b rs) = concat (map (rr_sets \<circ> snd) (inb @ outb @ inl))"
    "lookup_ok (sc_sets (nft_compile b rs)) (sc_sets (nft_compile b rs))"
    "sc_inline_input (nft_compile b rs) =
       concat (map (rr_lines \<circ> snd) (filter (\<lambda>(rule, _). fr_direction rule = FwInbound) inl))"
    "sc_inline_output (nft_compile b rs) =
       concat (map (rr_lines \<circ> snd) (filter (\<lambda>(rule, _). fr_direction rule = FwOutbound) inl))"
    "sc_input (nft_compile b rs) =
       [CtEstablished, IifLo] @ (if fs_inline_rules rs \<noteq> [] then [JumpInline] else []) @
       map RuleLine (concat (map (rr_lines \<circ> snd) inb)) @ (if fs_policy_attached rs then [RejectNonTcp] else [])"
    "sc_output (nft_compile b rs) =
       [CtEstablished, OifLo] @
       (case nb_proxy_mark b of Some mark \<Rightarrow> [MarkReturn mark] | None \<Rightarrow> [SkuidReturn, SkgidReturn]) @
       (if fs_inline_rules rs \<noteq> [] then [JumpInline] else []) @
       map RuleLine (concat (map (rr_lines \<circ> snd) outb)) @ (if fs_policy_attached rs then [RejectNonTcp] else [])"
proof -
  obtain inb c1 where inb: "render_each nft_render_rule (direction_chain FwInbound (fs_rules rs)) 0 = (inb, c1)"
    by (cases "render_each nft_render_rule (direction_chain FwInbound (fs_rules rs)) 0")
  obtain outb c2 where outb: "render_each nft_render_rule (direction_chain FwOutbound (fs_rules rs)) c1 = (outb, c2)"
    by (cases "render_each nft_render_rule (direction_chain FwOutbound (fs_rules rs)) c1")
  obtain inl c3 where inl: "render_each nft_render_inline (sort_key fr_priority (fs_inline_rules rs)) c2 = (inl, c3)"
    by (cases "render_each nft_render_inline (sort_key fr_priority (fs_inline_rules rs)) c2")
  note spec = render_each_spec [OF assms]
  note specs = spec [OF inb [unfolded nft_render_rule_act(1)]] spec [OF outb [unfolded nft_render_rule_act(1)]]
    spec [OF inl [unfolded nft_render_rule_act(2)]]
  have sets: "sc_sets (nft_compile b rs) = concat (map (rr_sets \<circ> snd) (inb @ outb @ inl))"
    using inb outb inl by (simp add: nft_compile_def direction_chain_def Let_def)
  have "numbered 0 c3 (sc_sets (nft_compile b rs))"
    unfolding sets map_append concat_append using specs by (blast intro: numbered_append)
  then have look: "lookup_ok (sc_sets (nft_compile b rs)) (sc_sets (nft_compile b rs))"
    by (intro distinct_lookup numbered_distinct)
  show thesis
    by (rule that [OF _ _ _ _ _ _ sets look])
      (use specs inb outb inl in \<open>simp_all add: rendered_def nft_compile_def direction_chain_def Let_def\<close>)
qed

lemma nft_run_policy_part:
  assumes "pk_proto (cx_packet cx) \<noteq> L4Tcp"
    and "first_verdict (nft_line_matches N T (cx_packet cx)) nl_action inl = map_option return_verdict vi"
    and "first_verdict (nft_line_matches N T (cx_packet cx)) nl_action ls = map_option accept_verdict vr"
    and "\<not> has_inline \<Longrightarrow> vi = None"
  shows "nft_run N T inl cx ((if has_inline then [JumpInline] else []) @ map RuleLine ls @
      (if attached then [RejectNonTcp] else [])) \<longleftrightarrow>
    vi \<noteq> Some FwDeny \<and> (case vr of Some a \<Rightarrow> a = FwAllow | None \<Rightarrow> \<not> attached)"
  using assms
  by (cases has_inline; cases vi; cases vr)
    (auto simp: nft_run_rules nft_run_rules [of _ _ _ _ _ "[]", simplified] split: RuleAction.splits)

lemma nft_compiled_verdicts:
  assumes "family_sound N" "packet_wf p" "pk_proto p \<noteq> L4Tcp"
    and "list_all (\<lambda>r. clauses_independent (fr_clauses r)) rules"
    and "set (map fst prs) \<subseteq> set rules" "rendered act prs"
    and "lookup_ok T T" "set (concat (map (rr_sets \<circ> snd) prs)) \<subseteq> set T"
  shows "first_verdict (nft_line_matches N T p) nl_action (concat (map (rr_lines \<circ> snd) prs)) =
    map_option act (first_verdict (fr_matches N p) fr_action (map fst prs))"
proof (rule rendered_verdict [OF assms(2,3,1) assms(6) [unfolded rendered_def]])
  show "\<forall>(rule, rr) \<in> set prs. clauses_independent (fr_clauses rule)"
    using assms(4,5) by (force simp: list_all_iff)
  show "lookup_ok T (concat (map (rr_sets \<circ> snd) prs))"
    using assms(7,8) by (auto simp: lookup_ok_def)
qed

lemma direction_lines:
  "map fst inl = sort_key fr_priority rules \<Longrightarrow>
     map fst (filter (\<lambda>(rule, _). fr_direction rule = d) inl) = direction_chain d rules"
  using filter_map [of "\<lambda>rule. fr_direction rule = d" fst inl]
  by (simp add: direction_chain_def filter_sort comp_def case_prod_beta')

text \<open>
  The chains of the compiled script: their fixed statements, and lines whose verdicts, under the
  sets of the script, are those of the rules.
\<close>

lemma nft_compile_chains:
  fixes b :: NftBackend
  assumes "family_sound N" "packet_wf p" "pk_proto p \<noteq> L4Tcp"
    and "list_all (\<lambda>r. clauses_independent (fr_clauses r)) (fs_rules rs @ fs_inline_rules rs)"
  defines "verdict \<equiv> first_verdict (nft_line_matches N (sc_sets (nft_compile b rs)) p) nl_action"
    and "rule_verdict \<equiv> (\<lambda>d rules. first_verdict (fr_matches N p) fr_action (direction_chain d rules))"
  obtains ins outs where
    "sc_input (nft_compile b rs) =
       [CtEstablished, IifLo] @ (if fs_inline_rules rs \<noteq> [] then [JumpInline] else []) @
       map RuleLine ins @ (if fs_policy_attached rs then [RejectNonTcp] else [])"
    "sc_output (nft_compile b rs) =
       [CtEstablished, OifLo] @
       (case nb_proxy_mark b of Some mark \<Rightarrow> [MarkReturn mark] | None \<Rightarrow> [SkuidReturn, SkgidReturn]) @
       (if fs_inline_rules rs \<noteq> [] then [JumpInline] else []) @
       map RuleLine outs @ (if fs_policy_attached rs then [RejectNonTcp] else [])"
    "verdict ins = map_option accept_verdict (rule_verdict FwInbound (fs_rules rs))"
    "verdict outs = map_option accept_verdict (rule_verdict FwOutbound (fs_rules rs))"
    "verdict (sc_inline_input (nft_compile b rs)) =
       map_option return_verdict (rule_verdict FwInbound (fs_inline_rules rs))"
    "verdict (sc_inline_output (nft_compile b rs)) =
       map_option return_verdict (rule_verdict FwOutbound (fs_inline_rules rs))"
proof (rule nft_compile_cases [OF assms(2), of rs b])
  let ?T = "sc_sets (nft_compile b rs)"
  fix inb outb inl
  assume inb: "map fst inb = direction_chain FwInbound (fs_rules rs)" "rendered accept_verdict inb"
    and outb: "map fst outb = direction_chain FwOutbound (fs_rules rs)" "rendered accept_verdict outb"
    and inl: "map fst inl = sort_key fr_priority (fs_inline_rules rs)" "rendered return_verdict inl"
    and T: "?T = concat (map (rr_sets \<circ> snd) (inb @ outb @ inl))" "lookup_ok ?T ?T"
    and inline: "sc_inline_input (nft_compile b rs) =
        concat (map (rr_lines \<circ> snd) (filter (\<lambda>(rule, _). fr_direction rule = FwInbound) inl))"
      "sc_inline_output (nft_compile b rs) =
        concat (map (rr_lines \<circ> snd) (filter (\<lambda>(rule, _). fr_direction rule = FwOutbound) inl))"
  note result = that and verdict = nft_compiled_verdicts [OF assms(1-4) _ _ T(2)]
  have sub: "set (map fst inb) \<subseteq> set (fs_rules rs @ fs_inline_rules rs)"
    "set (map fst outb) \<subseteq> set (fs_rules rs @ fs_inline_rules rs)"
    "set (map fst inl) \<subseteq> set (fs_rules rs @ fs_inline_rules rs)"
    unfolding inb(1) outb(1) inl(1) by (auto simp: direction_chain_def)
  note inline' = direction_lines [OF inl(1), symmetric]
  show thesis
    if "sc_input (nft_compile b rs) = [CtEstablished, IifLo] @
          (if fs_inline_rules rs \<noteq> [] then [JumpInline] else []) @
          map RuleLine (concat (map (rr_lines \<circ> snd) inb)) @ (if fs_policy_attached rs then [RejectNonTcp] else [])"
      "sc_output (nft_compile b rs) = [CtEstablished, OifLo] @
          (case nb_proxy_mark b of Some mark \<Rightarrow> [MarkReturn mark] | None \<Rightarrow> [SkuidReturn, SkgidReturn]) @
          (if fs_inline_rules rs \<noteq> [] then [JumpInline] else []) @
          map RuleLine (concat (map (rr_lines \<circ> snd) outb)) @ (if fs_policy_attached rs then [RejectNonTcp] else [])"
    by (rule result [OF that]; unfold verdict_def rule_verdict_def inline inline' inb(1) [symmetric]
          outb(1) [symmetric]; rule verdict)
      (use sub inb(2) outb(2) inl(2) in \<open>auto simp: T(1) rendered_def image_subset_iff\<close>)
qed

lemma nft_decides:
  assumes "family_sound N" "packet_wf (cx_packet cx)" "pk_proto (cx_packet cx) \<noteq> L4Tcp"
    and "list_all (\<lambda>r. clauses_independent (fr_clauses r)) (fs_rules rs @ fs_inline_rules rs)"
  shows "nft_accepts N (nft_compile b rs) d cx \<longleftrightarrow>
    nft_bypass b d cx \<or> ruleset_accepts N d rs (cx_packet cx)"
proof (rule nft_compile_chains [OF assms, of b])
  let ?verdict = "first_verdict (nft_line_matches N (sc_sets (nft_compile b rs)) (cx_packet cx)) nl_action"
  let ?rule_verdict = "\<lambda>d rules. first_verdict (fr_matches N (cx_packet cx)) fr_action (direction_chain d rules)"
  fix ins outs
  assume inp: "sc_input (nft_compile b rs) =
      [CtEstablished, IifLo] @ (if fs_inline_rules rs \<noteq> [] then [JumpInline] else []) @
      map RuleLine ins @ (if fs_policy_attached rs then [RejectNonTcp] else [])"
    and outp: "sc_output (nft_compile b rs) =
      [CtEstablished, OifLo] @
      (case nb_proxy_mark b of Some mark \<Rightarrow> [MarkReturn mark] | None \<Rightarrow> [SkuidReturn, SkgidReturn]) @
      (if fs_inline_rules rs \<noteq> [] then [JumpInline] else []) @
      map RuleLine outs @ (if fs_policy_attached rs then [RejectNonTcp] else [])"
    and rules: "?verdict ins = map_option accept_verdict (?rule_verdict FwInbound (fs_rules rs))"
      "?verdict outs = map_option accept_verdict (?rule_verdict FwOutbound (fs_rules rs))"
    and inline: "?verdict (sc_inline_input (nft_compile b rs)) =
        map_option return_verdict (?rule_verdict FwInbound (fs_inline_rules rs))"
      "?verdict (sc_inline_output (nft_compile b rs)) =
        map_option return_verdict (?rule_verdict FwOutbound (fs_inline_rules rs))"
  have none: "?rule_verdict d' (fs_inline_rules rs) = None" if "\<not> fs_inline_rules rs \<noteq> []" for d'
    using that by (simp add: direction_chain_def)
  have run: "nft_run N (sc_sets (nft_compile b rs)) il cx
      ((if fs_inline_rules rs \<noteq> [] then [JumpInline] else []) @ map RuleLine ls @
       (if fs_policy_attached rs then [RejectNonTcp] else [])) \<longleftrightarrow> ruleset_accepts N d' rs (cx_packet cx)"
    if "?verdict il = map_option return_verdict (?rule_verdict d' (fs_inline_rules rs))"
      "?verdict ls = map_option accept_verdict (?rule_verdict d' (fs_rules rs))" for il ls d'
    unfolding ruleset_accepts_def by (rule nft_run_policy_part [OF assms(3) that none])
  have skip: "nft_run N T il cx ((case nb_proxy_mark b of Some mark \<Rightarrow> [MarkReturn mark]
      | None \<Rightarrow> [SkuidReturn, SkgidReturn]) @ ss) \<longleftrightarrow>
      (case nb_proxy_mark b of Some mark \<Rightarrow> cx_mark cx = mark | None \<Rightarrow> cx_uid cx = 1337 \<or> cx_gid cx = 1337) \<or>
      nft_run N T il cx ss" for T il ss
    by (simp split: option.splits)
  show ?thesis
    unfolding nft_accepts_def inp outp append_Cons append_Nil nft_run.simps skip
      run [OF inline(1) rules(1)] run [OF inline(2) rules(2)]
    by (cases d) (simp_all add: nft_bypass_def)
qed

interpretation nft: firewall_backend "\<lambda>N rs. nft_accepts N (nft_compile b rs)" "nft_bypass b" "\<lambda>_. True"
  by unfold_locales (rule nft_decides)

text \<open>
  The generated nftables script decides packets as the rule set says. For every packet that is not
  TCP, the input and output chains accept exactly the packets their fixed first rules let through
  (established connections, loopback, and on output the proxy's own traffic) and the packets the
  rule set accepts: the inline gate does not deny, and the first matching workload rule by priority
  allows, or none matches and no policy is attached. The statement covers the clause expansion, the
  split by address family, anonymous and named sets with their generated names, and the jump to the
  inline chain.
\<close>

theorem nft_accepts_iff:
  assumes "family_sound N" "packet_wf (cx_packet cx)" "pk_proto (cx_packet cx) \<noteq> L4Tcp"
    and "list_all (\<lambda>r. clauses_independent (fr_clauses r)) (fs_rules rs @ fs_inline_rules rs)"
  shows "nft_accepts N (nft_compile b rs) d cx \<longleftrightarrow>
    nft_bypass b d cx \<or> ruleset_accepts N d rs (cx_packet cx)"
  using assms by (rule nft_decides)

theorem nft_accepts_iff_witness:
  "packet_wf (example_packet 0x0A090909 53) \<and>
   \<not> nft_accepts cidr_ops (nft_compile (nft_skip_mark 1337 nft_new) example_ruleset) FwInbound
       (example_ctx (example_packet 0x0A090909 53))"
proof -
  have wf: "packet_wf (cx_packet (example_ctx (example_packet 0x0A090909 53)))"
    by (simp add: packet_wf_def example_ctx_def example_packet_def)
  have "list_all (\<lambda>r. clauses_independent (fr_clauses r)) (fs_rules example_ruleset @ fs_inline_rules example_ruleset)"
    by (simp add: example_ruleset_def)
  then show ?thesis
    using nft_accepts_iff [OF family_sound_cidr wf, of example_ruleset "nft_skip_mark 1337 nft_new" FwInbound] wf
    by (simp add: example_ctx_def example_packet_def example_ruleset_def nft_bypass_def ruleset_accepts_def
        direction_chain_def fr_matches_def fm_matches_def nets_match_def groups_match_def group_matches_def
        ranges_match_def range_contains_def cidr_ops_def cidr_contains_def)
qed

text \<open>The script of the golden file \<^verbatim>\<open>testdata/inpod_mixed_rules.nft\<close>, character by character.\<close>

lemma nft_golden_inpod_mixed_rules:
  "nft_render_ruleset cidr_ops (nft_skip_mark 1337 nft_new) example_ruleset =
     concat (map (\<lambda>l. l @ nl)
       [''add table inet ztunnel'',
        ''delete table inet ztunnel'',
        ''table inet ztunnel {'',
        ''  chain zt_policy_input {'',
        ''    type filter hook input priority -150; policy accept;'',
        ''    ct state established,related accept'',
        ''    iif lo accept'',
        ''    ip saddr 10.0.0.0/8 meta l4proto { udp, sctp } th dport 53 reject comment '' @
          [dquote] @ ''deny-dns-in'' @ [dquote],
        ''    meta l4proto != tcp reject'',
        ''  }'',
        ''  chain zt_policy_output {'',
        ''    type filter hook output priority -150; policy accept;'',
        ''    ct state established,related accept'',
        ''    oif lo accept'',
        ''    meta mark 1337 return'',
        ''    ip daddr 8.8.8.0/24 meta l4proto { udp, sctp } th dport 53 accept comment '' @
          [dquote] @ ''allow-dns-out'' @ [dquote],
        ''    meta l4proto != tcp reject'',
        ''  }'',
        ''}''])"
  by (simp add: nft_render_ruleset_def nft_compile_def example_ruleset_def render_each_def
      nft_render_rule_def render_rule_with_action_def nft_flatten_clauses_def expand_clauses_def
      nft_merge_def nft_default_flat_def is_no_port_restriction_def rule_pairs_def render_pair_def
      family_groups_def group_by_family_def net_is_v4_def render_ip_match_def effective_family_def
      render_port_group_def indented_def nft_line_text_def format_nft_ports_def nft_port_text_def
      nft_skip_mark_def nft_new_def escape_comment_def dquote_def backslash_def nl_def cidr_ops_def
      cidr_display_def octet_def show_nat.simps digit_chars Let_def)

end
