(* ===== verification/Ipt.thy ===== *)
theory Ipt
  imports Firewall
begin

text \<open>
  The iptables backend, \<^verbatim>\<open>src/firewall/backend/ipt.rs\<close>. As in \<open>Nft\<close>, the fragments the code formats
  are syntax trees until printed: the \<open>proto_str\<close> of a flat match is an \<open>ipt_proto\<close>, its
  \<open>port_suffix\<close> the list of port ranges it prints (empty for the empty string), and a line of the
  \<open>iptables-restore\<close> input an \<open>ipt_cmd\<close>. iptables handles IPv4 packets only.
\<close>

section \<open>Syntax of the generated commands\<close>

datatype ipt_proto = PNotTcp | PUdp | PSctp | PIcmp

record FlatMatch =
  fl_source :: "IpNet option"
  fl_dest :: "IpNet option"
  fl_proto :: ipt_proto
  fl_ports :: "port_range list"

datatype ipt_chain = FilterIn | FilterOut | InlineIn | InlineOut

datatype ipt_target = TAccept | TReject | TReturn

datatype ipt_rule =
    ConntrackAccept
  | LoopbackIn
  | LoopbackOut
  | MarkRet u32
  | DnsOriginal
  | UidRet
  | GidRet
  | JumpTo ipt_chain
  | FlatRule FlatMatch ipt_target
  | RejectRest

datatype ipt_cmd =
    TableFilter
  | DeclareChain ipt_chain
  | FlushChain ipt_chain
  | AppendRule ipt_chain ipt_rule
  | Commit

record IptBackend =
  ib_iptables_bin :: string
  ib_restore_bin :: string
  ib_netns_path :: "string option"
  ib_proxy_mark :: "u32 option"
  ib_dns_proxy :: bool
  ib_workload_name :: "string option"
  ib_workload_namespace :: "string option"

section \<open>Rendering\<close>

definition ipt_new :: IptBackend where
  "ipt_new = \<lparr>ib_iptables_bin = ''iptables'', ib_restore_bin = ''iptables-restore'', ib_netns_path = None,
     ib_proxy_mark = None, ib_dns_proxy = False, ib_workload_name = None, ib_workload_namespace = None\<rparr>"

definition ipt_with_binaries :: "string \<Rightarrow> string \<Rightarrow> IptBackend \<Rightarrow> IptBackend" where
  "ipt_with_binaries iptables_bin restore_bin b =
     b\<lparr>ib_iptables_bin := iptables_bin, ib_restore_bin := restore_bin\<rparr>"

definition ipt_in_netns :: "string \<Rightarrow> IptBackend \<Rightarrow> IptBackend" where
  "ipt_in_netns path b = b\<lparr>ib_netns_path := Some path\<rparr>"

definition ipt_skip_mark :: "u32 \<Rightarrow> IptBackend \<Rightarrow> IptBackend" where
  "ipt_skip_mark mark b = b\<lparr>ib_proxy_mark := Some mark\<rparr>"

definition ipt_dns_proxy :: "bool \<Rightarrow> IptBackend \<Rightarrow> IptBackend" where
  "ipt_dns_proxy enabled b = b\<lparr>ib_dns_proxy := enabled\<rparr>"

definition ipt_with_workload_info :: "string \<Rightarrow> string \<Rightarrow> IptBackend \<Rightarrow> IptBackend" where
  "ipt_with_workload_info name namespace b =
     b\<lparr>ib_workload_name := Some name, ib_workload_namespace := Some namespace\<rparr>"

text \<open>
  The multiport chunks: at most 15 entries, a proper range counting twice. A chunk is the list of its
  ranges; the loop carries the open chunk and its weight.
\<close>

definition port_weight :: "port_range \<Rightarrow> nat" where
  "port_weight r = (if fst r = snd r then 1 else 2)"

fun port_chunks :: "port_range list \<Rightarrow> port_range list \<Rightarrow> nat \<Rightarrow> port_range list list" where
  "port_chunks [] chunk weight = (if chunk \<noteq> [] then [chunk] else [])"
| "port_chunks (r # rs) chunk weight =
     (if chunk \<noteq> [] \<and> weight + port_weight r > 15 then chunk # port_chunks rs [r] (0 + port_weight r)
      else port_chunks rs (chunk @ [r]) (weight + port_weight r))"

definition render_port_suffixes :: "port_range list \<Rightarrow> port_range list list" where
  "render_port_suffixes ports =
     (if ports = [] then [[]]
      else if length ports = 1 then [[ports ! 0]]
      else port_chunks ports [] 0)"

definition expand_port_group :: "PortGroup \<Rightarrow> (ipt_proto \<times> port_range list) list" where
  "expand_port_group g =
     (case pg_protocol g of
        NonTcp \<Rightarrow>
          (if pg_ports g = [] then [(PNotTcp, [])]
           else map (Pair PUdp) (render_port_suffixes (pg_ports g)) @
                map (Pair PSctp) (render_port_suffixes (pg_ports g)))
      | FwUdp \<Rightarrow> map (Pair PUdp) (render_port_suffixes (pg_ports g))
      | FwSctp \<Rightarrow> map (Pair PSctp) (render_port_suffixes (pg_ports g))
      | FwIcmp \<Rightarrow> [(PIcmp, [])])"

definition expand_port_groups :: "PortGroup list \<Rightarrow> (ipt_proto \<times> port_range list) list" where
  "expand_port_groups gs = concat (map expand_port_group gs)"

definition ipt_default_flat :: FlatMatch where
  "ipt_default_flat = \<lparr>fl_source = None, fl_dest = None, fl_proto = PNotTcp, fl_ports = []\<rparr>"

definition ipt_merge :: "FlatMatch \<Rightarrow> FirewallMatch \<Rightarrow> FlatMatch list" where
  "ipt_merge e m =
     (let sources = (if fm_source_ips m = [] then [fl_source e] else map Some (fm_source_ips m));
          dests = (if fm_dest_ips m = [] then [fl_dest e] else map Some (fm_dest_ips m));
          proto_ports = (if is_no_port_restriction m then [(fl_proto e, fl_ports e)]
                         else expand_port_groups (fm_port_groups m))
      in concat (map (\<lambda>src. concat (map (\<lambda>dst. map (\<lambda>(proto, suffix).
           \<lparr>fl_source = src, fl_dest = dst, fl_proto = proto, fl_ports = suffix\<rparr>) proto_ports) dests)) sources))"

definition ipt_flatten_clauses :: "FirewallMatch list list \<Rightarrow> FlatMatch list" where
  "ipt_flatten_clauses clauses = expand_clauses ipt_merge ipt_default_flat clauses"

definition is_v6_net :: "IpNet option \<Rightarrow> bool" where
  "is_v6_net n = (case n of None \<Rightarrow> False | Some c \<Rightarrow> \<not> net_is_v4 c)"

definition ipt_flat_lines :: "FirewallRule \<Rightarrow> FlatMatch list" where
  "ipt_flat_lines rule =
     filter (\<lambda>flat. \<not> is_v6_net (fl_source flat) \<and> \<not> is_v6_net (fl_dest flat))
       (ipt_flatten_clauses (fr_clauses rule))"

definition render_rule_in_chain :: "FirewallRule \<Rightarrow> ipt_chain \<Rightarrow> ipt_target \<Rightarrow> ipt_cmd list" where
  "render_rule_in_chain rule chain action =
     map (\<lambda>flat. AppendRule chain (FlatRule flat action)) (ipt_flat_lines rule)"

definition filter_chain :: "FwDirection \<Rightarrow> ipt_chain" where
  "filter_chain d = (case d of FwInbound \<Rightarrow> FilterIn | FwOutbound \<Rightarrow> FilterOut)"

definition inline_chain :: "FwDirection \<Rightarrow> ipt_chain" where
  "inline_chain d = (case d of FwInbound \<Rightarrow> InlineIn | FwOutbound \<Rightarrow> InlineOut)"

definition ipt_render_rule :: "FirewallRule \<Rightarrow> ipt_cmd list" where
  "ipt_render_rule rule =
     render_rule_in_chain rule (filter_chain (fr_direction rule))
       (case fr_action rule of FwAllow \<Rightarrow> TAccept | FwDeny \<Rightarrow> TReject)"

definition ipt_render_inline :: "FirewallRule \<Rightarrow> ipt_cmd list" where
  "ipt_render_inline rule =
     render_rule_in_chain rule (inline_chain (fr_direction rule))
       (case fr_action rule of FwAllow \<Rightarrow> TReturn | FwDeny \<Rightarrow> TReject)"

definition ipt_compile :: "IptBackend \<Rightarrow> FwRuleSet \<Rightarrow> ipt_cmd list" where
  "ipt_compile b ruleset =
     [TableFilter] @
     (if fs_inline_rules ruleset \<noteq> []
      then map DeclareChain [InlineIn, InlineOut] @ map FlushChain [InlineIn, InlineOut] else []) @
     [FlushChain FilterIn, FlushChain FilterOut,
      AppendRule FilterIn ConntrackAccept, AppendRule FilterOut ConntrackAccept,
      AppendRule FilterIn LoopbackIn, AppendRule FilterOut LoopbackOut] @
     (case ib_proxy_mark b of
        Some mark \<Rightarrow>
          [AppendRule FilterOut (MarkRet mark)] @
          (if ib_dns_proxy b then [AppendRule FilterOut DnsOriginal] else [])
      | None \<Rightarrow> [AppendRule FilterOut UidRet, AppendRule FilterOut GidRet]) @
     (if fs_inline_rules ruleset \<noteq> []
      then [AppendRule FilterIn (JumpTo InlineIn), AppendRule FilterOut (JumpTo InlineOut)] @
           concat (map ipt_render_inline (sort_key fr_priority (fs_inline_rules ruleset)))
      else []) @
     concat (map ipt_render_rule (sort_key fr_priority (fs_rules ruleset))) @
     (if fs_policy_attached ruleset
      then [AppendRule FilterIn RejectRest, AppendRule FilterOut RejectRest] else []) @
     [Commit]"

section \<open>Printing\<close>

definition ipt_port_text :: "port_range \<Rightarrow> string" where
  "ipt_port_text r =
     (if fst r = snd r then show_nat (unat (fst r))
      else show_nat (unat (fst r)) @ '':'' @ show_nat (unat (snd r)))"

definition format_port_suffix :: "port_range list \<Rightarrow> string" where
  "format_port_suffix ports =
     (if length ports = 1 then ''--dport '' @ ipt_port_text (ports ! 0)
      else ''-m multiport --dports '' @ join '','' (map ipt_port_text ports))"

fun ipt_proto_text :: "ipt_proto \<Rightarrow> string" where
  "ipt_proto_text PNotTcp = ''! -p tcp''"
| "ipt_proto_text PUdp = ''-p udp''"
| "ipt_proto_text PSctp = ''-p sctp''"
| "ipt_proto_text PIcmp = ''-p icmp''"

fun ipt_chain_text :: "ipt_chain \<Rightarrow> string" where
  "ipt_chain_text FilterIn = ''ISTIO_FW_FILTER_IN''"
| "ipt_chain_text FilterOut = ''ISTIO_FW_FILTER_OUT''"
| "ipt_chain_text InlineIn = ''ISTIO_FW_INLINE_IN''"
| "ipt_chain_text InlineOut = ''ISTIO_FW_INLINE_OUT''"

fun ipt_target_text :: "ipt_target \<Rightarrow> string" where
  "ipt_target_text TAccept = ''ACCEPT''"
| "ipt_target_text TReject = ''REJECT''"
| "ipt_target_text TReturn = ''RETURN''"

fun ipt_rule_parts :: "ipnet_ops \<Rightarrow> ipt_rule \<Rightarrow> string list" where
  "ipt_rule_parts N ConntrackAccept = [''-m conntrack --ctstate ESTABLISHED,RELATED -j ACCEPT'']"
| "ipt_rule_parts N LoopbackIn = [''-i lo -j ACCEPT'']"
| "ipt_rule_parts N LoopbackOut = [''-o lo -j ACCEPT'']"
| "ipt_rule_parts N (MarkRet mark) = [''-m mark --mark '' @ show_nat (unat mark) @ '' -j RETURN'']"
| "ipt_rule_parts N DnsOriginal = [''-p udp -m conntrack --ctorigdstport 53 --ctdir ORIGINAL -j ACCEPT'']"
| "ipt_rule_parts N UidRet = [''-m owner --uid-owner 1337 -j RETURN'']"
| "ipt_rule_parts N GidRet = [''-m owner --gid-owner 1337 -j RETURN'']"
| "ipt_rule_parts N (JumpTo c) = [''! -p tcp -j '' @ ipt_chain_text c]"
| "ipt_rule_parts N (FlatRule flat action) =
     (case fl_source flat of None \<Rightarrow> [] | Some cidr \<Rightarrow> [''-s '' @ net_display N cidr]) @
     (case fl_dest flat of None \<Rightarrow> [] | Some cidr \<Rightarrow> [''-d '' @ net_display N cidr]) @
     [ipt_proto_text (fl_proto flat)] @
     (if fl_ports flat = [] then [] else [format_port_suffix (fl_ports flat)]) @
     [''-j '' @ ipt_target_text action]"
| "ipt_rule_parts N RejectRest = [''! -p tcp -j REJECT'']"

fun ipt_cmd_text :: "ipnet_ops \<Rightarrow> ipt_cmd \<Rightarrow> string" where
  "ipt_cmd_text N TableFilter = ''*filter''"
| "ipt_cmd_text N (DeclareChain c) = '':'' @ ipt_chain_text c @ '' - [0:0]''"
| "ipt_cmd_text N (FlushChain c) = ''-F '' @ ipt_chain_text c"
| "ipt_cmd_text N (AppendRule c r) = join '' '' ((''-A '' @ ipt_chain_text c) # ipt_rule_parts N r)"
| "ipt_cmd_text N Commit = ''COMMIT''"

definition ipt_render_ruleset :: "ipnet_ops \<Rightarrow> IptBackend \<Rightarrow> FwRuleSet \<Rightarrow> string" where
  "ipt_render_ruleset N b ruleset = join [CHR 0x0A] (map (ipt_cmd_text N) (ipt_compile b ruleset))"

section \<open>Meaning of the commands\<close>

definition ipt_proto_matches :: "Packet \<Rightarrow> ipt_proto \<Rightarrow> bool" where
  "ipt_proto_matches p proto =
     (case proto of
        PNotTcp \<Rightarrow> pk_proto p \<noteq> L4Tcp
      | PUdp \<Rightarrow> pk_proto p = L4Udp
      | PSctp \<Rightarrow> pk_proto p = L4Sctp
      | PIcmp \<Rightarrow> pk_proto p = L4Icmp)"

definition flat_matches :: "ipnet_ops \<Rightarrow> Packet \<Rightarrow> FlatMatch \<Rightarrow> bool" where
  "flat_matches N p f =
     ((case fl_source f of None \<Rightarrow> True | Some c \<Rightarrow> net_contains N c (pk_src p)) \<and>
      (case fl_dest f of None \<Rightarrow> True | Some c \<Rightarrow> net_contains N c (pk_dst p)) \<and>
      ipt_proto_matches p (fl_proto f) \<and>
      (fl_ports f = [] \<or> ranges_match (fl_ports f) (pk_dport p)))"

text \<open>The rules a command list appends to a chain, in order, and the run of a filter chain.\<close>

definition chain_rules :: "ipt_chain \<Rightarrow> ipt_cmd list \<Rightarrow> ipt_rule list" where
  "chain_rules c cmds = List.map_filter (\<lambda>cmd. case cmd of AppendRule c' r \<Rightarrow> if c' = c then Some r else None | _ \<Rightarrow> None) cmds"

fun inline_verdict :: "ipnet_ops \<Rightarrow> Packet \<Rightarrow> ipt_rule list \<Rightarrow> ipt_target option" where
  "inline_verdict N p [] = None"
| "inline_verdict N p (FlatRule f t # rs) = (if flat_matches N p f then Some t else inline_verdict N p rs)"
| "inline_verdict N p (_ # rs) = inline_verdict N p rs"

fun ipt_run :: "ipnet_ops \<Rightarrow> (ipt_chain \<Rightarrow> ipt_rule list) \<Rightarrow> PacketCtx \<Rightarrow> ipt_rule list \<Rightarrow> bool" where
  "ipt_run N tbl cx [] = True"
| "ipt_run N tbl cx (ConntrackAccept # rs) = (cx_established cx \<or> ipt_run N tbl cx rs)"
| "ipt_run N tbl cx (LoopbackIn # rs) = (cx_loopback cx \<or> ipt_run N tbl cx rs)"
| "ipt_run N tbl cx (LoopbackOut # rs) = (cx_loopback cx \<or> ipt_run N tbl cx rs)"
| "ipt_run N tbl cx (MarkRet m # rs) = (cx_mark cx = m \<or> ipt_run N tbl cx rs)"
| "ipt_run N tbl cx (DnsOriginal # rs) =
     (pk_proto (cx_packet cx) = L4Udp \<and> cx_orig_dport cx = 53 \<or> ipt_run N tbl cx rs)"
| "ipt_run N tbl cx (UidRet # rs) = (cx_uid cx = 1337 \<or> ipt_run N tbl cx rs)"
| "ipt_run N tbl cx (GidRet # rs) = (cx_gid cx = 1337 \<or> ipt_run N tbl cx rs)"
| "ipt_run N tbl cx (JumpTo c # rs) =
     (if pk_proto (cx_packet cx) \<noteq> L4Tcp then
        (case inline_verdict N (cx_packet cx) (tbl c) of
           Some TAccept \<Rightarrow> True
         | Some TReject \<Rightarrow> False
         | _ \<Rightarrow> ipt_run N tbl cx rs)
      else ipt_run N tbl cx rs)"
| "ipt_run N tbl cx (FlatRule f t # rs) =
     (if flat_matches N (cx_packet cx) f then t \<noteq> TReject else ipt_run N tbl cx rs)"
| "ipt_run N tbl cx (RejectRest # rs) =
     (\<not> pk_proto (cx_packet cx) \<noteq> L4Tcp \<and> ipt_run N tbl cx rs)"

definition ipt_accepts :: "ipnet_ops \<Rightarrow> ipt_cmd list \<Rightarrow> FwDirection \<Rightarrow> PacketCtx \<Rightarrow> bool" where
  "ipt_accepts N cmds d cx =
     ipt_run N (\<lambda>c. chain_rules c cmds) cx (chain_rules (filter_chain d) cmds)"

definition ipt_bypass :: "IptBackend \<Rightarrow> FwDirection \<Rightarrow> PacketCtx \<Rightarrow> bool" where
  "ipt_bypass b d cx =
     (cx_established cx \<or> cx_loopback cx \<or>
      (d = FwOutbound \<and>
       (case ib_proxy_mark b of
          Some mark \<Rightarrow> cx_mark cx = mark \<or>
            ib_dns_proxy b \<and> pk_proto (cx_packet cx) = L4Udp \<and> cx_orig_dport cx = 53
        | None \<Rightarrow> cx_uid cx = 1337 \<or> cx_gid cx = 1337)))"

definition pair_match :: "Packet \<Rightarrow> ipt_proto \<times> port_range list \<Rightarrow> bool" where
  "pair_match p = (\<lambda>(proto, ch). ipt_proto_matches p proto \<and> (ch = [] \<or> ranges_match ch (pk_dport p)))"

definition opt_match :: "ipnet_ops \<Rightarrow> IpAddr \<Rightarrow> IpNet option \<Rightarrow> bool" where
  "opt_match N a n = (case n of None \<Rightarrow> True | Some c \<Rightarrow> net_contains N c a)"

definition flat_lines :: "(RuleAction \<Rightarrow> ipt_target) \<Rightarrow> FirewallRule \<Rightarrow> (FlatMatch \<times> ipt_target) list" where
  "flat_lines act rule = map (\<lambda>f. (f, act (fr_action rule))) (ipt_flat_lines rule)"

definition rule_lines :: "(RuleAction \<Rightarrow> ipt_target) \<Rightarrow> FirewallRule list \<Rightarrow> ipt_rule list" where
  "rule_lines act rules = map (\<lambda>(f, t). FlatRule f t) (concat (map (flat_lines act) rules))"

abbreviation accept_target :: "RuleAction \<Rightarrow> ipt_target" where
  "accept_target a \<equiv> (case a of FwAllow \<Rightarrow> TAccept | FwDeny \<Rightarrow> TReject)"

abbreviation return_target :: "RuleAction \<Rightarrow> ipt_target" where
  "return_target a \<equiv> (case a of FwAllow \<Rightarrow> TReturn | FwDeny \<Rightarrow> TReject)"

section \<open>Lemmas\<close>

lemma port_chunks_concat: "concat (port_chunks rs chunk w) = chunk @ rs"
  by (induction rs chunk w rule: port_chunks.induct) auto

lemma port_chunks_not_Nil: "c \<in> set (port_chunks rs chunk w) \<Longrightarrow> c \<noteq> []"
  by (induction rs chunk w rule: port_chunks.induct) (auto split: if_splits)

lemma port_chunks_weight:
  "w = sum_list (map port_weight chunk) \<Longrightarrow> w \<le> 15 \<Longrightarrow> c \<in> set (port_chunks rs chunk w) \<Longrightarrow>
     sum_list (map port_weight c) \<le> 15"
proof (induction rs chunk w rule: port_chunks.induct)
  case (2 r rs chunk weight)
  then show ?case
    by (cases "chunk \<noteq> [] \<and> weight + port_weight r > 15") (auto simp: port_weight_def)
qed (auto split: if_splits)

text \<open>
  iptables accepts at most 15 entries in one multiport match, a range taking two. The port
  suffixes of a rule respect this limit and lose nothing: laid end to end they are the ports of
  the rule, in order and without repetition, whatever their number.
\<close>

theorem render_port_suffixes_chunks:
  "concat (render_port_suffixes ports) = ports \<and>
   list_all (\<lambda>chunk. sum_list (map port_weight chunk) \<le> 15) (render_port_suffixes ports)"
  using port_chunks_weight [of 0 "[]" _ ports]
  by (cases ports)
    (auto simp: render_port_suffixes_def port_chunks_concat list_all_iff port_weight_def)

lemma suffix_match:
  "(\<exists>ch \<in> set (render_port_suffixes ports). ch = [] \<or> ranges_match ch q) \<longleftrightarrow>
     ports = [] \<or> ranges_match ports q"
proof -
  have "(\<exists>ch \<in> set chs. ranges_match ch q) \<longleftrightarrow> ranges_match (concat chs) q" for chs
    by (induction chs) (auto simp: ranges_match_def)
  moreover have "concat (render_port_suffixes ports) = ports"
    by (cases ports) (auto simp: render_port_suffixes_def port_chunks_concat)
  moreover have "ch \<noteq> []" if "ports \<noteq> []" "ch \<in> set (render_port_suffixes ports)" for ch
    using that port_chunks_not_Nil by (auto simp: render_port_suffixes_def split: if_splits)
  ultimately show ?thesis
    by (cases "ports = []") (auto simp: render_port_suffixes_def)
qed

lemma pair_match_pair:
  "pair_match p (proto, ch) \<longleftrightarrow> ipt_proto_matches p proto \<and> (ch = [] \<or> ranges_match ch (pk_dport p))"
  by (simp add: pair_match_def)

lemma expand_port_group_match:
  assumes "is_ipv4 (pk_dst p)"
  shows "(\<exists>q \<in> set (expand_port_group g). pair_match p q) \<longleftrightarrow> group_matches p g"
proof -
  have one: "(\<exists>q \<in> Pair proto ` set (render_port_suffixes ports). pair_match p q) \<longleftrightarrow>
      ipt_proto_matches p proto \<and> (ports = [] \<or> ranges_match ports (pk_dport p))" for proto ports
    using suffix_match [of ports "pk_dport p"] by (auto simp: pair_match_def)
  show ?thesis
    using assms
    by (cases "pg_protocol g")
      (auto simp: expand_port_group_def group_matches_def one bex_Un ipt_proto_matches_def icmp_of_def
        pair_match_pair simp del: bex_simps(7))
qed

lemma expand_port_groups_match:
  "is_ipv4 (pk_dst p) \<Longrightarrow>
     (\<exists>q \<in> set (expand_port_groups gs). pair_match p q) \<longleftrightarrow> list_ex (group_matches p) gs"
  by (induction gs) (simp_all add: expand_port_groups_def bex_Un expand_port_group_match)

lemma flat_matches_pair:
  "flat_matches N p \<lparr>fl_source = s, fl_dest = d, fl_proto = pr, fl_ports = ch\<rparr> \<longleftrightarrow>
     (case s of None \<Rightarrow> True | Some c \<Rightarrow> net_contains N c (pk_src p)) \<and>
     (case d of None \<Rightarrow> True | Some c \<Rightarrow> net_contains N c (pk_dst p)) \<and> pair_match p (pr, ch)"
  by (simp add: flat_matches_def pair_match_def)

lemma merge_nets:
  "e = None \<or> ns = [] \<Longrightarrow>
     (\<exists>n \<in> set (if ns = [] then [e] else map Some ns). opt_match N a n) \<longleftrightarrow> opt_match N a e \<and> nets_match N ns a"
  by (auto simp: opt_match_def nets_match_def list_ex_iff)

lemma ipt_merge_matches:
  "(\<exists>f \<in> set (ipt_merge e m). flat_matches N p f) \<longleftrightarrow>
     (\<exists>n \<in> set (if fm_source_ips m = [] then [fl_source e] else map Some (fm_source_ips m)).
        opt_match N (pk_src p) n) \<and>
     (\<exists>n \<in> set (if fm_dest_ips m = [] then [fl_dest e] else map Some (fm_dest_ips m)).
        opt_match N (pk_dst p) n) \<and>
     (\<exists>q \<in> set (if is_no_port_restriction m then [(fl_proto e, fl_ports e)]
                else expand_port_groups (fm_port_groups m)). pair_match p q)"
  unfolding ipt_merge_def Let_def opt_match_def
  by (simp only: set_concat set_map flat_matches_pair case_prod_beta bex_UN bex_simps image_image) force

interpretation ipt_clauses: clause_expansion ipt_merge ipt_default_flat flat_matches
  "\<lambda>e m. (fl_source e = None \<or> fm_source_ips m = []) \<and> (fl_dest e = None \<or> fm_dest_ips m = []) \<and>
     (fl_proto e = PNotTcp \<and> fl_ports e = [] \<or> is_no_port_restriction m)"
  "\<lambda>N p. pk_proto p \<noteq> L4Tcp \<and> is_ipv4 (pk_dst p)"
proof unfold_locales
  fix N and p :: Packet and e :: FlatMatch and m :: FirewallMatch
  assume scope: "pk_proto p \<noteq> L4Tcp \<and> is_ipv4 (pk_dst p)" and op:
    "(fl_source e = None \<or> fm_source_ips m = []) \<and> (fl_dest e = None \<or> fm_dest_ips m = []) \<and>
     (fl_proto e = PNotTcp \<and> fl_ports e = [] \<or> is_no_port_restriction m)"
  have ports: "(\<exists>q \<in> set (if is_no_port_restriction m then [(fl_proto e, fl_ports e)]
      else expand_port_groups (fm_port_groups m)). pair_match p q) \<longleftrightarrow>
    pair_match p (fl_proto e, fl_ports e) \<and> groups_match p (fm_port_groups m)"
    using op scope no_port_restriction_groups [of m p] expand_port_groups_match [of p "fm_port_groups m"]
    by (auto simp: pair_match_def ipt_proto_matches_def groups_match_def is_no_port_restriction_def)
  from op have nets: "fl_source e = None \<or> fm_source_ips m = []" "fl_dest e = None \<or> fm_dest_ips m = []"
    by blast+
  show "(\<exists>f \<in> set (ipt_merge e m). flat_matches N p f) = (flat_matches N p e \<and> fm_matches N p m)"
    unfolding ipt_merge_matches merge_nets [OF nets(1)] merge_nets [OF nets(2)] ports
    unfolding fm_matches_def flat_matches_def opt_match_def pair_match_pair
    by blast
qed (auto simp: flat_matches_def ipt_default_flat_def ipt_proto_matches_def ipt_merge_def Let_def
    independent_def constrains_dim_def split: if_splits)

lemma v6_never_matches:
  assumes "family_sound N" "is_ipv4 (pk_src p)" "is_ipv4 (pk_dst p)" "flat_matches N p f"
  shows "\<not> is_v6_net (fl_source f) \<and> \<not> is_v6_net (fl_dest f)"
  using assms by (auto simp: flat_matches_def is_v6_net_def family_sound_def split: option.splits)

interpretation ipt_lines: rule_expansion
  "\<lambda>(N, p). fr_matches N p" "\<lambda>rule. act (fr_action rule)" "\<lambda>(N, p) l. flat_matches N p (fst l)" snd
  "flat_lines act"
  "\<lambda>(N, p) rule. family_sound N \<and> is_ipv4 (pk_src p) \<and> is_ipv4 (pk_dst p) \<and> pk_proto p \<noteq> L4Tcp \<and>
     clauses_independent (fr_clauses rule)"
proof unfold_locales
  fix q :: "ipnet_ops \<times> Packet" and rule :: FirewallRule
  assume "(case q of (N, p) \<Rightarrow> \<lambda>rule. family_sound N \<and> is_ipv4 (pk_src p) \<and> is_ipv4 (pk_dst p) \<and>
    pk_proto p \<noteq> L4Tcp \<and> clauses_independent (fr_clauses rule)) rule"
  then show "(\<exists>l \<in> set (flat_lines act rule). (case q of (N, p) \<Rightarrow> \<lambda>l. flat_matches N p (fst l)) l) =
      (case q of (N, p) \<Rightarrow> fr_matches N p) rule"
    using ipt_clauses.expand_matches_clauses [of "snd q" "fr_clauses rule" "fst q"]
      v6_never_matches [of "fst q" "snd q"]
    by (cases q) (auto simp: flat_lines_def ipt_flat_lines_def ipt_flatten_clauses_def fr_matches_def)
qed (auto simp: flat_lines_def)

lemma chain_rules_append [simp]: "chain_rules c (xs @ ys) = chain_rules c xs @ chain_rules c ys"
  by (induction xs) (auto simp: chain_rules_def map_filter_simps split: option.splits)

lemma chain_rules_simps [simp]:
  "chain_rules c [] = []"
  "chain_rules c (TableFilter # xs) = chain_rules c xs"
  "chain_rules c (DeclareChain c' # xs) = chain_rules c xs"
  "chain_rules c (FlushChain c' # xs) = chain_rules c xs"
  "chain_rules c (AppendRule c' r # xs) = (if c' = c then r # chain_rules c xs else chain_rules c xs)"
  "chain_rules c (Commit # xs) = chain_rules c xs"
  by (simp_all add: chain_rules_def map_filter_simps)

lemma chain_rules_flat:
  "chain_rules c (map (\<lambda>f. AppendRule c' (FlatRule f t)) fs) = (if c' = c then map (\<lambda>f. FlatRule f t) fs else [])"
  by (induction fs) auto

lemma chain_rules_render:
  assumes "\<And>rule. render rule = render_rule_in_chain rule (ch (fr_direction rule)) (act (fr_action rule))"
    and "inj ch"
  shows "chain_rules (ch d) (concat (map render rules)) =
      rule_lines act (filter (\<lambda>r. fr_direction r = d) rules)"
    and "c \<notin> range ch \<Longrightarrow> chain_rules c (concat (map render rules)) = []"
  by (induction rules)
    (auto simp: rule_lines_def assms(1) render_rule_in_chain_def chain_rules_flat flat_lines_def comp_def
      dest: injD [OF assms(2)])

lemma ipt_chain_inj: "inj filter_chain" "inj inline_chain"
  by (auto simp: inj_def filter_chain_def inline_chain_def split: FwDirection.splits)

lemma render_chains:
  "chain_rules (filter_chain d) (concat (map ipt_render_rule rules)) =
     rule_lines accept_target (filter (\<lambda>r. fr_direction r = d) rules)"
  "chain_rules (inline_chain d) (concat (map ipt_render_inline rules)) =
     rule_lines return_target (filter (\<lambda>r. fr_direction r = d) rules)"
  "chain_rules (inline_chain d) (concat (map ipt_render_rule rules)) = []"
  "chain_rules (filter_chain d) (concat (map ipt_render_inline rules)) = []"
proof -
  have disjoint: "filter_chain d \<notin> range inline_chain" "inline_chain d \<notin> range filter_chain"
    by (auto simp: filter_chain_def inline_chain_def split: FwDirection.splits)
  note rule_render = chain_rules_render [of ipt_render_rule filter_chain accept_target, OF ipt_render_rule_def
      ipt_chain_inj(1)]
    and inline_render = chain_rules_render [of ipt_render_inline inline_chain return_target,
      OF ipt_render_inline_def ipt_chain_inj(2)]
  show "chain_rules (filter_chain d) (concat (map ipt_render_rule rules)) =
      rule_lines accept_target (filter (\<lambda>r. fr_direction r = d) rules)"
    by (rule rule_render)
  show "chain_rules (inline_chain d) (concat (map ipt_render_inline rules)) =
      rule_lines return_target (filter (\<lambda>r. fr_direction r = d) rules)"
    by (rule inline_render)
  show "chain_rules (inline_chain d) (concat (map ipt_render_rule rules)) = []"
    by (rule rule_render(2) [OF disjoint(2)])
  show "chain_rules (filter_chain d) (concat (map ipt_render_inline rules)) = []"
    by (rule inline_render(2) [OF disjoint(1)])
qed

lemma ipt_compiled_chains:
  "chain_rules (filter_chain d) (ipt_compile b rs) =
     [ConntrackAccept, (case d of FwInbound \<Rightarrow> LoopbackIn | FwOutbound \<Rightarrow> LoopbackOut)] @
     (case d of
        FwInbound \<Rightarrow> []
      | FwOutbound \<Rightarrow>
          (case ib_proxy_mark b of
             Some mark \<Rightarrow> MarkRet mark # (if ib_dns_proxy b then [DnsOriginal] else [])
           | None \<Rightarrow> [UidRet, GidRet])) @
     (if fs_inline_rules rs \<noteq> [] then [JumpTo (inline_chain d)] else []) @
     rule_lines accept_target (direction_chain d (fs_rules rs)) @
     (if fs_policy_attached rs then [RejectRest] else [])"
  "chain_rules (inline_chain d) (ipt_compile b rs) =
     rule_lines return_target (direction_chain d (fs_inline_rules rs))"
  using render_chains(1) [of d "sort_key fr_priority (fs_rules rs)"]
    render_chains(2) [of d "sort_key fr_priority (fs_inline_rules rs)"]
    render_chains(3) [of d "sort_key fr_priority (fs_rules rs)"]
    render_chains(4) [of d "sort_key fr_priority (fs_inline_rules rs)"]
  by (cases d; auto simp: ipt_compile_def filter_chain_def inline_chain_def direction_chain_def filter_sort
      rule_lines_def split: option.splits)+

section \<open>Correctness of the commands\<close>

lemma ipt_run_lines:
  "ipt_run N tbl cx (map (\<lambda>(f, t). FlatRule f t) ls @ rs) =
     (case first_verdict (\<lambda>l. flat_matches N (cx_packet cx) (fst l)) snd ls of
        None \<Rightarrow> ipt_run N tbl cx rs
      | Some t \<Rightarrow> t \<noteq> TReject)"
  by (induction ls) auto

lemma inline_verdict_lines:
  "inline_verdict N p (map (\<lambda>(f, t). FlatRule f t) ls) = first_verdict (\<lambda>l. flat_matches N p (fst l)) snd ls"
  by (induction ls) auto

lemma rule_lines_verdict:
  assumes "family_sound N" "is_ipv4 (pk_src p)" "is_ipv4 (pk_dst p)" "pk_proto p \<noteq> L4Tcp"
    and "list_all (\<lambda>r. clauses_independent (fr_clauses r)) rules"
  shows "first_verdict (\<lambda>l. flat_matches N p (fst l)) snd (concat (map (flat_lines act) rules)) =
    map_option act (first_verdict (fr_matches N p) fr_action rules)"
  using ipt_lines.first_verdict_expand [of rules "(N, p)" act] assms
  by (simp add: list_all_iff first_verdict_action_map)

lemma ipt_run_policy_part:
  assumes "pk_proto (cx_packet cx) \<noteq> L4Tcp"
    and "inline_verdict N (cx_packet cx) (tbl c) = map_option return_target vi"
    and "first_verdict (\<lambda>l. flat_matches N (cx_packet cx) (fst l)) snd ls = map_option accept_target vr"
    and "\<not> has_inline \<Longrightarrow> vi = None"
  shows "ipt_run N tbl cx ((if has_inline then [JumpTo c] else []) @ map (\<lambda>(f, t). FlatRule f t) ls @
      (if attached then [RejectRest] else [])) \<longleftrightarrow>
    vi \<noteq> Some FwDeny \<and> (case vr of Some a \<Rightarrow> a = FwAllow | None \<Rightarrow> \<not> attached)"
  using assms
  by (cases has_inline; cases vi; cases vr)
    (auto simp: ipt_run_lines ipt_run_lines [of _ _ _ _ "[]", simplified] split: RuleAction.splits)

lemma ipt_run_fixed:
  "ipt_run N tbl cx
     ([ConntrackAccept, (case d of FwInbound \<Rightarrow> LoopbackIn | FwOutbound \<Rightarrow> LoopbackOut)] @
      (case d of
         FwInbound \<Rightarrow> []
       | FwOutbound \<Rightarrow>
           (case ib_proxy_mark b of
              Some mark \<Rightarrow> MarkRet mark # (if ib_dns_proxy b then [DnsOriginal] else [])
            | None \<Rightarrow> [UidRet, GidRet])) @ rest) \<longleftrightarrow>
     ipt_bypass b d cx \<or> ipt_run N tbl cx rest"
  by (cases d) (auto simp: ipt_bypass_def split: option.splits)

lemma direction_chain_all:
  "list_all P rules \<Longrightarrow> list_all P (direction_chain d rules)"
  by (auto simp: direction_chain_def list_all_iff)

lemma ipt_decides:
  assumes "family_sound N" "packet_wf (cx_packet cx)" "pk_proto (cx_packet cx) \<noteq> L4Tcp"
    and "is_ipv4 (pk_dst (cx_packet cx))"
    and "list_all (\<lambda>r. clauses_independent (fr_clauses r)) (fs_rules rs @ fs_inline_rules rs)"
  shows "ipt_accepts N (ipt_compile b rs) d cx \<longleftrightarrow> ipt_bypass b d cx \<or> ruleset_accepts N d rs (cx_packet cx)"
proof -
  let ?p = "cx_packet cx" and ?tbl = "\<lambda>c. chain_rules c (ipt_compile b rs)"
  have v4: "is_ipv4 (pk_src ?p)"
    using assms(2,4) by (simp add: packet_wf_def)
  have indep: "list_all (\<lambda>r. clauses_independent (fr_clauses r)) (direction_chain d (fs_rules rs))"
    "list_all (\<lambda>r. clauses_independent (fr_clauses r)) (direction_chain d (fs_inline_rules rs))"
    using assms(5) by (simp_all add: direction_chain_all)
  note verdict = rule_lines_verdict [OF assms(1) v4 assms(4,3)]
  have inline: "inline_verdict N ?p (?tbl (inline_chain d)) =
      map_option return_target (first_verdict (fr_matches N ?p) fr_action (direction_chain d (fs_inline_rules rs)))"
    unfolding ipt_compiled_chains rule_lines_def inline_verdict_lines verdict [OF indep(2)] ..
  have none: "first_verdict (fr_matches N ?p) fr_action (direction_chain d (fs_inline_rules rs)) = None"
    if "\<not> fs_inline_rules rs \<noteq> []"
    using that by (simp add: direction_chain_def)
  have "ipt_run N ?tbl cx
      ((if fs_inline_rules rs \<noteq> [] then [JumpTo (inline_chain d)] else []) @
       rule_lines accept_target (direction_chain d (fs_rules rs)) @
       (if fs_policy_attached rs then [RejectRest] else [])) \<longleftrightarrow> ruleset_accepts N d rs ?p"
    unfolding rule_lines_def ruleset_accepts_def
    by (rule ipt_run_policy_part [of cx N ?tbl "inline_chain d", OF assms(3) inline verdict [OF indep(1)] none])
  then show ?thesis
    unfolding ipt_accepts_def ipt_compiled_chains(1) [of d] ipt_run_fixed by simp
qed

interpretation ipt: firewall_backend "\<lambda>N rs. ipt_accepts N (ipt_compile b rs)" "ipt_bypass b"
  "\<lambda>p. is_ipv4 (pk_dst p)"
  by unfold_locales (rule ipt_decides)

text \<open>
  The generated iptables rules decide IPv4 packets as the rule set says. For every IPv4 packet that
  is not TCP, the input and output chains accept exactly the packets their fixed first rules let
  through (established connections, loopback, the proxy's own traffic on output and, with the DNS
  proxy, redirected DNS) and the packets the rule set accepts. Skipping the lines with IPv6 networks,
  the cartesian expansion of networks, protocols and port chunks, and the interleaving of both
  directions in one sorted list do not change a verdict.
\<close>

theorem ipt_accepts_iff:
  assumes "family_sound N" "packet_wf (cx_packet cx)" "pk_proto (cx_packet cx) \<noteq> L4Tcp"
    and "is_ipv4 (pk_dst (cx_packet cx))"
    and "list_all (\<lambda>r. clauses_independent (fr_clauses r)) (fs_rules rs @ fs_inline_rules rs)"
  shows "ipt_accepts N (ipt_compile b rs) d cx \<longleftrightarrow> ipt_bypass b d cx \<or> ruleset_accepts N d rs (cx_packet cx)"
  using assms by (rule ipt_decides)

theorem ipt_accepts_iff_witness:
  "packet_wf (example_packet 0x0A090909 53) \<and>
   \<not> ipt_accepts cidr_ops (ipt_compile (ipt_dns_proxy True (ipt_skip_mark 1337 ipt_new)) example_ruleset)
       FwInbound (example_ctx (example_packet 0x0A090909 53))"
proof -
  have wf: "packet_wf (cx_packet (example_ctx (example_packet 0x0A090909 53)))"
    by (simp add: packet_wf_def example_ctx_def example_packet_def)
  have "list_all (\<lambda>r. clauses_independent (fr_clauses r)) (fs_rules example_ruleset @ fs_inline_rules example_ruleset)"
    by (simp add: example_ruleset_def)
  then show ?thesis
    using ipt_accepts_iff [OF family_sound_cidr wf, of example_ruleset
        "ipt_dns_proxy True (ipt_skip_mark 1337 ipt_new)" FwInbound] wf
    by (simp add: example_ctx_def example_packet_def example_ruleset_def ipt_bypass_def ruleset_accepts_def
        direction_chain_def fr_matches_def fm_matches_def nets_match_def groups_match_def group_matches_def
        ranges_match_def range_contains_def cidr_ops_def cidr_contains_def)
qed

text \<open>The commands of the golden file \<^verbatim>\<open>testdata/inpod_mixed_rules.iptables-restore\<close>.\<close>

lemma ipt_golden_inpod_mixed_rules:
  "ipt_render_ruleset cidr_ops (ipt_dns_proxy True (ipt_skip_mark 1337 ipt_new)) example_ruleset =
     join [CHR 0x0A]
       [''*filter'',
        ''-F ISTIO_FW_FILTER_IN'',
        ''-F ISTIO_FW_FILTER_OUT'',
        ''-A ISTIO_FW_FILTER_IN -m conntrack --ctstate ESTABLISHED,RELATED -j ACCEPT'',
        ''-A ISTIO_FW_FILTER_OUT -m conntrack --ctstate ESTABLISHED,RELATED -j ACCEPT'',
        ''-A ISTIO_FW_FILTER_IN -i lo -j ACCEPT'',
        ''-A ISTIO_FW_FILTER_OUT -o lo -j ACCEPT'',
        ''-A ISTIO_FW_FILTER_OUT -m mark --mark 1337 -j RETURN'',
        ''-A ISTIO_FW_FILTER_OUT -p udp -m conntrack --ctorigdstport 53 --ctdir ORIGINAL -j ACCEPT'',
        ''-A ISTIO_FW_FILTER_IN -s 10.0.0.0/8 -p udp --dport 53 -j REJECT'',
        ''-A ISTIO_FW_FILTER_IN -s 10.0.0.0/8 -p sctp --dport 53 -j REJECT'',
        ''-A ISTIO_FW_FILTER_OUT -d 8.8.8.0/24 -p udp --dport 53 -j ACCEPT'',
        ''-A ISTIO_FW_FILTER_OUT -d 8.8.8.0/24 -p sctp --dport 53 -j ACCEPT'',
        ''-A ISTIO_FW_FILTER_IN ! -p tcp -j REJECT'',
        ''-A ISTIO_FW_FILTER_OUT ! -p tcp -j REJECT'',
        ''COMMIT'']"
  by (simp add: ipt_render_ruleset_def ipt_compile_def example_ruleset_def ipt_render_rule_def
      render_rule_in_chain_def ipt_flat_lines_def ipt_flatten_clauses_def expand_clauses_def ipt_merge_def
      ipt_default_flat_def is_no_port_restriction_def expand_port_groups_def expand_port_group_def
      render_port_suffixes_def is_v6_net_def net_is_v4_def filter_chain_def format_port_suffix_def
      ipt_port_text_def ipt_dns_proxy_def ipt_skip_mark_def ipt_new_def cidr_ops_def cidr_display_def
      octet_def show_nat.simps digit_chars Let_def)

end
