(* ===== verification/Extensions.thy ===== *)
theory Extensions
  imports Net "HOL-Library.List_Lexorder" "HOL-Library.Char_ord"
begin

text \<open>
  Workload extensions, \<^verbatim>\<open>src/extensions/extensions.rs\<close>: egress policies with their conversion and
  validation, and the encoding of workload labels. Protobuf decoding belongs to the prost crate and
  base64 to the base64 crate; both are parameters, collected in \<open>codec_ops\<close>. Gateway addresses are
  those of \<^verbatim>\<open>src/state/workload.rs\<close>.
\<close>

section \<open>Gateway addresses\<close>

datatype Destination = DestAddress NetworkAddress | DestHostname NamespacedHostname

record GatewayAddress =
  gw_destination :: Destination
  gw_hbone_mtls_port :: u16

section \<open>Egress policies\<close>

datatype EgressPolicyAction = Passthrough | EgressDeny | Gateway

datatype EgressPolicyError =
    UnknownAction int
  | InvalidCidr string
  | InvalidPort string
  | InvalidGatewayService string
  | InvalidGatewayPort u32
  | MissingGateway
  | UnexpectedGateway
  | EgressDecode string

text \<open>The \<open>HashSet\<close> of namespaces is a set: equality of policies does not see an order.\<close>

record EgressPolicy =
  ep_namespaces :: "strng set"
  ep_match_cidrs :: "IpNet list"
  ep_match_ports :: "u16 list"
  ep_policy :: EgressPolicyAction
  ep_gateway :: "GatewayAddress option"

record EgressPolicies =
  eps_policies :: "EgressPolicy list"

record ProtoGateway =
  pgw_service :: string
  pgw_port :: u32

record ProtoEgressPolicy =
  pep_namespaces :: "string list"
  pep_match_cidrs :: "string list"
  pep_match_ports :: "string list"
  pep_policy :: int
  pep_gateway :: "ProtoGateway option"

record WorkloadMetadata =
  wm_labels :: "(string, string) hashmap"

record Any =
  any_type_url :: string
  any_value :: "u8 list"

record XdsExtension =
  ext_name :: string
  ext_config :: "Any option"

record PolicyResourceReference =
  prr_name :: string
  prr_uid :: string
  prr_extensions :: "Any list"

record PolicyReference =
  pr_type_url :: string
  pr_resources :: "PolicyResourceReference list"

record codec_ops =
  decode_metadata :: "u8 list \<Rightarrow> WorkloadMetadata option"
  decode_egress :: "u8 list \<Rightarrow> (ProtoEgressPolicy list, string) result"
  decode_refs :: "u8 list \<Rightarrow> (PolicyReference, string) result"
  base64_encode :: "string \<Rightarrow> string"

record RawExtension =
  raw_name :: string
  raw_config_type_url :: "string option"
  raw_config_raw :: "u8 list option"

datatype WorkloadExtension =
    ExtMetadata WorkloadMetadata
  | ExtEgressPolicies EgressPolicies
  | ExtRaw RawExtension

definition WORKLOAD_METADATA_TYPE_URL :: string where
  "WORKLOAD_METADATA_TYPE_URL = ''type.googleapis.com/kruise.networking.extensions.v1.WorkloadMetadata''"

definition DEFAULT_EGRESS_POLICIES_TYPE_URL :: string where
  "DEFAULT_EGRESS_POLICIES_TYPE_URL = ''type.googleapis.com/kruise.networking.extensions.v1.EgressPolicies''"

definition EgressPolicyAction_try_from :: "int \<Rightarrow> (EgressPolicyAction, EgressPolicyError) result" where
  "EgressPolicyAction_try_from v =
     (if v = 0 then Ok Passthrough else if v = 1 then Ok EgressDeny else if v = 2 then Ok Gateway
      else Err (UnknownAction v))"

definition parse_cidrs :: "ipnet_ops \<Rightarrow> string list \<Rightarrow> (IpNet list, EgressPolicyError) result" where
  "parse_cidrs N cidrs =
     traverse (\<lambda>cidr. case net_parse N cidr of None \<Rightarrow> Err (InvalidCidr cidr) | Some n \<Rightarrow> Ok n) cidrs"

definition parse_ports :: "string list \<Rightarrow> (u16 list, EgressPolicyError) result" where
  "parse_ports ports =
     traverse (\<lambda>port. case parse_u16 port of None \<Rightarrow> Err (InvalidPort port) | Some p \<Rightarrow> Ok p) ports"

definition parse_gateway_address :: "string \<Rightarrow> u32 \<Rightarrow> (GatewayAddress, EgressPolicyError) result" where
  "parse_gateway_address svc port =
     (let segments = split_on CHR ''.'' svc;
          service = (case segments of [] \<Rightarrow> '''' | s # _ \<Rightarrow> s);
          namespace = (case segments of _ # n # _ \<Rightarrow> n | _ \<Rightarrow> '''')
      in if service = [] \<or> namespace = [] then Err (InvalidGatewayService svc)
         else
           (let gw = (\<lambda>p. Ok \<lparr>gw_destination = DestHostname \<lparr>nh_namespace = namespace, nh_hostname = svc\<rparr>,
                               gw_hbone_mtls_port = p\<rparr>)
            in if port = 0 then gw 15008
               else if unat port < 65536 then gw (ucast port)
               else Err (InvalidGatewayPort port)))"

definition EgressPolicy_try_from :: "ipnet_ops \<Rightarrow> ProtoEgressPolicy \<Rightarrow> (EgressPolicy, EgressPolicyError) result" where
  "EgressPolicy_try_from N v =
     (case EgressPolicyAction_try_from (pep_policy v) of
        Inl e \<Rightarrow> Err e
      | Inr policy \<Rightarrow>
          (case parse_cidrs N (pep_match_cidrs v) of
             Inl e \<Rightarrow> Err e
           | Inr match_cidrs \<Rightarrow>
               (case parse_ports (pep_match_ports v) of
                  Inl e \<Rightarrow> Err e
                | Inr match_ports \<Rightarrow>
                    (case transpose_opt (\<lambda>g. parse_gateway_address (pgw_service g) (pgw_port g)) (pep_gateway v) of
                       Inl e \<Rightarrow> Err e
                     | Inr gateway \<Rightarrow>
                         (if policy = Gateway \<and> gateway = None then Err MissingGateway
                          else Ok \<lparr>ep_namespaces = set (pep_namespaces v), ep_match_cidrs = match_cidrs,
                                   ep_match_ports = match_ports, ep_policy = policy, ep_gateway = gateway\<rparr>)))))"

definition EgressPolicies_try_from ::
  "ipnet_ops \<Rightarrow> ProtoEgressPolicy list \<Rightarrow> (EgressPolicies, EgressPolicyError) result"
where
  "EgressPolicies_try_from N vs =
     (case traverse (EgressPolicy_try_from N) vs of
        Inl e \<Rightarrow> Err e | Inr ps \<Rightarrow> Ok \<lparr>eps_policies = ps\<rparr>)"

definition RawExtension_from :: "XdsExtension \<Rightarrow> RawExtension" where
  "RawExtension_from ext =
     \<lparr>raw_name = ext_name ext, raw_config_type_url = map_option any_type_url (ext_config ext),
      raw_config_raw = map_option any_value (ext_config ext)\<rparr>"

definition WorkloadExtension_try_from ::
  "ipnet_ops \<Rightarrow> codec_ops \<Rightarrow> XdsExtension \<Rightarrow> (WorkloadExtension, EgressPolicyError) result"
where
  "WorkloadExtension_try_from N C v =
     (case ext_config v of
        None \<Rightarrow> Ok (ExtRaw (RawExtension_from v))
      | Some any \<Rightarrow>
          (if any_type_url any = WORKLOAD_METADATA_TYPE_URL then
             (case decode_metadata C (any_value any) of
                Some metadata \<Rightarrow> Ok (ExtMetadata metadata)
              | None \<Rightarrow> Ok (ExtRaw (RawExtension_from v)))
           else if any_type_url any = DEFAULT_EGRESS_POLICIES_TYPE_URL then
             (case decode_egress C (any_value any) of
                Inl err \<Rightarrow> Err (EgressDecode err)
              | Inr policies \<Rightarrow>
                  (case EgressPolicies_try_from N policies of
                     Inl e \<Rightarrow> Err e | Inr ps \<Rightarrow> Ok (ExtEgressPolicies ps)))
           else Ok (ExtRaw (RawExtension_from v))))"

text \<open>The text that \<open>encode_labels\<close> hands to base64: the pairs sorted by key, bytewise.\<close>

definition labels_text :: "(string, string) hashmap \<Rightarrow> string" where
  "labels_text labels = join '','' (map (\<lambda>(k, v). k @ ''='' @ v) (sort_key fst labels))"

definition encode_labels :: "codec_ops \<Rightarrow> WorkloadMetadata \<Rightarrow> string" where
  "encode_labels C m = base64_encode C (labels_text (wm_labels m))"

definition example_codec :: codec_ops where
  "example_codec = \<lparr>decode_metadata = (\<lambda>_. None), decode_egress = (\<lambda>_. Inl ''truncated''), decode_refs = (\<lambda>_. Inl ''truncated''),
     base64_encode = (\<lambda>s. s)\<rparr>"

definition example_egress :: ProtoEgressPolicy where
  "example_egress = \<lparr>pep_namespaces = [''prod'', ''dev''], pep_match_cidrs = [''10.0.0.0/8''],
     pep_match_ports = [''443''], pep_policy = 2,
     pep_gateway = Some \<lparr>pgw_service = ''egress.gateways.svc.cluster.local'', pgw_port = 0\<rparr>\<rparr>"

section \<open>Lemmas\<close>

lemma sort_key_unique:
  assumes "distinct (map f xs)" "distinct (map f ys)" "set xs = set ys"
  shows "sort_key f xs = sort_key f ys"
proof (rule map_sorted_distinct_set_unique [of f])
  show "inj_on f (set (sort_key f xs) \<union> set (sort_key f ys))"
    using assms(1,3) by (simp add: distinct_map)
  show "distinct (map f (sort_key f xs))" "distinct (map f (sort_key f ys))"
    using assms(1,2) by (simp_all add: distinct_map)
qed (use assms(3) in simp_all)

text \<open>
  Label encodings are deterministic: two label maps with the same entries, in whatever order the
  hash map iterates over them, have the same encoding. The gateway downstream uses the encoding as a
  cache key and relies on this.
\<close>

theorem encode_labels_deterministic:
  assumes "hm_wf labels" "hm_wf labels'" "set labels = set labels'"
  shows "encode_labels C \<lparr>wm_labels = labels\<rparr> = encode_labels C \<lparr>wm_labels = labels'\<rparr>"
  using sort_key_unique [of fst labels labels'] assms
  by (simp add: encode_labels_def labels_text_def hm_wf_def)

theorem encode_labels_deterministic_witness:
  "encode_labels example_codec \<lparr>wm_labels = [(''b'', ''2''), (''a'', ''1'')]\<rparr> = ''a=1,b=2''"
proof -
  have "encode_labels example_codec \<lparr>wm_labels = [(''b'', ''2''), (''a'', ''1'')]\<rparr> =
      encode_labels example_codec \<lparr>wm_labels = [(''a'', ''1''), (''b'', ''2'')]\<rparr>"
    by (rule encode_labels_deterministic) (auto simp: hm_wf_def)
  also have "\<dots> = ''a=1,b=2''"
    by code_simp
  finally show ?thesis .
qed

lemma transpose_opt_None: "transpose_opt f x = Inr None \<longleftrightarrow> x = None"
  by (auto simp: transpose_opt_def split: option.splits sum.splits)

lemma parse_gateway_port:
  "parse_gateway_address svc port = Inr gw \<Longrightarrow> gw_hbone_mtls_port gw \<noteq> 0"
proof -
  assume *: "parse_gateway_address svc port = Inr gw"
  have "ucast port \<noteq> (0 :: u16)" if "port \<noteq> 0" "unat port < 65536"
  proof
    assume "ucast port = (0 :: u16)"
    then have "unat (ucast port :: u16) = 0" by simp
    then have "unat port = 0" using that(2) by (simp add: unsigned_ucast_eq take_bit_nat_eq_self)
    with that(1) show False by (simp add: unsigned_eq_0_iff)
  qed
  with * show ?thesis
    by (auto simp: parse_gateway_address_def Let_def split: if_splits)
qed

lemma parse_gateway_hostname:
  "parse_gateway_address svc port = Inr gw \<Longrightarrow>
     \<exists>n. n \<noteq> [] \<and> gw_destination gw = DestHostname \<lparr>nh_namespace = n, nh_hostname = svc\<rparr>"
  by (auto simp: parse_gateway_address_def Let_def split: if_splits list.splits)

lemma traverse_parse:
  "traverse (\<lambda>x. case f x of None \<Rightarrow> Inl (err x) | Some y \<Rightarrow> Inr y) xs = Inr ys \<Longrightarrow> map Some ys = map f xs"
  by (induction xs arbitrary: ys) (auto split: option.splits sum.splits)

text \<open>
  Accepted egress policies are usable: a policy that sends traffic to a gateway has one, every
  gateway of an accepted policy is a host name in a nonempty namespace with a nonzero port (15008
  when the message gives none), and its networks and ports are the parsed ones, all of them.
\<close>

theorem EgressPolicy_try_from_sound:
  assumes "EgressPolicy_try_from N v = Ok p"
  shows "(ep_policy p = Gateway \<longrightarrow> ep_gateway p \<noteq> None) \<and>
    (\<forall>gw. ep_gateway p = Some gw \<longrightarrow>
       gw_hbone_mtls_port gw \<noteq> 0 \<and>
       (\<exists>g n. pep_gateway v = Some g \<and> n \<noteq> [] \<and>
          gw_destination gw = DestHostname \<lparr>nh_namespace = n, nh_hostname = pgw_service g\<rparr>)) \<and>
    map Some (ep_match_cidrs p) = map (net_parse N) (pep_match_cidrs v) \<and>
    map Some (ep_match_ports p) = map parse_u16 (pep_match_ports v)"
proof -
  from assms obtain act cs ps gw where
      p: "p = \<lparr>ep_namespaces = set (pep_namespaces v), ep_match_cidrs = cs, ep_match_ports = ps,
            ep_policy = act, ep_gateway = gw\<rparr>"
    and cs: "parse_cidrs N (pep_match_cidrs v) = Inr cs" and ps: "parse_ports (pep_match_ports v) = Inr ps"
    and gw: "transpose_opt (\<lambda>g. parse_gateway_address (pgw_service g) (pgw_port g)) (pep_gateway v) = Inr gw"
    and "\<not> (act = Gateway \<and> gw = None)"
    by (auto simp: EgressPolicy_try_from_def split: sum.splits if_splits)
  moreover have "\<exists>g. pep_gateway v = Some g \<and> parse_gateway_address (pgw_service g) (pgw_port g) = Inr w"
    if "gw = Some w" for w
    using gw that by (auto simp: transpose_opt_def split: option.splits sum.splits)
  moreover have "map Some cs = map (net_parse N) (pep_match_cidrs v)"
    using cs by (simp add: parse_cidrs_def traverse_parse)
  moreover have "map Some ps = map parse_u16 (pep_match_ports v)"
    using ps by (simp add: parse_ports_def traverse_parse)
  ultimately show ?thesis
    by (fastforce dest: parse_gateway_port parse_gateway_hostname)
qed

theorem EgressPolicy_try_from_sound_witness:
  "\<exists>p. EgressPolicy_try_from cidr_ops example_egress = Ok p \<and> ep_policy p = Gateway \<and>
     ep_gateway p \<noteq> None \<and> map Some (ep_match_ports p) = [parse_u16 ''443'']"
proof -
  have "is_ok (EgressPolicy_try_from cidr_ops example_egress)"
    by (simp add: EgressPolicy_try_from_def EgressPolicyAction_try_from_def example_egress_def parse_cidrs_def
        parse_ports_def parse_gateway_address_def transpose_opt_def cidr_ops_def cidr_parse_def parse_u16_def
        Let_def)
  then obtain p where p: "EgressPolicy_try_from cidr_ops example_egress = Ok p"
    by (auto simp: is_ok_def split: sum.splits)
  then have "ep_policy p = Gateway"
    by (auto simp: EgressPolicy_try_from_def EgressPolicyAction_try_from_def example_egress_def
        split: sum.splits if_splits)
  with p EgressPolicy_try_from_sound [OF p] show ?thesis
    by (auto simp: example_egress_def)
qed

end
