(* ===== verification/Baggage.thy ===== *)
theory Baggage
  imports Prelude
begin

text \<open>
  The W3C baggage header, \<^verbatim>\<open>src/baggage.rs\<close>: printing a workload's attributes and parsing the headers
  of a request. \<open>HeaderValue::to_str\<close> belongs to the http crate: a header is the result of it,
  \<open>None\<close> where the value is not visible ASCII.
\<close>

section \<open>Definitions\<close>

record Baggage =
  bg_cluster_id :: "strng option"
  bg_namespace :: "strng option"
  bg_workload_name :: "strng option"
  bg_service_name :: "strng option"
  bg_revision :: "strng option"
  bg_region :: "strng option"
  bg_zone :: "strng option"

definition baggage_default :: Baggage where
  "baggage_default = \<lparr>bg_cluster_id = None, bg_namespace = None, bg_workload_name = None,
     bg_service_name = None, bg_revision = None, bg_region = None, bg_zone = None\<rparr>"

definition baggage_header_val :: "Baggage \<Rightarrow> string \<Rightarrow> string" where
  "baggage_header_val b workload_type =
     join '','' (List.map_filter id
       [map_option (\<lambda>cluster. ''k8s.cluster.name='' @ cluster) (bg_cluster_id b),
        map_option (\<lambda>namespace. ''k8s.namespace.name='' @ namespace) (bg_namespace b),
        map_option (\<lambda>workload. ''k8s.'' @ workload_type @ ''.name='' @ workload) (bg_workload_name b),
        map_option (\<lambda>service. ''service.name='' @ service) (bg_service_name b),
        map_option (\<lambda>revision. ''service.version='' @ revision) (bg_revision b),
        map_option (\<lambda>region. ''cloud.region='' @ region) (bg_region b),
        map_option (\<lambda>zone. ''cloud.availability_zone='' @ zone) (bg_zone b)])"

definition baggage_set :: "string \<Rightarrow> strng option \<Rightarrow> Baggage \<Rightarrow> Baggage" where
  "baggage_set key val b =
     (if key = ''k8s.cluster.name'' then b\<lparr>bg_cluster_id := val\<rparr>
      else if key = ''k8s.namespace.name'' then b\<lparr>bg_namespace := val\<rparr>
      else if key \<in> {''k8s.deployment.name'', ''k8s.cronjob.name'', ''k8s.pod.name'', ''k8s.job.name''}
      then b\<lparr>bg_workload_name := val\<rparr>
      else if key = ''service.name'' then b\<lparr>bg_service_name := val\<rparr>
      else if key = ''service.version'' then b\<lparr>bg_revision := val\<rparr>
      else if key = ''cloud.region'' then b\<lparr>bg_region := val\<rparr>
      else if key = ''cloud.availability_zone'' then b\<lparr>bg_zone := val\<rparr>
      else b)"

definition parse_member :: "string \<Rightarrow> Baggage \<Rightarrow> Baggage" where
  "parse_member s b =
     (let parts = split_on CHR ''='' s in
      if length parts > 1
      then baggage_set (parts ! 0) (if parts ! 1 = '''' then None else Some (parts ! 1)) b
      else b)"

fun parse_headers :: "string option list \<Rightarrow> Baggage \<Rightarrow> (Baggage, unit) result" where
  "parse_headers [] b = Ok b"
| "parse_headers (None # hs) b = Err ()"
| "parse_headers (Some v # hs) b = parse_headers hs (fold parse_member (split_on CHR '','' v) b)"

definition parse_baggage_header :: "string option list \<Rightarrow> (Baggage, unit) result" where
  "parse_baggage_header headers = parse_headers headers baggage_default"

text \<open>The values a header can carry: nonempty, without the separators.\<close>

definition baggage_value :: "strng option \<Rightarrow> bool" where
  "baggage_value v = (case v of None \<Rightarrow> True | Some s \<Rightarrow> s \<noteq> '''' \<and> CHR '','' \<notin> set s \<and> CHR ''='' \<notin> set s)"

definition baggage_wf :: "Baggage \<Rightarrow> bool" where
  "baggage_wf b =
     list_all baggage_value [bg_cluster_id b, bg_namespace b, bg_workload_name b, bg_service_name b,
       bg_revision b, bg_region b, bg_zone b]"

text \<open>The members in header order, each with what parsing it back does.\<close>

definition header_members :: "Baggage \<Rightarrow> string \<Rightarrow> (string \<times> strng option) list" where
  "header_members b workload_type =
     [(''k8s.cluster.name'', bg_cluster_id b), (''k8s.namespace.name'', bg_namespace b),
      (''k8s.'' @ workload_type @ ''.name'', bg_workload_name b), (''service.name'', bg_service_name b),
      (''service.version'', bg_revision b), (''cloud.region'', bg_region b),
      (''cloud.availability_zone'', bg_zone b)]"

definition printed_members :: "(string \<times> strng option) list \<Rightarrow> string list" where
  "printed_members ms = concat (map (\<lambda>(k, v). case v of None \<Rightarrow> [] | Some s \<Rightarrow> [k @ ''='' @ s]) ms)"

definition restore_member :: "string \<times> strng option \<Rightarrow> Baggage \<Rightarrow> Baggage" where
  "restore_member m b = (case snd m of None \<Rightarrow> b | Some v \<Rightarrow> baggage_set (fst m) (Some v) b)"

definition example_baggage :: Baggage where
  "example_baggage = \<lparr>bg_cluster_id = Some ''Kubernetes'', bg_namespace = Some ''default'',
     bg_workload_name = Some ''web'', bg_service_name = None, bg_revision = None,
     bg_region = Some ''r1'', bg_zone = None\<rparr>"

section \<open>Lemmas\<close>

lemma parse_member_pair:
  assumes "CHR ''='' \<notin> set k" "CHR ''='' \<notin> set v" "v \<noteq> ''''"
  shows "parse_member (k @ ''='' @ v) b = baggage_set k (Some v) b"
  using assms by (simp add: parse_member_def split_on_append split_on_no_sep)

lemma header_val_members: "baggage_header_val b t = join '','' (printed_members (header_members b t))"
  by (simp add: baggage_header_val_def header_members_def printed_members_def map_filter_simps
      split: option.splits)

lemma fold_printed_members:
  "(\<forall>(k, v) \<in> set ms. CHR ''='' \<notin> set k \<and> baggage_value v) \<Longrightarrow>
     fold parse_member (printed_members ms) b = fold restore_member ms b"
proof (induction ms arbitrary: b)
  case (Cons m ms)
  then show ?case
    by (cases m; cases "snd m")
      (auto simp: printed_members_def restore_member_def parse_member_pair [simplified] baggage_value_def)
qed (simp add: printed_members_def)

lemma printed_members_split:
  assumes "\<forall>(k, v) \<in> set ms. CHR '','' \<notin> set k \<and> baggage_value v"
  shows "fold parse_member (split_on CHR '','' (join '','' (printed_members ms))) b =
    fold parse_member (printed_members ms) b"
proof (cases "printed_members ms = []")
  case True
  then show ?thesis by (simp add: parse_member_def)
next
  case False
  have "\<forall>x \<in> set (printed_members ms). CHR '','' \<notin> set x"
    using assms by (auto simp: printed_members_def baggage_value_def split: option.splits)
  with False show ?thesis by (simp add: split_on_join)
qed

lemma restore_member_field:
  "bg_cluster_id b = None \<Longrightarrow> restore_member (''k8s.cluster.name'', v) b = b\<lparr>bg_cluster_id := v\<rparr>"
  "bg_namespace b = None \<Longrightarrow> restore_member (''k8s.namespace.name'', v) b = b\<lparr>bg_namespace := v\<rparr>"
  "bg_workload_name b = None \<Longrightarrow> t \<in> {''deployment'', ''cronjob'', ''pod'', ''job''} \<Longrightarrow>
     restore_member (''k8s.'' @ t @ ''.name'', v) b = b\<lparr>bg_workload_name := v\<rparr>"
  "bg_service_name b = None \<Longrightarrow> restore_member (''service.name'', v) b = b\<lparr>bg_service_name := v\<rparr>"
  "bg_revision b = None \<Longrightarrow> restore_member (''service.version'', v) b = b\<lparr>bg_revision := v\<rparr>"
  "bg_region b = None \<Longrightarrow> restore_member (''cloud.region'', v) b = b\<lparr>bg_region := v\<rparr>"
  "bg_zone b = None \<Longrightarrow> restore_member (''cloud.availability_zone'', v) b = b\<lparr>bg_zone := v\<rparr>"
  by (cases b; cases v; auto simp: restore_member_def baggage_set_def)+

text \<open>
  C7. Baggage survives the wire: parsing the header printed for a workload gives back its attributes,
  for every combination of present and absent ones, when the workload type is one of the four known
  ones and no value is empty or contains a separator.
\<close>

theorem baggage_round_trip:
  assumes "baggage_wf b" "t \<in> {''deployment'', ''cronjob'', ''pod'', ''job''}"
  shows "parse_baggage_header [Some (baggage_header_val b t)] = Ok b"
proof -
  let ?ms = "header_members b t"
  have t: "CHR '','' \<notin> set t" "CHR ''='' \<notin> set t" using assms(2) by auto
  have ok: "\<forall>(k, v) \<in> set ?ms. CHR '','' \<notin> set k \<and> baggage_value v"
    "\<forall>(k, v) \<in> set ?ms. CHR ''='' \<notin> set k \<and> baggage_value v"
    using assms(1) t by (simp_all add: baggage_wf_def header_members_def)
  have "fold parse_member (split_on CHR '','' (baggage_header_val b t)) baggage_default =
      fold restore_member ?ms baggage_default"
    unfolding header_val_members printed_members_split [OF ok(1)] fold_printed_members [OF ok(2)] ..
  also have "\<dots> = b"
    unfolding header_members_def
    by (simp add: restore_member_field [simplified] restore_member_field(3) [OF _ assms(2), simplified]
        baggage_default_def)
  finally show ?thesis by (simp add: parse_baggage_header_def)
qed

theorem baggage_round_trip_witness:
  "baggage_wf example_baggage \<and>
   parse_baggage_header
     [Some ''k8s.cluster.name=Kubernetes,k8s.namespace.name=default,k8s.pod.name=web,cloud.region=r1''] =
   Ok example_baggage"
proof -
  have wf: "baggage_wf example_baggage"
    by (simp add: baggage_wf_def baggage_value_def example_baggage_def)
  have "baggage_header_val example_baggage ''pod'' =
      ''k8s.cluster.name=Kubernetes,k8s.namespace.name=default,k8s.pod.name=web,cloud.region=r1''"
    by (simp add: baggage_header_val_def example_baggage_def map_filter_simps)
  with baggage_round_trip [OF wf, of "''pod''"] wf show ?thesis by simp
qed

end
