(* ===== verification/Workload.thy ===== *)
theory Workload
  imports Rbac Extensions Baggage
begin

text \<open>
  Workloads, \<^verbatim>\<open>src/state/workload.rs\<close>: the types, the conversion of the xDS message
  \<^verbatim>\<open>istio.workload.Workload\<close> with its policy binding, and the policies a workload is subject to.
  The store of workloads is in \<^verbatim>\<open>WorkloadStore.thy\<close>.
\<close>

section \<open>Types\<close>

datatype InboundProtocol = InTcp | InHbone
datatype OutboundProtocol = OutTcp | OutHbone
datatype NetworkMode = Standard | HostNetwork
datatype HealthStatus = Healthy | Unhealthy
datatype TunnelApp = AppNone | AppProxy

text \<open>The enumerations of the generated protobuf code, numbered as in \<^verbatim>\<open>proto/workload.proto\<close>.\<close>

datatype TunnelProtocol = TunnelNone | TunnelHbone
datatype XdsNetworkMode = XdsStandard | XdsHostNetwork
datatype WorkloadStatus = XdsHealthy | XdsUnhealthy
datatype XdsAppProtocol = XdsAppNone | XdsAppProxy

record Locality =
  loc_region :: strng
  loc_zone :: strng
  loc_subzone :: strng

record ApplicationTunnel =
  at_protocol :: TunnelApp
  at_port :: "u16 option"

record Workload =
  wl_workload_ips :: "IpAddr list"
  wl_waypoint :: "GatewayAddress option"
  wl_protocol :: InboundProtocol
  wl_network_mode :: NetworkMode
  wl_uid :: strng
  wl_name :: strng
  wl_namespace :: strng
  wl_trust_domain :: strng
  wl_service_account :: strng
  wl_network :: strng
  wl_workload_name :: strng
  wl_workload_type :: strng
  wl_canonical_name :: strng
  wl_canonical_revision :: strng
  wl_hostname :: strng
  wl_node :: strng
  wl_native_tunnel :: bool
  wl_application_tunnel :: "ApplicationTunnel option"
  wl_status :: HealthStatus
  wl_cluster_id :: strng
  wl_locality :: Locality
  wl_services :: "NamespacedHostname list"
  wl_capacity :: u32
  wl_encoded_labels :: "strng option"
  wl_egress_policies :: "EgressPolicies option"
  wl_traffic_policy_refs :: "strng list option"

text \<open>The wire messages. Enumeration fields arrive as \<open>i32\<close>, port fields as \<open>u32\<close>.\<close>

record XdsPort =
  xp_service_port :: u32
  xp_target_port :: u32

record PortList =
  pl_ports :: "XdsPort list"

record XdsNetworkAddress =
  xna_network :: string
  xna_address :: "u8 list"

datatype XdsDestination = XdsDestAddress XdsNetworkAddress | XdsDestHostname NamespacedHostname

record XdsGatewayAddress =
  xgw_destination :: "XdsDestination option"
  xgw_hbone_mtls_port :: u32

record XdsApplicationTunnel =
  xat_protocol :: int
  xat_port :: u32

record XdsWorkload =
  xw_uid :: string
  xw_name :: string
  xw_namespace :: string
  xw_addresses :: "u8 list list"
  xw_hostname :: string
  xw_network :: string
  xw_tunnel_protocol :: int
  xw_trust_domain :: string
  xw_service_account :: string
  xw_waypoint :: "XdsGatewayAddress option"
  xw_node :: string
  xw_canonical_name :: string
  xw_canonical_revision :: string
  xw_workload_type :: int
  xw_workload_name :: string
  xw_native_tunnel :: bool
  xw_application_tunnel :: "XdsApplicationTunnel option"
  xw_services :: "(string, PortList) hashmap"
  xw_status :: int
  xw_cluster_id :: string
  xw_locality :: "Locality option"
  xw_network_mode :: int
  xw_extensions :: "XdsExtension list"
  xw_capacity :: "u32 option"

datatype WorkloadError =
    PolicyReferenceError string
  | NamespacedHostnameParse string
  | ByteAddressError nat
  | EnumParse string
  | MissingGatewayAddress
  | DecodeError string
  | EnumError int
  | EgressPolicyInvalid EgressPolicyError

section \<open>Conversion from xDS\<close>

definition InboundProtocol_from :: "TunnelProtocol \<Rightarrow> InboundProtocol" where
  "InboundProtocol_from v = (case v of TunnelHbone \<Rightarrow> InHbone | TunnelNone \<Rightarrow> InTcp)"

definition OutboundProtocol_from :: "InboundProtocol \<Rightarrow> OutboundProtocol" where
  "OutboundProtocol_from v = (case v of InHbone \<Rightarrow> OutHbone | InTcp \<Rightarrow> OutTcp)"

definition NetworkMode_from :: "XdsNetworkMode \<Rightarrow> NetworkMode" where
  "NetworkMode_from v = (case v of XdsStandard \<Rightarrow> Standard | XdsHostNetwork \<Rightarrow> HostNetwork)"

definition HealthStatus_from :: "WorkloadStatus \<Rightarrow> HealthStatus" where
  "HealthStatus_from v = (case v of XdsHealthy \<Rightarrow> Healthy | XdsUnhealthy \<Rightarrow> Unhealthy)"

definition TunnelApp_from :: "XdsAppProtocol \<Rightarrow> TunnelApp" where
  "TunnelApp_from v = (case v of XdsAppNone \<Rightarrow> AppNone | XdsAppProxy \<Rightarrow> AppProxy)"

definition supports_localhost_send :: "TunnelApp \<Rightarrow> bool" where
  "supports_localhost_send p = (case p of AppNone \<Rightarrow> False | AppProxy \<Rightarrow> True)"

text \<open>A two-valued enumeration read from its number.\<close>

definition enum2 :: "'a \<Rightarrow> 'a \<Rightarrow> int \<Rightarrow> ('a, WorkloadError) result" where
  "enum2 a b v = (if v = 0 then Ok a else if v = 1 then Ok b else Err (EnumError v))"

text \<open>\<open>workload_type()\<close> reads an unknown number as the default, and the name is lower-cased.\<close>

definition workload_type_name :: "int \<Rightarrow> string" where
  "workload_type_name v =
     (if v = 1 then ''cronjob'' else if v = 2 then ''pod'' else if v = 3 then ''job'' else ''deployment'')"

definition port_map :: "PortList \<Rightarrow> (u16, u16) hashmap" where
  "port_map pl =
     fold (\<lambda>p. hm_insert (ucast (xp_service_port p)) (ucast (xp_target_port p))) (pl_ports pl) []"

definition port_list :: "(u16, u16) hashmap \<Rightarrow> PortList" where
  "port_list m = \<lparr>pl_ports = map (\<lambda>(k, v). \<lparr>xp_service_port = ucast k, xp_target_port = ucast v\<rparr>) m\<rparr>"

definition ApplicationTunnel_try_from ::
  "XdsApplicationTunnel \<Rightarrow> (ApplicationTunnel, WorkloadError) result"
where
  "ApplicationTunnel_try_from v =
     and_then (enum2 XdsAppNone XdsAppProxy (xat_protocol v)) (\<lambda>protocol.
       Ok \<lparr>at_protocol = TunnelApp_from protocol,
           at_port = (if xat_port v = 0 then None else Some (ucast (xat_port v)))\<rparr>)"

definition to_byte_error :: "byte_ip_error \<Rightarrow> WorkloadError" where
  "to_byte_error e = (case e of ByteAddressParse n \<Rightarrow> ByteAddressError n)"

definition GatewayAddress_try_from :: "XdsGatewayAddress \<Rightarrow> (GatewayAddress, WorkloadError) result" where
  "GatewayAddress_try_from v =
     (case xgw_destination v of
        Some (XdsDestAddress addr) \<Rightarrow>
          and_then (map_err to_byte_error (byte_to_ip (xna_address addr))) (\<lambda>ip.
            Ok \<lparr>gw_destination = DestAddress (network_addr (xna_network addr) ip),
                gw_hbone_mtls_port = ucast (xgw_hbone_mtls_port v)\<rparr>)
      | Some (XdsDestHostname hn) \<Rightarrow>
          Ok \<lparr>gw_destination = DestHostname hn, gw_hbone_mtls_port = ucast (xgw_hbone_mtls_port v)\<rparr>
      | None \<Rightarrow> Err MissingGatewayAddress)"

definition service_key :: "string \<Rightarrow> (NamespacedHostname, WorkloadError) result" where
  "service_key namespaced_host =
     (case split_once CHR ''/'' namespaced_host of
        Some (namespace, hostname) \<Rightarrow> Ok \<lparr>nh_namespace = namespace, nh_hostname = hostname\<rparr>
      | None \<Rightarrow> Err (NamespacedHostnameParse namespaced_host))"

definition TRAFFIC_POLICY_TYPE :: string where
  "TRAFFIC_POLICY_TYPE = ''type.googleapis.com/agentio.security.TrafficPolicy''"

definition POLICY_REFERENCE_TYPE_URL :: string where
  "POLICY_REFERENCE_TYPE_URL = ''type.googleapis.com/kruise.networking.extensions.v1.PolicyReference''"

text \<open>The three locals that the extension loop assigns.\<close>

record ExtensionState =
  xs_metadata :: "WorkloadMetadata option"
  xs_egress_policies :: "EgressPolicies option"
  xs_traffic_policy_refs :: "strng list option"

definition reference_step ::
  "codec_ops \<Rightarrow> XdsExtension \<Rightarrow> ExtensionState \<Rightarrow> (ExtensionState, WorkloadError) result"
where
  "reference_step C extension st =
     and_then (ok_or (ext_config extension) (PolicyReferenceError ''missing config'')) (\<lambda>config.
       if xs_traffic_policy_refs st \<noteq> None \<or> any_type_url config \<noteq> POLICY_REFERENCE_TYPE_URL
       then Err (PolicyReferenceError ''duplicate reference extension or invalid config type'')
       else and_then (map_err DecodeError (decode_refs C (any_value config))) (\<lambda>refs.
         if pr_type_url refs \<noteq> TRAFFIC_POLICY_TYPE
         then Err (PolicyReferenceError (''unsupported policy type: '' @ pr_type_url refs))
         else Ok (st\<lparr>xs_traffic_policy_refs := Some (map prr_name (pr_resources refs))\<rparr>)))"

definition extension_step ::
  "ipnet_ops \<Rightarrow> codec_ops \<Rightarrow> XdsExtension \<Rightarrow> ExtensionState \<Rightarrow> (ExtensionState, WorkloadError) result"
where
  "extension_step N C extension st =
     (if ext_name extension = ''traffic-policy-reference'' then reference_step C extension st
      else and_then (map_err EgressPolicyInvalid (WorkloadExtension_try_from N C extension)) (\<lambda>e.
        Ok (case e of
              ExtMetadata m \<Rightarrow> st\<lparr>xs_metadata := Some m\<rparr>
            | ExtEgressPolicies policies \<Rightarrow> st\<lparr>xs_egress_policies := Some policies\<rparr>
            | ExtRaw _ \<Rightarrow> st)))"

fun extension_loop ::
  "ipnet_ops \<Rightarrow> codec_ops \<Rightarrow> XdsExtension list \<Rightarrow> ExtensionState \<Rightarrow> (ExtensionState, WorkloadError) result"
where
  "extension_loop N C [] st = Ok st"
| "extension_loop N C (x # xs) st = and_then (extension_step N C x st) (extension_loop N C xs)"

definition no_extensions :: ExtensionState where
  "no_extensions = \<lparr>xs_metadata = None, xs_egress_policies = None, xs_traffic_policy_refs = None\<rparr>"

fun validate_names :: "strng list \<Rightarrow> strng set \<Rightarrow> (unit, WorkloadError) result" where
  "validate_names [] seen = Ok ()"
| "validate_names (name # names) seen =
     (if name = '''' \<or> name = ''*'' \<or> name \<in> seen
      then Err (PolicyReferenceError (''invalid or duplicate policy name: '' @ name))
      else validate_names names (insert name seen))"

definition validate_policies :: "Workload \<Rightarrow> (unit, WorkloadError) result" where
  "validate_policies w =
     (case wl_traffic_policy_refs w of None \<Rightarrow> Ok () | Some names \<Rightarrow> validate_names names {})"

definition or_default :: "string \<Rightarrow> string \<Rightarrow> strng" where
  "or_default d s = (if s = '''' then d else s)"

definition Workload_try_from ::
  "ipnet_ops \<Rightarrow> codec_ops \<Rightarrow> XdsWorkload \<Rightarrow> (Workload \<times> (string, PortList) hashmap, WorkloadError) result"
where
  "Workload_try_from N C resource =
     and_then (transpose_opt GatewayAddress_try_from (xw_waypoint resource)) (\<lambda>wp.
     and_then (transpose_opt ApplicationTunnel_try_from (xw_application_tunnel resource)) (\<lambda>application_tunnel.
     and_then (traverse (\<lambda>b. map_err to_byte_error (byte_to_ip b)) (xw_addresses resource)) (\<lambda>addresses.
     and_then (traverse service_key (hm_keys (xw_services resource))) (\<lambda>services.
     and_then (extension_loop N C (xw_extensions resource) no_extensions) (\<lambda>st.
     and_then (enum2 TunnelNone TunnelHbone (xw_tunnel_protocol resource)) (\<lambda>tunnel_protocol.
     and_then (enum2 XdsStandard XdsHostNetwork (xw_network_mode resource)) (\<lambda>network_mode.
     and_then (enum2 XdsHealthy XdsUnhealthy (xw_status resource)) (\<lambda>status.
       let wl =
         \<lparr>wl_workload_ips = addresses,
          wl_waypoint = wp,
          wl_protocol = InboundProtocol_from tunnel_protocol,
          wl_network_mode = NetworkMode_from network_mode,
          wl_uid = xw_uid resource,
          wl_name = xw_name resource,
          wl_namespace = xw_namespace resource,
          wl_trust_domain = or_default ''cluster.local'' (xw_trust_domain resource),
          wl_service_account = or_default ''default'' (xw_service_account resource),
          wl_network = xw_network resource,
          wl_workload_name = xw_workload_name resource,
          wl_workload_type = workload_type_name (xw_workload_type resource),
          wl_canonical_name = xw_canonical_name resource,
          wl_canonical_revision = xw_canonical_revision resource,
          wl_hostname = xw_hostname resource,
          wl_node = xw_node resource,
          wl_native_tunnel = xw_native_tunnel resource,
          wl_application_tunnel = application_tunnel,
          wl_status = HealthStatus_from status,
          wl_cluster_id = or_default ''Kubernetes'' (xw_cluster_id resource),
          wl_locality = (case xw_locality resource of
              None \<Rightarrow> \<lparr>loc_region = '''', loc_zone = '''', loc_subzone = ''''\<rparr> | Some l \<Rightarrow> l),
          wl_services = services,
          wl_capacity = (case xw_capacity resource of None \<Rightarrow> 1 | Some c \<Rightarrow> c),
          wl_encoded_labels = map_option (encode_labels C) (xs_metadata st),
          wl_egress_policies = xs_egress_policies st,
          wl_traffic_policy_refs = xs_traffic_policy_refs st\<rparr>
       in and_then (validate_policies wl) (\<lambda>_. Ok (wl, xw_services resource))))))))))"

section \<open>What a workload answers\<close>

definition wl_identity :: "Workload \<Rightarrow> Identity" where
  "wl_identity w = Spiffe (wl_trust_domain w) (wl_namespace w) (wl_service_account w)"

text \<open>\<open>(!s.is_empty()).then_some(s)\<close>.\<close>

definition non_empty :: "strng \<Rightarrow> strng option" where
  "non_empty s = (if s \<noteq> '''' then Some s else None)"

definition wl_baggage :: "Workload \<Rightarrow> Baggage" where
  "wl_baggage w = \<lparr>bg_cluster_id = non_empty (wl_cluster_id w), bg_namespace = non_empty (wl_namespace w),
     bg_workload_name = non_empty (wl_workload_name w), bg_service_name = non_empty (wl_canonical_name w),
     bg_revision = non_empty (wl_canonical_revision w), bg_region = non_empty (loc_region (wl_locality w)),
     bg_zone = non_empty (loc_zone (wl_locality w))\<rparr>"

definition traffic_policies :: "Workload \<Rightarrow> TrafficPolicyStore \<Rightarrow> policies" where
  "traffic_policies w store =
     (if wl_traffic_policy_refs w = None then [(''workload-binding'', None)] else []) @
     (case wl_traffic_policy_refs w of
        None \<Rightarrow> [] | Some names \<Rightarrow> map (\<lambda>name. (name, policy_get store name)) names)"

text \<open>
  What a valid message is, on its own terms: the names a reference extension binds, the binding of a
  message, and the conditions on its fields.
\<close>

definition is_reference :: "XdsExtension \<Rightarrow> bool" where
  "is_reference e = (ext_name e = ''traffic-policy-reference'')"

definition reference_names :: "codec_ops \<Rightarrow> XdsExtension \<Rightarrow> strng list option" where
  "reference_names C e =
     (case ext_config e of
        None \<Rightarrow> None
      | Some config \<Rightarrow>
          (if any_type_url config \<noteq> POLICY_REFERENCE_TYPE_URL then None
           else case decode_refs C (any_value config) of
                  Inl _ \<Rightarrow> None
                | Inr refs \<Rightarrow>
                    (if pr_type_url refs \<noteq> TRAFFIC_POLICY_TYPE then None
                     else Some (map prr_name (pr_resources refs)))))"

definition workload_binding :: "codec_ops \<Rightarrow> XdsWorkload \<Rightarrow> strng list option" where
  "workload_binding C r =
     (case filter is_reference (xw_extensions r) of [] \<Rightarrow> None | e # _ \<Rightarrow> reference_names C e)"

definition names_valid :: "strng list \<Rightarrow> bool" where
  "names_valid names = (distinct names \<and> '''' \<notin> set names \<and> ''*'' \<notin> set names)"

definition gateway_valid :: "XdsGatewayAddress \<Rightarrow> bool" where
  "gateway_valid g =
     (case xgw_destination g of
        None \<Rightarrow> False
      | Some (XdsDestAddress a) \<Rightarrow> length (xna_address a) \<in> {4, 16}
      | Some (XdsDestHostname _) \<Rightarrow> True)"

definition extensions_valid :: "ipnet_ops \<Rightarrow> codec_ops \<Rightarrow> XdsExtension list \<Rightarrow> bool" where
  "extensions_valid N C es =
     (list_all (\<lambda>e. if is_reference e then reference_names C e \<noteq> None
                    else is_ok (WorkloadExtension_try_from N C e)) es \<and>
      length (filter is_reference es) \<le> 1)"

definition workload_valid :: "ipnet_ops \<Rightarrow> codec_ops \<Rightarrow> XdsWorkload \<Rightarrow> bool" where
  "workload_valid N C r =
     (pred_option gateway_valid (xw_waypoint r) \<and>
      pred_option (\<lambda>t. xat_protocol t \<in> {0, 1}) (xw_application_tunnel r) \<and>
      list_all (\<lambda>a. length a \<in> {4, 16}) (xw_addresses r) \<and>
      list_all (\<lambda>k. CHR ''/'' \<in> set k) (hm_keys (xw_services r)) \<and>
      extensions_valid N C (xw_extensions r) \<and>
      xw_tunnel_protocol r \<in> {0, 1} \<and> xw_network_mode r \<in> {0, 1} \<and> xw_status r \<in> {0, 1} \<and>
      pred_option names_valid (workload_binding C r))"

section \<open>Lemmas\<close>

lemma enum2_ok [simp]: "is_ok (enum2 a b v) \<longleftrightarrow> v \<in> {0, 1}"
  by (simp add: enum2_def)

lemma service_key_ok [simp]: "is_ok (service_key k) \<longleftrightarrow> CHR ''/'' \<in> set k"
  using split_once_None [of "CHR ''/''" k]
  by (auto simp: service_key_def split: option.splits)

lemma byte_to_ip_ok [simp]: "is_ok (byte_to_ip b) \<longleftrightarrow> length b \<in> {4, 16}"
  by (simp add: byte_to_ip_def)

lemma is_ok_transpose_opt: "is_ok (transpose_opt f x) \<longleftrightarrow> pred_option (\<lambda>a. is_ok (f a)) x"
  by (cases x) (auto simp: transpose_opt_def split: sum.splits)

lemma GatewayAddress_try_from_ok: "is_ok (GatewayAddress_try_from g) \<longleftrightarrow> gateway_valid g"
  by (simp add: GatewayAddress_try_from_def gateway_valid_def split: option.splits XdsDestination.splits)

lemma ApplicationTunnel_try_from_ok:
  "is_ok (ApplicationTunnel_try_from t) \<longleftrightarrow> xat_protocol t \<in> {0, 1}"
  by (auto simp: ApplicationTunnel_try_from_def enum2_def)

lemma validate_names_ok:
  "is_ok (validate_names names seen) \<longleftrightarrow> names_valid names \<and> set names \<inter> seen = {}"
  by (induction names arbitrary: seen) (auto simp: names_valid_def)

lemma validate_policies_ok: "is_ok (validate_policies w) \<longleftrightarrow> pred_option names_valid (wl_traffic_policy_refs w)"
  by (simp add: validate_policies_def validate_names_ok split: option.splits)

lemma reference_step_ok:
  "is_ok (reference_step C e st) \<longleftrightarrow> xs_traffic_policy_refs st = None \<and> reference_names C e \<noteq> None"
  by (auto simp: reference_step_def reference_names_def split: option.splits sum.splits)

lemma reference_step_Ok:
  "reference_step C e st = Inr st' \<Longrightarrow> xs_traffic_policy_refs st' = reference_names C e"
  by (auto simp: reference_step_def reference_names_def and_then_Ok split: option.splits sum.splits if_splits)

lemma extension_step_reference:
  "is_reference e \<Longrightarrow> extension_step N C e st = reference_step C e st"
  by (simp add: extension_step_def is_reference_def)

lemma extension_step_other:
  assumes "\<not> is_reference e"
  shows "is_ok (extension_step N C e st) = is_ok (WorkloadExtension_try_from N C e)"
    and "extension_step N C e st = Inr st' \<Longrightarrow> xs_traffic_policy_refs st' = xs_traffic_policy_refs st"
proof -
  show "is_ok (extension_step N C e st) = is_ok (WorkloadExtension_try_from N C e)"
    using assms by (simp add: extension_step_def is_reference_def)
  assume "extension_step N C e st = Inr st'"
  then obtain x where "st' = (case x of ExtMetadata m \<Rightarrow> st\<lparr>xs_metadata := Some m\<rparr>
      | ExtEgressPolicies policies \<Rightarrow> st\<lparr>xs_egress_policies := Some policies\<rparr> | ExtRaw _ \<Rightarrow> st)"
    using assms by (auto simp: extension_step_def is_reference_def and_then_Ok)
  then show "xs_traffic_policy_refs st' = xs_traffic_policy_refs st"
    by (cases x) simp_all
qed

lemma extension_loop_ok:
  "is_ok (extension_loop N C es st) \<longleftrightarrow>
     list_all (\<lambda>e. if is_reference e then reference_names C e \<noteq> None
                    else is_ok (WorkloadExtension_try_from N C e)) es \<and>
     length (filter is_reference es) + (if xs_traffic_policy_refs st = None then 0 else 1) \<le> 1"
proof (induction es arbitrary: st)
  case (Cons e es)
  show ?case
  proof (cases "is_reference e")
    case True
    show ?thesis
    proof (cases "reference_step C e st")
      case (Inl x)
      with reference_step_ok [of C e st] True show ?thesis
        by (auto simp: extension_step_reference)
    next
      case (Inr st1)
      with reference_step_ok [of C e st] reference_step_Ok [OF Inr] True Cons.IH [of st1] show ?thesis
        by (auto simp: extension_step_reference)
    qed
  next
    case False
    show ?thesis
    proof (cases "extension_step N C e st")
      case (Inl x)
      with extension_step_other(1) [OF False, of N C st] False show ?thesis by auto
    next
      case (Inr st1)
      with extension_step_other(1) [OF False, of N C st] extension_step_other(2) [OF False Inr]
        False Cons.IH [of st1] show ?thesis by auto
    qed
  qed
qed simp

lemma extension_loop_refs:
  "extension_loop N C es st = Inr st' \<Longrightarrow>
     xs_traffic_policy_refs st' =
       (case filter is_reference es of [] \<Rightarrow> xs_traffic_policy_refs st | e # _ \<Rightarrow> reference_names C e)"
proof (induction es arbitrary: st)
  case (Cons e es)
  then obtain st1 where st1: "extension_step N C e st = Inr st1" "extension_loop N C es st1 = Inr st'"
    by (auto simp: and_then_Ok)
  show ?case
  proof (cases "is_reference e")
    case True
    then have ref: "reference_step C e st = Inr st1" using st1(1) by (simp add: extension_step_reference)
    then have "xs_traffic_policy_refs st1 \<noteq> None"
      using reference_step_ok [of C e st] reference_step_Ok [OF ref] by simp
    moreover have "is_ok (extension_loop N C es st1)" using st1(2) by simp
    ultimately have "filter is_reference es = []"
      by (simp add: extension_loop_ok split: if_splits)
    with Cons.IH [OF st1(2)] True reference_step_Ok [OF ref] show ?thesis by simp
  next
    case False
    with Cons.IH [OF st1(2)] extension_step_other(2) [OF False st1(1)] show ?thesis
      by (simp split: list.splits)
  qed
qed simp

lemma extension_loop_binding:
  "extension_loop N C (xw_extensions r) no_extensions = Inr st \<Longrightarrow>
     xs_traffic_policy_refs st = workload_binding C r"
  using extension_loop_refs [of N C "xw_extensions r" no_extensions st]
  by (simp add: workload_binding_def no_extensions_def split: list.splits)

lemma extensions_valid_ok: "is_ok (extension_loop N C es no_extensions) \<longleftrightarrow> extensions_valid N C es"
  by (simp add: extension_loop_ok extensions_valid_def no_extensions_def)

lemma Workload_accepts: "is_ok (Workload_try_from N C r) \<longleftrightarrow> workload_valid N C r"
proof -
  have "(\<exists>st. extension_loop N C (xw_extensions r) no_extensions = Inr st \<and>
            pred_option names_valid (xs_traffic_policy_refs st)) \<longleftrightarrow>
        extensions_valid N C (xw_extensions r) \<and> pred_option names_valid (workload_binding C r)"
    by (metis extension_loop_binding extensions_valid_ok is_ok_iff)
  then show ?thesis
    unfolding Workload_try_from_def workload_valid_def
    by (simp add: is_ok_and_then Let_def validate_policies_ok)
      (simp add: is_ok_transpose_opt is_ok_traverse GatewayAddress_try_from_ok
        ApplicationTunnel_try_from_ok list_all_iff flip: is_ok_iff, blast)
qed

text \<open>
  C8. A workload message is accepted exactly when it is valid: gateways are complete, every address has
  four or sixteen bytes, every service key names a namespace, every enumeration is known, every
  extension converts, and there is at most one policy reference, of the right types, naming each
  policy once and neither the empty name nor the wildcard. Everything else is rejected as a whole.
\<close>

theorem Workload_try_from_accepts_iff: "is_ok (Workload_try_from N C r) \<longleftrightarrow> workload_valid N C r"
  by (fact Workload_accepts)

lemma Workload_try_from_Ok:
  assumes "Workload_try_from N C r = Inr (w, svcs)"
  shows "wl_traffic_policy_refs w = workload_binding C r" "svcs = xw_services r"
    "pred_option names_valid (workload_binding C r)" "wl_uid w = xw_uid r"
proof -
  from assms obtain st where "extension_loop N C (xw_extensions r) no_extensions = Inr st"
      "wl_traffic_policy_refs w = xs_traffic_policy_refs st"
    and w: "svcs = xw_services r" "wl_uid w = xw_uid r"
    by (auto simp: Workload_try_from_def and_then_Ok Let_def)
  then show refs: "wl_traffic_policy_refs w = workload_binding C r"
    by (simp add: extension_loop_binding)
  show "svcs = xw_services r" "wl_uid w = xw_uid r" by (fact w)+
  have "is_ok (Workload_try_from N C r)" using assms by simp
  then show "pred_option names_valid (workload_binding C r)"
    by (simp add: Workload_accepts workload_valid_def)
qed

text \<open>An unbound workload, or one bound to a policy that is not stored, has no access at all.\<close>

lemma traffic_policies_complete:
  "(\<forall>(name, p) \<in> set (traffic_policies w store). p \<noteq> None) \<longleftrightarrow>
     (\<exists>names. wl_traffic_policy_refs w = Some names \<and> (\<forall>n \<in> set names. policy_get store n \<noteq> None))"
  by (cases "wl_traffic_policy_refs w") (auto simp: traffic_policies_def)

end
