(* ===== verification/WorkloadStore.thy ===== *)
theory WorkloadStore
  imports Workload
begin

text \<open>
  The store of workloads, \<^verbatim>\<open>WorkloadStore\<close> of \<^verbatim>\<open>src/state/workload.rs\<close>: the index by address with its
  conflict ranking, the index by uid and the index of local identities. The invariant \<open>ws_inv\<close> says
  that both secondary indices are exactly what the workloads by uid imply.
\<close>

section \<open>Definitions\<close>

record WorkloadInfo =
  wi_name :: string
  wi_namespace :: string
  wi_service_account :: string

definition wi_matches :: "WorkloadInfo \<Rightarrow> Workload \<Rightarrow> bool" where
  "wi_matches i w =
     (wi_name i = wl_name w \<and> wi_namespace i = wl_namespace w \<and> wi_service_account i = wl_service_account w)"

record WorkloadIdentity =
  wid_namespace :: strng
  wid_service_account :: strng

fun WorkloadIdentity_from :: "Identity \<Rightarrow> WorkloadIdentity" where
  "WorkloadIdentity_from (Spiffe _ namespace service_account) =
     \<lparr>wid_namespace = namespace, wid_service_account = service_account\<rparr>"

datatype WorkloadByAddr = Single Workload | Many "Workload list"

text \<open>A \<open>HashSet\<close> that is iterated over is a list without repetitions.\<close>

definition hs_insert :: "'a \<Rightarrow> 'a list \<Rightarrow> 'a list" where
  "hs_insert x xs = (if x \<in> set xs then xs else xs @ [x])"

definition hs_remove :: "'a \<Rightarrow> 'a list \<Rightarrow> 'a list" where
  "hs_remove x xs = removeAll x xs"

text \<open>\<open>iter.max_by_key(key)\<close>: the last of the greatest elements.\<close>

fun max_by_key :: "('a \<Rightarrow> nat) \<Rightarrow> 'a list \<Rightarrow> 'a option" where
  "max_by_key key [] = None"
| "max_by_key key (x # xs) = Some (fold (\<lambda>y best. if key best \<le> key y then y else best) xs x)"

record WorkloadStore =
  ws_local_node :: "strng option"
  ws_insert_notifier :: nat
  ws_by_addr :: "(NetworkAddress, WorkloadByAddr) hashmap"
  ws_by_uid :: "(strng, Workload) hashmap"
  ws_node_local_by_identity :: "(WorkloadIdentity, strng list) hashmap"

fun wba_insert :: "WorkloadByAddr \<Rightarrow> Workload \<Rightarrow> WorkloadByAddr" where
  "wba_insert (Single workload) w = Many [workload, w]"
| "wba_insert (Many v) w = Many (v @ [w])"

text \<open>The new value and whether no workload remains.\<close>

fun wba_remove_uid :: "WorkloadByAddr \<Rightarrow> strng \<Rightarrow> WorkloadByAddr \<times> bool" where
  "wba_remove_uid (Single wl) uid = (Single wl, wl_uid wl = uid)"
| "wba_remove_uid (Many ws) uid =
     (case filter (\<lambda>w. wl_uid w \<noteq> uid) ws of
        [] \<Rightarrow> (Many [], True)
      | [wl] \<Rightarrow> (Single wl, False)
      | ws' \<Rightarrow> (Many ws', False))"

definition wba_rank :: "Workload \<Rightarrow> nat" where
  "wba_rank w =
     (let is_pod = contains_str ''//Pod/'' (wl_uid w); is_hbone = (wl_protocol w = InHbone)
      in case (is_pod, is_hbone) of
           (True, True) \<Rightarrow> 3 | (True, False) \<Rightarrow> 2 | (False, True) \<Rightarrow> 1 | (False, False) \<Rightarrow> 0)"

text \<open>\<open>None\<close> stands for the panic of \<open>expect\<close> on an empty list.\<close>

fun wba_get :: "WorkloadByAddr \<Rightarrow> Workload option" where
  "wba_get (Single workload) = Some workload"
| "wba_get (Many workloads) = max_by_key wba_rank workloads"

definition ws_new :: "strng option \<Rightarrow> WorkloadStore" where
  "ws_new local_node = \<lparr>ws_local_node = local_node, ws_insert_notifier = 0, ws_by_addr = [],
     ws_by_uid = [], ws_node_local_by_identity = []\<rparr>"

definition addr_remove ::
  "strng \<Rightarrow> NetworkAddress \<Rightarrow> (NetworkAddress, WorkloadByAddr) hashmap \<Rightarrow> (NetworkAddress, WorkloadByAddr) hashmap"
where
  "addr_remove uid k m =
     (case hm_get m k of
        None \<Rightarrow> m
      | Some ent \<Rightarrow>
          (let (ent', emptied) = wba_remove_uid ent uid in
           if emptied then hm_remove k m else hm_insert k ent' m))"

definition addr_insert ::
  "Workload \<Rightarrow> NetworkAddress \<Rightarrow> (NetworkAddress, WorkloadByAddr) hashmap \<Rightarrow> (NetworkAddress, WorkloadByAddr) hashmap"
where
  "addr_insert w k m =
     (case hm_get m k of
        None \<Rightarrow> hm_insert k (Single w) m
      | Some ws \<Rightarrow> hm_insert k (wba_insert ws w) m)"

text \<open>The keys under which a workload is indexed; host-network workloads share the address of their node.\<close>

definition wl_addrs :: "Workload \<Rightarrow> NetworkAddress list" where
  "wl_addrs w =
     (if wl_network_mode w \<noteq> HostNetwork then map (network_addr (wl_network w)) (wl_workload_ips w) else [])"

definition identity_remove ::
  "WorkloadIdentity \<Rightarrow> strng \<Rightarrow> (WorkloadIdentity, strng list) hashmap \<Rightarrow> (WorkloadIdentity, strng list) hashmap"
where
  "identity_remove k uid m =
     (case hm_get m k of
        None \<Rightarrow> m
      | Some uids \<Rightarrow>
          (let uids' = hs_remove uid uids in if uids' = [] then hm_remove k m else hm_insert k uids' m))"

definition identity_insert ::
  "WorkloadIdentity \<Rightarrow> strng \<Rightarrow> (WorkloadIdentity, strng list) hashmap \<Rightarrow> (WorkloadIdentity, strng list) hashmap"
where
  "identity_insert k uid m =
     hm_insert k (hs_insert uid (case hm_get m k of None \<Rightarrow> [] | Some uids \<Rightarrow> uids)) m"

definition ws_remove :: "WorkloadStore \<Rightarrow> strng \<Rightarrow> WorkloadStore \<times> Workload option" where
  "ws_remove s uid =
     (case hm_get (ws_by_uid s) uid of
        None \<Rightarrow> (s, None)
      | Some prev \<Rightarrow>
          (s\<lparr>ws_by_uid := hm_remove uid (ws_by_uid s),
             ws_by_addr := fold (addr_remove (wl_uid prev)) (wl_addrs prev) (ws_by_addr s),
             ws_node_local_by_identity :=
               identity_remove (WorkloadIdentity_from (wl_identity prev)) (wl_uid prev)
                 (ws_node_local_by_identity s)\<rparr>,
           Some prev))"

definition ws_is_local :: "WorkloadStore \<Rightarrow> strng \<Rightarrow> bool" where
  "ws_is_local s node = (ws_local_node s = None \<or> ws_local_node s = Some node)"

definition ws_insert :: "WorkloadStore \<Rightarrow> Workload \<Rightarrow> WorkloadStore" where
  "ws_insert s0 w =
     (let s = fst (ws_remove s0 (wl_uid w)) in
      s\<lparr>ws_by_addr := fold (addr_insert w) (wl_addrs w) (ws_by_addr s),
        ws_by_uid := hm_insert (wl_uid w) w (ws_by_uid s),
        ws_node_local_by_identity :=
          (if ws_is_local s (wl_node w)
           then identity_insert (WorkloadIdentity_from (wl_identity w)) (wl_uid w) (ws_node_local_by_identity s)
           else ws_node_local_by_identity s),
        ws_insert_notifier := Suc (ws_insert_notifier s)\<rparr>)"

definition ws_find_address :: "WorkloadStore \<Rightarrow> NetworkAddress \<Rightarrow> Workload option" where
  "ws_find_address s addr = Option.bind (hm_get (ws_by_addr s) addr) wba_get"

definition ws_find_uid :: "WorkloadStore \<Rightarrow> strng \<Rightarrow> Workload option" where
  "ws_find_uid s uid = hm_get (ws_by_uid s) uid"

text \<open>\<open>iter.find_map(f)\<close>.\<close>

fun find_map :: "('a \<Rightarrow> 'b option) \<Rightarrow> 'a list \<Rightarrow> 'b option" where
  "find_map f [] = None"
| "find_map f (x # xs) = (case f x of None \<Rightarrow> find_map f xs | Some y \<Rightarrow> Some y)"

definition ws_find_by_info :: "WorkloadStore \<Rightarrow> WorkloadInfo \<Rightarrow> Workload option" where
  "ws_find_by_info s i =
     (case hm_get (ws_node_local_by_identity s)
             \<lparr>wid_namespace = wi_namespace i, wid_service_account = wi_service_account i\<rparr> of
        None \<Rightarrow> None
      | Some uids \<Rightarrow>
          find_map (\<lambda>uid. Option.bind (hm_get (ws_by_uid s) uid)
                            (\<lambda>w. if wi_matches i w then Some w else None)) uids)"

definition was_last_identity_on_node :: "WorkloadStore \<Rightarrow> strng \<Rightarrow> Identity \<Rightarrow> bool" where
  "was_last_identity_on_node s node_name identity =
     (if ws_is_local s node_name
      then \<not> hm_contains (ws_node_local_by_identity s) (WorkloadIdentity_from identity) else False)"

section \<open>Specification\<close>

text \<open>The workloads indexed under an address and the uids indexed under an identity.\<close>

fun wba_list :: "WorkloadByAddr \<Rightarrow> Workload list" where
  "wba_list (Single w) = [w]"
| "wba_list (Many ws) = ws"

definition ws_at :: "WorkloadStore \<Rightarrow> NetworkAddress \<Rightarrow> Workload list" where
  "ws_at s k = (case hm_get (ws_by_addr s) k of None \<Rightarrow> [] | Some ent \<Rightarrow> wba_list ent)"

definition ws_uids :: "WorkloadStore \<Rightarrow> WorkloadIdentity \<Rightarrow> strng list" where
  "ws_uids s k = (case hm_get (ws_node_local_by_identity s) k of None \<Rightarrow> [] | Some us \<Rightarrow> us)"

definition ws_wid :: "Workload \<Rightarrow> WorkloadIdentity" where
  "ws_wid w = WorkloadIdentity_from (wl_identity w)"

text \<open>
  The invariant: the uid index is keyed by uid; the address index holds under every address exactly
  the stored workloads with that address, never an empty entry; the identity index holds exactly the
  local workloads of an identity, never an empty entry.
\<close>

definition ws_inv :: "WorkloadStore \<Rightarrow> bool" where
  "ws_inv s \<longleftrightarrow>
     hm_wf (ws_by_uid s) \<and>
     (\<forall>uid w. hm_get (ws_by_uid s) uid = Some w \<longrightarrow> wl_uid w = uid) \<and>
     (\<forall>k w. w \<in> set (ws_at s k) \<longleftrightarrow> hm_get (ws_by_uid s) (wl_uid w) = Some w \<and> k \<in> set (wl_addrs w)) \<and>
     (\<forall>k ent. hm_get (ws_by_addr s) k = Some ent \<longrightarrow> wba_list ent \<noteq> []) \<and>
     (\<forall>k uid. uid \<in> set (ws_uids s k) \<longleftrightarrow>
        (\<exists>w. hm_get (ws_by_uid s) uid = Some w \<and> ws_is_local s (wl_node w) \<and> ws_wid w = k)) \<and>
     (\<forall>k us. hm_get (ws_node_local_by_identity s) k = Some us \<longrightarrow> us \<noteq> [])"

datatype ws_event = WsInsert Workload | WsRemove strng

fun ws_step :: "ws_event \<Rightarrow> WorkloadStore \<Rightarrow> WorkloadStore" where
  "ws_step (WsInsert w) s = ws_insert s w"
| "ws_step (WsRemove uid) s = fst (ws_remove s uid)"

fun ws_spec_step :: "ws_event \<Rightarrow> (strng \<rightharpoonup> Workload) \<Rightarrow> (strng \<rightharpoonup> Workload)" where
  "ws_spec_step (WsInsert w) m = m(wl_uid w \<mapsto> w)"
| "ws_spec_step (WsRemove uid) m = m(uid := None)"

definition ws_run :: "strng option \<Rightarrow> ws_event list \<Rightarrow> WorkloadStore" where
  "ws_run n evs = fold ws_step evs (ws_new n)"

definition ws_model :: "ws_event list \<Rightarrow> strng \<rightharpoonup> Workload" where
  "ws_model evs = fold ws_spec_step evs Map.empty"

text \<open>The stored workloads that have an address.\<close>

definition ws_holders :: "(strng \<rightharpoonup> Workload) \<Rightarrow> NetworkAddress \<Rightarrow> Workload set" where
  "ws_holders m k = {w. m (wl_uid w) = Some w \<and> k \<in> set (wl_addrs w)}"

text \<open>The list under a key, with the absent entry as the empty list.\<close>

definition addr_list :: "(NetworkAddress, WorkloadByAddr) hashmap \<Rightarrow> NetworkAddress \<Rightarrow> Workload list" where
  "addr_list m k = (case hm_get m k of None \<Rightarrow> [] | Some ent \<Rightarrow> wba_list ent)"

definition addr_ok :: "(NetworkAddress, WorkloadByAddr) hashmap \<Rightarrow> bool" where
  "addr_ok m \<longleftrightarrow> (\<forall>k ent. hm_get m k = Some ent \<longrightarrow> wba_list ent \<noteq> [])"

definition uid_list :: "(WorkloadIdentity, strng list) hashmap \<Rightarrow> WorkloadIdentity \<Rightarrow> strng list" where
  "uid_list m k = (case hm_get m k of None \<Rightarrow> [] | Some us \<Rightarrow> us)"

definition uid_ok :: "(WorkloadIdentity, strng list) hashmap \<Rightarrow> bool" where
  "uid_ok m \<longleftrightarrow> (\<forall>k us. hm_get m k = Some us \<longrightarrow> us \<noteq> [])"

section \<open>Lemmas\<close>

lemma wba_list_insert [simp]: "wba_list (wba_insert ent w) = wba_list ent @ [w]"
  by (cases ent) simp_all

lemma wba_list_remove:
  "wba_list ent \<noteq> [] \<Longrightarrow> wba_remove_uid ent uid = (ent', emptied) \<Longrightarrow>
     emptied = (filter (\<lambda>w. wl_uid w \<noteq> uid) (wba_list ent) = []) \<and>
     (\<not> emptied \<longrightarrow> wba_list ent' = filter (\<lambda>w. wl_uid w \<noteq> uid) (wba_list ent))"
  by (cases ent) (auto split: list.splits)

lemma addr_remove_list:
  assumes "addr_ok m"
  shows "addr_ok (addr_remove uid k m) \<and>
    addr_list (addr_remove uid k m) k' =
      (if k' = k then filter (\<lambda>w. wl_uid w \<noteq> uid) (addr_list m k) else addr_list m k')"
proof (cases "hm_get m k")
  case None
  with assms show ?thesis by (simp add: addr_remove_def addr_list_def)
next
  case (Some o1)
  obtain o2 emptied where r: "wba_remove_uid o1 uid = (o2, emptied)" by fastforce
  with assms Some wba_list_remove [of o1 uid o2 emptied] show ?thesis
    by (auto simp: addr_ok_def addr_remove_def addr_list_def split: if_splits)
qed

lemma addr_remove_each:
  "addr_ok m \<Longrightarrow> addr_ok (fold (addr_remove uid) ks m) \<and>
     addr_list (fold (addr_remove uid) ks m) k' =
       (if k' \<in> set ks then filter (\<lambda>w. wl_uid w \<noteq> uid) (addr_list m k') else addr_list m k')"
  by (induction ks arbitrary: m) (auto simp: addr_remove_list)

lemma addr_insert_list:
  "addr_ok m \<Longrightarrow> addr_ok (addr_insert w k m) \<and>
     addr_list (addr_insert w k m) k' = (if k' = k then addr_list m k @ [w] else addr_list m k')"
  by (auto simp: addr_ok_def addr_insert_def addr_list_def split: option.splits)

lemma addr_insert_each:
  "addr_ok m \<Longrightarrow> addr_ok (fold (addr_insert w) ks m) \<and>
     set (addr_list (fold (addr_insert w) ks m) k') =
       set (addr_list m k') \<union> (if k' \<in> set ks then {w} else {})"
  by (induction ks arbitrary: m) (auto simp: addr_insert_list split: if_splits)

lemma identity_remove_list:
  "uid_ok m \<Longrightarrow> uid_ok (identity_remove k uid m) \<and>
     uid_list (identity_remove k uid m) k' = (if k' = k then hs_remove uid (uid_list m k) else uid_list m k')"
  by (auto simp: uid_ok_def identity_remove_def uid_list_def Let_def hs_remove_def split: option.splits)

lemma identity_insert_list:
  "uid_ok m \<Longrightarrow> uid_ok (identity_insert k uid m) \<and>
     uid_list (identity_insert k uid m) k' = (if k' = k then hs_insert uid (uid_list m k) else uid_list m k')"
  by (auto simp: uid_ok_def identity_insert_def uid_list_def hs_insert_def split: option.splits)

lemma set_hs [simp]: "set (hs_insert x xs) = insert x (set xs)" "set (hs_remove x xs) = set xs - {x}"
  by (auto simp: hs_insert_def hs_remove_def)

lemma ws_inv_lists:
  "ws_inv s \<longleftrightarrow>
     hm_wf (ws_by_uid s) \<and>
     (\<forall>uid w. hm_get (ws_by_uid s) uid = Some w \<longrightarrow> wl_uid w = uid) \<and>
     addr_ok (ws_by_addr s) \<and> uid_ok (ws_node_local_by_identity s) \<and>
     (\<forall>k w. w \<in> set (addr_list (ws_by_addr s) k) \<longleftrightarrow>
        hm_get (ws_by_uid s) (wl_uid w) = Some w \<and> k \<in> set (wl_addrs w)) \<and>
     (\<forall>k uid. uid \<in> set (uid_list (ws_node_local_by_identity s) k) \<longleftrightarrow>
        (\<exists>w. hm_get (ws_by_uid s) uid = Some w \<and> ws_is_local s (wl_node w) \<and> ws_wid w = k))"
  unfolding ws_inv_def addr_ok_def uid_ok_def addr_list_def uid_list_def ws_at_def ws_uids_def by blast

lemma ws_inv_new: "ws_inv (ws_new n)"
  by (simp add: ws_inv_def ws_new_def ws_at_def ws_uids_def)

lemma ws_inv_remove:
  assumes "ws_inv s"
  shows "ws_inv (fst (ws_remove s uid))"
proof (cases "hm_get (ws_by_uid s) uid")
  case None
  with assms show ?thesis by (simp add: ws_remove_def)
next
  case (Some prev)
  define s' where "s' = fst (ws_remove s uid)"
  have uid: "wl_uid prev = uid" using assms Some by (simp add: ws_inv_def)
  have s': "ws_by_uid s' = hm_remove uid (ws_by_uid s)"
      "ws_by_addr s' = fold (addr_remove uid) (wl_addrs prev) (ws_by_addr s)"
      "ws_node_local_by_identity s' = identity_remove (ws_wid prev) uid (ws_node_local_by_identity s)"
      "ws_is_local s' = ws_is_local s"
    using Some uid by (simp_all add: s'_def ws_remove_def ws_wid_def ws_is_local_def fun_eq_iff)
  have "addr_ok (ws_by_addr s)" "uid_ok (ws_node_local_by_identity s)"
    using assms by (simp_all add: ws_inv_lists)
  note lists = addr_remove_each [OF this(1), of uid "wl_addrs prev"]
    identity_remove_list [OF this(2), of "ws_wid prev" uid]
  have "w \<in> set (addr_list (ws_by_addr s') k) \<longleftrightarrow>
      hm_get (ws_by_uid s') (wl_uid w) = Some w \<and> k \<in> set (wl_addrs w)" for k w
    using assms lists Some uid by (auto simp: ws_inv_lists s')
  moreover have "u \<in> set (uid_list (ws_node_local_by_identity s') k) \<longleftrightarrow>
      (\<exists>w. hm_get (ws_by_uid s') u = Some w \<and> ws_is_local s' (wl_node w) \<and> ws_wid w = k)" for k u
    using assms lists Some uid by (auto simp: ws_inv_lists s')
  ultimately have "ws_inv s'"
    using assms lists by (auto simp: ws_inv_lists s' split: if_splits)
  then show ?thesis by (simp add: s'_def)
qed

lemma ws_remove_by_uid:
  "hm_get (ws_by_uid (fst (ws_remove s uid))) u = (if u = uid then None else hm_get (ws_by_uid s) u)"
  by (auto simp: ws_remove_def split: option.splits)

lemma ws_inv_insert:
  assumes "ws_inv s"
  shows "ws_inv (ws_insert s w)"
proof -
  define s1 where "s1 = fst (ws_remove s (wl_uid w))"
  define s' where "s' = ws_insert s w"
  have inv: "ws_inv s1" and gone: "hm_get (ws_by_uid s1) (wl_uid w) = None"
    using assms by (simp_all add: s1_def ws_inv_remove ws_remove_by_uid)
  have s': "ws_by_uid s' = hm_insert (wl_uid w) w (ws_by_uid s1)"
      "ws_by_addr s' = fold (addr_insert w) (wl_addrs w) (ws_by_addr s1)"
      "ws_node_local_by_identity s' =
        (if ws_is_local s1 (wl_node w)
         then identity_insert (ws_wid w) (wl_uid w) (ws_node_local_by_identity s1)
         else ws_node_local_by_identity s1)"
      "ws_is_local s' = ws_is_local s1"
    by (simp_all add: s'_def s1_def ws_insert_def ws_wid_def ws_is_local_def fun_eq_iff Let_def)
  have "addr_ok (ws_by_addr s1)" "uid_ok (ws_node_local_by_identity s1)"
    using inv by (simp_all add: ws_inv_lists)
  note lists = addr_insert_each [OF this(1), of w "wl_addrs w"]
    identity_insert_list [OF this(2), of "ws_wid w" "wl_uid w"]
  have "v \<in> set (addr_list (ws_by_addr s') k) \<longleftrightarrow>
      hm_get (ws_by_uid s') (wl_uid v) = Some v \<and> k \<in> set (wl_addrs v)" for k v
    using inv lists gone by (auto simp: ws_inv_lists s')
  moreover have "u \<in> set (uid_list (ws_node_local_by_identity s') k) \<longleftrightarrow>
      (\<exists>v. hm_get (ws_by_uid s') u = Some v \<and> ws_is_local s' (wl_node v) \<and> ws_wid v = k)" for k u
    using inv lists gone by (auto simp: ws_inv_lists s')
  ultimately have "ws_inv s'"
    using inv lists by (auto simp: ws_inv_lists s' split: if_splits)
  then show ?thesis by (simp add: s'_def)
qed

lemmas ws_invs [store_invs] = ws_inv_new ws_inv_remove ws_inv_insert

lemma ws_step_refines:
  "hm_get (ws_by_uid (ws_step ev s)) = ws_spec_step ev (hm_get (ws_by_uid s))"
  by (cases ev) (auto simp: ws_insert_def ws_remove_by_uid fun_eq_iff Let_def)

lemma ws_inv_step: "ws_inv s \<Longrightarrow> ws_inv (ws_step ev s)"
  by (cases ev) (simp_all add: ws_invs)

lemma ws_local_node_step [simp]: "ws_local_node (ws_step ev s) = ws_local_node s"
  by (cases ev) (auto simp: ws_insert_def ws_remove_def Let_def split: option.splits)

lemma ws_fold_refines:
  "ws_inv s \<Longrightarrow> ws_inv (fold ws_step evs s) \<and>
     hm_get (ws_by_uid (fold ws_step evs s)) = fold ws_spec_step evs (hm_get (ws_by_uid s)) \<and>
     ws_local_node (fold ws_step evs s) = ws_local_node s"
  by (induction evs arbitrary: s) (simp_all add: ws_inv_step ws_step_refines)

lemma ws_run_refines:
  "ws_inv (ws_run n evs)" "hm_get (ws_by_uid (ws_run n evs)) = ws_model evs"
  "ws_local_node (ws_run n evs) = n"
proof -
  have "hm_get (ws_by_uid (ws_new n)) = Map.empty" "ws_local_node (ws_new n) = n"
    by (simp_all add: ws_new_def fun_eq_iff)
  then show "ws_inv (ws_run n evs)" "hm_get (ws_by_uid (ws_run n evs)) = ws_model evs"
      "ws_local_node (ws_run n evs) = n"
    using ws_fold_refines [OF ws_inv_new, of evs n] by (simp_all add: ws_run_def ws_model_def)
qed

lemma max_by_key_fold:
  fixes key :: "'a \<Rightarrow> nat"
  defines "f \<equiv> \<lambda>y best. if key best \<le> key y then y else best"
  shows "fold f xs x \<in> set (x # xs) \<and> (\<forall>y \<in> set (x # xs). key y \<le> key (fold f xs x))"
proof (induction xs arbitrary: x)
  case (Cons y ys)
  from Cons.IH [of "f y x"] have "key (f y x) \<le> key (fold f ys (f y x))" by simp
  moreover have "key x \<le> key (f y x)" "key y \<le> key (f y x)" "f y x \<in> {x, y}" by (auto simp: f_def)
  ultimately have "key x \<le> key (fold f ys (f y x))" "key y \<le> key (fold f ys (f y x))"
    by linarith+
  then show ?case using Cons.IH [of "f y x"] \<open>f y x \<in> {x, y}\<close> by auto
qed simp

lemma max_by_key_greatest:
  "xs \<noteq> [] \<Longrightarrow> \<exists>x \<in> set xs. max_by_key key xs = Some x \<and> (\<forall>y \<in> set xs. key y \<le> key x)"
  using max_by_key_fold [of key] by (cases xs) auto

lemma wba_get_greatest:
  "wba_list ent \<noteq> [] \<Longrightarrow>
     \<exists>w \<in> set (wba_list ent). wba_get ent = Some w \<and> (\<forall>v \<in> set (wba_list ent). wba_rank v \<le> wba_rank w)"
  using max_by_key_greatest [of _ wba_rank] by (cases ent) auto

lemma ws_at_iff:
  "ws_inv s \<Longrightarrow> w \<in> set (ws_at s k) \<longleftrightarrow> ws_find_uid s (wl_uid w) = Some w \<and> k \<in> set (wl_addrs w)"
  by (simp add: ws_inv_def ws_find_uid_def)

lemma ws_find_address_iff:
  fixes k :: NetworkAddress
  assumes "ws_inv s"
  defines "here \<equiv> \<lambda>w. ws_find_uid s (wl_uid w) = Some w \<and> k \<in> set (wl_addrs w)"
  shows "case ws_find_address s k of
      None \<Rightarrow> \<forall>w. \<not> here w
    | Some w \<Rightarrow> here w \<and> (\<forall>v. here v \<longrightarrow> wba_rank v \<le> wba_rank w)"
proof (cases "hm_get (ws_by_addr s) k")
  note ws_at = ws_at_iff [OF assms(1)]
  case None
  then have "ws_at s k = []" by (simp add: ws_at_def)
  with ws_at [of _ k] have "\<not> here w" for w by (simp add: here_def)
  with None show ?thesis by (simp add: ws_find_address_def)
next
  note ws_at = ws_at_iff [OF assms(1)]
  case (Some ent)
  then have "wba_list ent \<noteq> []" "here w \<longleftrightarrow> w \<in> set (wba_list ent)" for w
    using assms(1) ws_at [of w k] by (auto simp: ws_inv_def here_def ws_at_def)
  with Some wba_get_greatest [of ent] show ?thesis
    by (auto simp: ws_find_address_def)
qed

lemma find_map_Some: "find_map f xs = Some y \<Longrightarrow> \<exists>x \<in> set xs. f x = Some y"
  by (induction xs) (auto split: option.splits)

lemma find_map_None: "find_map f xs = None \<longleftrightarrow> (\<forall>x \<in> set xs. f x = None)"
  by (induction xs) (auto split: option.splits)

lemma ws_uids_iff:
  "ws_inv s \<Longrightarrow> uid \<in> set (ws_uids s k) \<longleftrightarrow>
     (\<exists>w. ws_find_uid s uid = Some w \<and> ws_is_local s (wl_node w) \<and> ws_wid w = k)"
  by (simp add: ws_inv_def ws_find_uid_def)

lemma ws_find_by_info_iff:
  fixes i :: WorkloadInfo
  assumes "ws_inv s"
  defines "found \<equiv> \<lambda>w. ws_find_uid s (wl_uid w) = Some w \<and> ws_is_local s (wl_node w) \<and> wi_matches i w"
  shows "case ws_find_by_info s i of None \<Rightarrow> \<forall>w. \<not> found w | Some w \<Rightarrow> found w"
proof -
  define k where "k = \<lparr>wid_namespace = wi_namespace i, wid_service_account = wi_service_account i\<rparr>"
  define f where "f = (\<lambda>uid. Option.bind (hm_get (ws_by_uid s) uid) (\<lambda>w. if wi_matches i w then Some w else None))"
  have eq: "ws_find_by_info s i = find_map f (ws_uids s k)"
    by (simp add: ws_find_by_info_def ws_uids_def k_def f_def split: option.splits)
  have keyed: "ws_find_uid s u = Some w \<Longrightarrow> wl_uid w = u" for u w
    using assms(1) by (simp add: ws_inv_def ws_find_uid_def)
  have f: "f u = Some w \<longleftrightarrow> ws_find_uid s u = Some w \<and> wi_matches i w" for u w
    by (auto simp: f_def ws_find_uid_def Option.bind_eq_Some_conv)
  have wid: "wi_matches i w \<Longrightarrow> ws_wid w = k" for w
    by (simp add: wi_matches_def ws_wid_def wl_identity_def k_def)
  show ?thesis
  proof (cases "ws_find_by_info s i")
    case None
    then have "\<forall>u \<in> set (ws_uids s k). f u = None" by (simp add: eq find_map_None)
    then have "\<not> found w" for w
      using f [of "wl_uid w" w] wid [of w] by (auto simp: found_def ws_uids_iff [OF assms(1)])
    with None show ?thesis by simp
  next
    case (Some w)
    then obtain u where "u \<in> set (ws_uids s k)" "f u = Some w"
      using find_map_Some eq by metis
    then have "found w"
      using keyed by (auto simp: found_def f ws_uids_iff [OF assms(1)])
    with Some show ?thesis by simp
  qed
qed

lemma was_last_identity_iff:
  assumes "ws_inv s"
  shows "was_last_identity_on_node s node identity \<longleftrightarrow>
    ws_is_local s node \<and>
    \<not> (\<exists>w. ws_find_uid s (wl_uid w) = Some w \<and> ws_is_local s (wl_node w) \<and>
          wl_namespace w = id_namespace identity \<and> wl_service_account w = id_service_account identity)"
proof -
  have "hm_contains (ws_node_local_by_identity s) k \<longleftrightarrow> ws_uids s k \<noteq> []" for k
    using assms by (auto simp: hm_contains_def ws_uids_def ws_inv_def split: option.splits)
  moreover have "ws_uids s k \<noteq> [] \<longleftrightarrow> (\<exists>u. u \<in> set (ws_uids s k))" for k
    by (cases "ws_uids s k") auto
  moreover have "ws_wid w = WorkloadIdentity_from identity \<longleftrightarrow>
      wl_namespace w = id_namespace identity \<and> wl_service_account w = id_service_account identity" for w
    by (cases identity) (simp add: ws_wid_def wl_identity_def)
  moreover have "ws_find_uid s u = Some w \<Longrightarrow> wl_uid w = u" for u w
    using assms by (simp add: ws_inv_def ws_find_uid_def)
  ultimately show ?thesis
    unfolding was_last_identity_on_node_def by (auto simp: ws_uids_iff [OF assms])
qed

text \<open>
  C9. The workload store is a faithful index. After any sequence of inserts and removals it holds the
  last inserted workload of every uid that was not removed since, and its invariant holds: the address
  index and the identity index are exactly what these workloads imply, with no stale and no empty entry.
\<close>

theorem workload_store_refines:
  "ws_inv (ws_run n evs) \<and> (\<forall>uid. ws_find_uid (ws_run n evs) uid = ws_model evs uid)"
  by (simp add: ws_run_refines ws_find_uid_def)

text \<open>
  Looking up an address never meets an empty entry, finds a workload exactly when some stored
  workload that is not on the host network has that address, and then one of greatest rank: pods before
  other workloads, and among those the ones that speak HBONE first.
\<close>

theorem workload_by_address:
  "None \<notin> wba_get ` ran (hm_get (ws_by_addr (ws_run n evs))) \<and>
   (case ws_find_address (ws_run n evs) k of
      None \<Rightarrow> ws_holders (ws_model evs) k = {}
    | Some w \<Rightarrow> w \<in> ws_holders (ws_model evs) k \<and>
        wba_rank ` ws_holders (ws_model evs) k \<subseteq> {..wba_rank w})"
proof -
  have "wba_get ent \<noteq> None" if "hm_get (ws_by_addr (ws_run n evs)) k = Some ent" for ent k
    using that ws_run_refines(1) [of n evs] wba_get_greatest [of ent] by (auto simp: ws_inv_def)
  then have "None \<notin> wba_get ` ran (hm_get (ws_by_addr (ws_run n evs)))"
    by (force simp: ran_def)
  then show ?thesis
    using ws_find_address_iff [OF ws_run_refines(1) [of n evs], of k]
    by (auto simp: ws_find_uid_def ws_run_refines ws_holders_def split: option.splits)
qed

text \<open>
  The identity index answers exactly: a lookup by name, namespace and service account finds a stored
  local workload with these three attributes if there is one, and an identity counts as gone from the
  node exactly when no stored local workload has its namespace and service account.
\<close>

theorem workload_by_identity:
  "(case ws_find_by_info (ws_run n evs) i of
      None \<Rightarrow> \<not> (\<exists>w. ws_model evs (wl_uid w) = Some w \<and> n \<in> {None, Some (wl_node w)} \<and> wi_matches i w)
    | Some w \<Rightarrow> ws_model evs (wl_uid w) = Some w \<and> n \<in> {None, Some (wl_node w)} \<and> wi_matches i w) \<and>
   (was_last_identity_on_node (ws_run n evs) node identity \<longleftrightarrow>
      n \<in> {None, Some node} \<and>
      \<not> (\<exists>w. ws_model evs (wl_uid w) = Some w \<and> n \<in> {None, Some (wl_node w)} \<and>
            wl_namespace w = id_namespace identity \<and> wl_service_account w = id_service_account identity))"
  using ws_find_by_info_iff [OF ws_run_refines(1) [of n evs], of i]
    was_last_identity_iff [OF ws_run_refines(1) [of n evs], of node identity]
  by (auto simp: ws_find_uid_def ws_is_local_def ws_run_refines split: option.splits)

end
