(* ===== verification/Service.thy ===== *)
theory Service
  imports WorkloadStore
begin

text \<open>
  Services, \<^verbatim>\<open>src/state/service.rs\<close>: the conversion of the xDS message, the store with its indices by
  virtual address and by host name and its staging area for endpoints that arrive before their service,
  and the choice among services that share a host name.
\<close>

section \<open>Types\<close>

datatype LoadBalancerMode = LbStandard | LbStrict | LbFailover | LbPassthrough
datatype LoadBalancerHealthPolicy = OnlyHealthy | AllowAll
datatype LoadBalancerScopes = Region | Zone | Subzone | Node | Cluster | Network
datatype IpFamily = Dual | IPv4 | IPv6

text \<open>The enumerations of \<^verbatim>\<open>proto/workload.proto\<close>, in the order of their numbers.\<close>

datatype XdsMode = UnspecifiedMode | XdsStrict | XdsFailover | XdsPassthrough
datatype XdsHealthPolicy = XdsOnlyHealthy | XdsAllowAll
datatype XdsScope = UnspecifiedScope | XdsRegion | XdsZone | XdsSubzone | XdsNode | XdsCluster | XdsNetwork
datatype IpFamilies = Automatic | Ipv4Only | Ipv6Only | XdsDual

record LoadBalancer =
  lb_routing_preferences :: "LoadBalancerScopes list"
  lb_mode :: LoadBalancerMode
  lb_health_policy :: LoadBalancerHealthPolicy

record Endpoint =
  ep_workload_uid :: strng
  ep_port :: "(u16, u16) hashmap"
  ep_status :: HealthStatus

type_synonym EndpointSet = "(strng, Endpoint) hashmap"

record Service =
  sv_name :: strng
  sv_namespace :: strng
  sv_hostname :: strng
  sv_vips :: "NetworkAddress list"
  sv_ports :: "(u16, u16) hashmap"
  sv_endpoints :: EndpointSet
  sv_subject_alt_names :: "strng list"
  sv_waypoint :: "GatewayAddress option"
  sv_load_balancer :: "LoadBalancer option"
  sv_ip_families :: "IpFamily option"
  sv_canonical :: bool

record XdsLoadBalancing =
  xlb_routing_preference :: "int list"
  xlb_mode :: int
  xlb_health_policy :: int

record XdsService =
  xsv_name :: string
  xsv_namespace :: string
  xsv_hostname :: string
  xsv_addresses :: "XdsNetworkAddress list"
  xsv_ports :: "XdsPort list"
  xsv_subject_alt_names :: "string list"
  xsv_waypoint :: "XdsGatewayAddress option"
  xsv_load_balancing :: "XdsLoadBalancing option"
  xsv_ip_families :: int
  xsv_canonical :: bool

record ServiceStore =
  ss_staged_services :: "(NamespacedHostname, EndpointSet) hashmap"
  ss_by_vip :: "(NetworkAddress, Service) hashmap"
  ss_by_host :: "(strng, Service list) hashmap"

section \<open>Conversion from xDS\<close>

definition LoadBalancerMode_from :: "XdsMode \<Rightarrow> LoadBalancerMode" where
  "LoadBalancerMode_from v =
     (case v of XdsStrict \<Rightarrow> LbStrict | XdsFailover \<Rightarrow> LbFailover | UnspecifiedMode \<Rightarrow> LbStandard
      | XdsPassthrough \<Rightarrow> LbPassthrough)"

definition LoadBalancerHealthPolicy_from :: "XdsHealthPolicy \<Rightarrow> LoadBalancerHealthPolicy" where
  "LoadBalancerHealthPolicy_from v = (case v of XdsOnlyHealthy \<Rightarrow> OnlyHealthy | XdsAllowAll \<Rightarrow> AllowAll)"

definition LoadBalancerScopes_try_from :: "XdsScope \<Rightarrow> (LoadBalancerScopes, WorkloadError) result" where
  "LoadBalancerScopes_try_from v =
     (case v of
        XdsRegion \<Rightarrow> Ok Region | XdsZone \<Rightarrow> Ok Zone | XdsSubzone \<Rightarrow> Ok Subzone | XdsNode \<Rightarrow> Ok Node
      | XdsCluster \<Rightarrow> Ok Cluster | XdsNetwork \<Rightarrow> Ok Network
      | UnspecifiedScope \<Rightarrow> Err (EnumParse ''invalid target''))"

definition IpFamily_from :: "IpFamilies \<Rightarrow> IpFamily option" where
  "IpFamily_from v =
     (case v of Automatic \<Rightarrow> None | Ipv4Only \<Rightarrow> Some IPv4 | Ipv6Only \<Rightarrow> Some IPv6 | XdsDual \<Rightarrow> Some Dual)"

definition accepts_ip :: "IpFamily \<Rightarrow> IpAddr \<Rightarrow> bool" where
  "accepts_ip f ip = (case f of Dual \<Rightarrow> True | IPv4 \<Rightarrow> is_ipv4 ip | IPv6 \<Rightarrow> is_ipv6 ip)"

text \<open>An enumeration read from its number: the values in order.\<close>

definition enum_of :: "'a list \<Rightarrow> int \<Rightarrow> ('a, WorkloadError) result" where
  "enum_of vs v = (if 0 \<le> v \<and> v < int (length vs) then Ok (vs ! nat v) else Err (EnumError v))"

definition network_address_try_from :: "XdsNetworkAddress \<Rightarrow> (NetworkAddress, WorkloadError) result" where
  "network_address_try_from addr =
     and_then (map_err to_byte_error (byte_to_ip (xna_address addr)))
       (\<lambda>ip. Ok (network_addr (xna_network addr) ip))"

definition LoadBalancer_try_from :: "XdsLoadBalancing \<Rightarrow> (LoadBalancer, WorkloadError) result" where
  "LoadBalancer_try_from lb =
     and_then (traverse (\<lambda>r. and_then
         (enum_of [UnspecifiedScope, XdsRegion, XdsZone, XdsSubzone, XdsNode, XdsCluster, XdsNetwork] r)
         LoadBalancerScopes_try_from) (xlb_routing_preference lb)) (\<lambda>routing_preferences.
     and_then (enum_of [UnspecifiedMode, XdsStrict, XdsFailover, XdsPassthrough] (xlb_mode lb)) (\<lambda>mode.
     and_then (enum_of [XdsOnlyHealthy, XdsAllowAll] (xlb_health_policy lb)) (\<lambda>health_policy.
       Ok \<lparr>lb_routing_preferences = routing_preferences, lb_mode = LoadBalancerMode_from mode,
           lb_health_policy = LoadBalancerHealthPolicy_from health_policy\<rparr>)))"

definition Service_try_from :: "XdsService \<Rightarrow> (Service, WorkloadError) result" where
  "Service_try_from s =
     and_then (traverse network_address_try_from (xsv_addresses s)) (\<lambda>nw_addrs.
     and_then (transpose_opt GatewayAddress_try_from (xsv_waypoint s)) (\<lambda>waypoint.
     and_then (transpose_opt LoadBalancer_try_from (xsv_load_balancing s)) (\<lambda>lb.
     and_then (enum_of [Automatic, Ipv4Only, Ipv6Only, XdsDual] (xsv_ip_families s)) (\<lambda>ip_families.
       Ok \<lparr>sv_name = xsv_name s, sv_namespace = xsv_namespace s, sv_hostname = xsv_hostname s,
           sv_vips = nw_addrs, sv_ports = port_map \<lparr>pl_ports = xsv_ports s\<rparr>, sv_endpoints = [],
           sv_subject_alt_names = xsv_subject_alt_names s, sv_waypoint = waypoint, sv_load_balancer = lb,
           sv_ip_families = IpFamily_from ip_families, sv_canonical = xsv_canonical s\<rparr>))))"

section \<open>Services\<close>

definition namespaced_hostname :: "Service \<Rightarrow> NamespacedHostname" where
  "namespaced_hostname s = \<lparr>nh_namespace = sv_namespace s, nh_hostname = sv_hostname s\<rparr>"

definition contains_endpoint :: "Service \<Rightarrow> Workload \<Rightarrow> bool" where
  "contains_endpoint s wl = hm_contains (sv_endpoints s) (wl_uid wl)"

definition should_include_endpoint :: "Service \<Rightarrow> HealthStatus \<Rightarrow> bool" where
  "should_include_endpoint s ep_health =
     (ep_health = Healthy \<or>
      (case sv_load_balancer s of None \<Rightarrow> False | Some lb \<Rightarrow> lb_health_policy lb = AllowAll))"

datatype ServiceMatch =
  MatchCanonical Service | MatchNamespace Service | MatchPreferred Service | MatchFirst Service | MatchNone

fun ServiceMatch_into :: "ServiceMatch \<Rightarrow> Service option" where
  "ServiceMatch_into (MatchCanonical s) = Some s"
| "ServiceMatch_into (MatchFirst s) = Some s"
| "ServiceMatch_into (MatchNamespace s) = Some s"
| "ServiceMatch_into (MatchPreferred s) = Some s"
| "ServiceMatch_into MatchNone = None"

text \<open>The \<open>fold_while\<close>: a service of the client's namespace ends it.\<close>

fun best_match_loop ::
  "strng option \<Rightarrow> strng option \<Rightarrow> Service list \<Rightarrow> ServiceMatch \<Rightarrow> ServiceMatch"
where
  "best_match_loop client_ns preferred [] r = r"
| "best_match_loop client_ns preferred (s # ss) r =
     (if Some (sv_namespace s) = client_ns then MatchNamespace s
      else if sv_canonical s then best_match_loop client_ns preferred ss (MatchCanonical s)
      else if preferred = Some (sv_namespace s) \<and> \<not> (case r of MatchCanonical _ \<Rightarrow> True | _ \<Rightarrow> False)
      then best_match_loop client_ns preferred ss (MatchPreferred s)
      else best_match_loop client_ns preferred ss (case r of MatchNone \<Rightarrow> MatchFirst s | _ \<Rightarrow> r))"

definition find_best_match :: "Service list \<Rightarrow> strng option \<Rightarrow> strng option \<Rightarrow> Service option" where
  "find_best_match services client_ns preferred =
     ServiceMatch_into (best_match_loop client_ns preferred services MatchNone)"

section \<open>The store\<close>

definition ss_default :: ServiceStore where
  "ss_default = \<lparr>ss_staged_services = [], ss_by_vip = [], ss_by_host = []\<rparr>"

definition get_by_vip :: "ServiceStore \<Rightarrow> NetworkAddress \<Rightarrow> Service option" where
  "get_by_vip st vip = hm_get (ss_by_vip st) vip"

definition get_by_host :: "ServiceStore \<Rightarrow> strng \<Rightarrow> Service list option" where
  "get_by_host st hostname = hm_get (ss_by_host st) hostname"

definition get_best_by_host :: "ServiceStore \<Rightarrow> strng \<Rightarrow> strng option \<Rightarrow> Service option" where
  "get_best_by_host st hostname ns =
     Option.bind (get_by_host st hostname) (\<lambda>services. find_best_match services ns None)"

definition get_by_namespaced_host :: "ServiceStore \<Rightarrow> NamespacedHostname \<Rightarrow> Service option" where
  "get_by_namespaced_host st host =
     (case hm_get (ss_by_host st) (nh_hostname host) of
        None \<Rightarrow> None
      | Some services \<Rightarrow> find (\<lambda>s. sv_namespace s = nh_namespace host) services)"

definition get_by_workload :: "ServiceStore \<Rightarrow> Workload \<Rightarrow> Service list" where
  "get_by_workload st wl = List.map_filter (get_by_namespaced_host st) (wl_services wl)"

text \<open>Replace the slot of the namespace, or append.\<close>

fun place_service :: "Service \<Rightarrow> Service list \<Rightarrow> Service list" where
  "place_service s [] = [s]"
| "place_service s (t # ts) =
     (if sv_namespace t = sv_namespace s then s # ts else t # place_service s ts)"

text \<open>Take the first service of the namespace out of the list.\<close>

fun take_service :: "strng \<Rightarrow> Service list \<Rightarrow> (Service \<times> Service list) option" where
  "take_service ns [] = None"
| "take_service ns (t # ts) =
     (if sv_namespace t = ns then Some (t, ts)
      else map_option (\<lambda>(p, rest). (p, t # rest)) (take_service ns ts))"

definition ss_remove :: "ServiceStore \<Rightarrow> NamespacedHostname \<Rightarrow> ServiceStore \<times> bool" where
  "ss_remove st host =
     (case hm_get (ss_by_host st) (nh_hostname host) of
        None \<Rightarrow> (st, False)
      | Some services \<Rightarrow>
          (case take_service (nh_namespace host) services of
             None \<Rightarrow> (st, False)
           | Some (prev, rest) \<Rightarrow>
               (st\<lparr>ss_by_host :=
                     (if rest = [] then hm_remove (nh_hostname host) (ss_by_host st)
                      else hm_insert (nh_hostname host) rest (ss_by_host st)),
                   ss_by_vip := fold hm_remove (sv_vips prev) (ss_by_vip st),
                   ss_staged_services := hm_remove host (ss_staged_services st)\<rparr>, True)))"

definition add_endpoints :: "EndpointSet \<Rightarrow> Service \<Rightarrow> Service" where
  "add_endpoints eps s =
     fold (\<lambda>(wip, ep) s. if should_include_endpoint s (ep_status ep)
                          then s\<lparr>sv_endpoints := hm_insert wip ep (sv_endpoints s)\<rparr> else s) eps s"

definition ss_place :: "Service \<Rightarrow> ServiceStore \<Rightarrow> ServiceStore" where
  "ss_place s st =
     st\<lparr>ss_by_vip := fold (\<lambda>vip. hm_insert vip s) (sv_vips s) (ss_by_vip st),
        ss_by_host :=
          hm_insert (sv_hostname s)
            (case hm_get (ss_by_host st) (sv_hostname s) of
               None \<Rightarrow> [s] | Some services \<Rightarrow> place_service s services) (ss_by_host st)\<rparr>"

definition insert_internal :: "ServiceStore \<Rightarrow> Service \<Rightarrow> bool \<Rightarrow> ServiceStore" where
  "insert_internal st service endpoint_update_only =
     (if endpoint_update_only then ss_place service st
      else
        (let host = namespaced_hostname service;
             (service, st) =
               (case hm_get (ss_staged_services st) host of
                  None \<Rightarrow> (service, st)
                | Some endpoints \<Rightarrow>
                    (add_endpoints endpoints service,
                     st\<lparr>ss_staged_services := hm_remove host (ss_staged_services st)\<rparr>))
         in ss_place service (fst (ss_remove st host))))"

definition ss_insert :: "ServiceStore \<Rightarrow> Service \<Rightarrow> ServiceStore" where
  "ss_insert st service = insert_internal st service False"

definition insert_endpoint_update :: "ServiceStore \<Rightarrow> Service \<Rightarrow> ServiceStore" where
  "insert_endpoint_update st service = insert_internal st service True"

definition insert_endpoint :: "ServiceStore \<Rightarrow> NamespacedHostname \<Rightarrow> Endpoint \<Rightarrow> ServiceStore" where
  "insert_endpoint st service_name ep =
     (case get_by_namespaced_host st service_name of
        Some svc \<Rightarrow>
          (if \<not> should_include_endpoint svc (ep_status ep) then st
           else insert_endpoint_update st
                  (svc\<lparr>sv_endpoints := hm_insert (ep_workload_uid ep) ep (sv_endpoints svc)\<rparr>))
      | None \<Rightarrow>
          st\<lparr>ss_staged_services :=
            hm_insert service_name
              (hm_insert (ep_workload_uid ep) ep
                (case hm_get (ss_staged_services st) service_name of None \<Rightarrow> [] | Some m \<Rightarrow> m))
              (ss_staged_services st)\<rparr>)"

definition unstage :: "strng \<Rightarrow> NamespacedHostname \<Rightarrow> ServiceStore \<Rightarrow> ServiceStore" where
  "unstage uid svc st =
     (let eps = hm_remove uid (case hm_get (ss_staged_services st) svc of None \<Rightarrow> [] | Some m \<Rightarrow> m)
      in st\<lparr>ss_staged_services :=
           (if eps = [] then hm_remove svc (ss_staged_services st)
            else hm_insert svc eps (ss_staged_services st))\<rparr>)"

definition detach :: "strng \<Rightarrow> NamespacedHostname \<Rightarrow> ServiceStore \<Rightarrow> ServiceStore" where
  "detach uid svc st =
     (case get_by_namespaced_host st svc of
        None \<Rightarrow> st
      | Some s \<Rightarrow> insert_endpoint_update st (s\<lparr>sv_endpoints := hm_remove uid (sv_endpoints s)\<rparr>))"

definition remove_endpoint :: "ServiceStore \<Rightarrow> Workload \<Rightarrow> ServiceStore" where
  "remove_endpoint st prev_workload =
     (let st = fold (unstage (wl_uid prev_workload)) (wl_services prev_workload) st;
          services_to_update = fold hs_insert (wl_services prev_workload) []
      in fold (detach (wl_uid prev_workload)) services_to_update st)"

section \<open>Specification\<close>

text \<open>
  The invariant of the store: host lists are nonempty, hold services of their host name, one per
  namespace; a virtual address leads to the current version of a service that lists it; endpoints are
  staged only for services that are not there.
\<close>

definition host_ok :: "strng \<Rightarrow> Service list \<Rightarrow> bool" where
  "host_ok h ss = (ss \<noteq> [] \<and> distinct (map sv_namespace ss) \<and> list_all (\<lambda>s. sv_hostname s = h) ss)"

definition ss_inv :: "ServiceStore \<Rightarrow> bool" where
  "ss_inv st \<longleftrightarrow>
     (\<forall>h ss. hm_get (ss_by_host st) h = Some ss \<longrightarrow> host_ok h ss) \<and>
     (\<forall>v s. get_by_vip st v = Some s \<longrightarrow>
        v \<in> set (sv_vips s) \<and> get_by_namespaced_host st (namespaced_hostname s) = Some s) \<and>
     (\<forall>host m. hm_get (ss_staged_services st) host = Some m \<longrightarrow>
        m \<noteq> [] \<and> hm_wf m \<and> get_by_namespaced_host st host = None)"

datatype ss_event =
  SsInsert Service | SsRemove NamespacedHostname | SsEndpoint NamespacedHostname Endpoint | SsDetach Workload

fun ss_step :: "ss_event \<Rightarrow> ServiceStore \<Rightarrow> ServiceStore" where
  "ss_step (SsInsert s) st = ss_insert st s"
| "ss_step (SsRemove host) st = fst (ss_remove st host)"
| "ss_step (SsEndpoint host ep) st = insert_endpoint st host ep"
| "ss_step (SsDetach w) st = remove_endpoint st w"

definition staged_at :: "ServiceStore \<Rightarrow> NamespacedHostname \<Rightarrow> EndpointSet" where
  "staged_at st host = (case hm_get (ss_staged_services st) host of None \<Rightarrow> [] | Some m \<Rightarrow> m)"

text \<open>The choice among services of one host name, as an ordered list of preferences.\<close>

definition best_match_spec :: "Service list \<Rightarrow> strng option \<Rightarrow> strng option \<Rightarrow> Service option" where
  "best_match_spec services client_ns preferred =
     (case find (\<lambda>s. Some (sv_namespace s) = client_ns) services of
        Some s \<Rightarrow> Some s
      | None \<Rightarrow>
          (case find sv_canonical (rev services) of
             Some s \<Rightarrow> Some s
           | None \<Rightarrow>
               (case find (\<lambda>s. preferred = Some (sv_namespace s)) (rev services) of
                  Some s \<Rightarrow> Some s
                | None \<Rightarrow> (case services of [] \<Rightarrow> None | s # _ \<Rightarrow> Some s))))"

definition example_service :: Service where
  "example_service = \<lparr>sv_name = ''web'', sv_namespace = ''prod'', sv_hostname = ''web.prod.svc'',
     sv_vips = [network_addr '''' (V4 0x0A600001)], sv_ports = [(80, 8080)], sv_endpoints = [],
     sv_subject_alt_names = [], sv_waypoint = None, sv_load_balancer = None, sv_ip_families = None,
     sv_canonical = False\<rparr>"

definition example_endpoint :: Endpoint where
  "example_endpoint = \<lparr>ep_workload_uid = ''cluster//Pod/prod/web-1'', ep_port = [(80, 8080)], ep_status = Healthy\<rparr>"

section \<open>Lemmas\<close>

lemma nh_eq: "host = namespaced_hostname s \<longleftrightarrow> nh_hostname host = sv_hostname s \<and> nh_namespace host = sv_namespace s"
  by (cases host) (auto simp: namespaced_hostname_def)

lemma find_place_service:
  "find (\<lambda>t. sv_namespace t = ns) (place_service s ts) =
     (if ns = sv_namespace s then Some s else find (\<lambda>t. sv_namespace t = ns) ts)"
  by (induction ts) auto

lemma place_service_ns:
  "map sv_namespace (place_service s ts) =
     (if sv_namespace s \<in> sv_namespace ` set ts then map sv_namespace ts
      else map sv_namespace ts @ [sv_namespace s])"
  by (induction ts) auto

lemma set_place_service: "set (place_service s ts) \<subseteq> insert s (set ts)"
  by (induction ts) auto

lemma place_service_ok: "host_ok h ts \<Longrightarrow> sv_hostname s = h \<Longrightarrow> host_ok h (place_service s ts)"
  using set_place_service [of s ts]
  by (cases ts) (auto simp: host_ok_def place_service_ns list_all_iff)

lemma host_ok_single: "host_ok (sv_hostname s) [s]"
  by (simp add: host_ok_def)

lemma place_service_twice:
  "sv_namespace s' = sv_namespace s \<Longrightarrow> place_service s' (place_service s ts) = place_service s' ts"
  by (induction ts) auto

lemma take_service_None: "take_service ns ts = None \<longleftrightarrow> find (\<lambda>t. sv_namespace t = ns) ts = None"
  by (induction ts) auto

lemma take_service_Some:
  "take_service ns ts = Some (p, rest) \<Longrightarrow>
     find (\<lambda>t. sv_namespace t = ns) ts = Some p \<and> set rest \<subseteq> set ts \<and>
     (distinct (map sv_namespace ts) \<longrightarrow>
        distinct (map sv_namespace rest) \<and>
        find (\<lambda>t. sv_namespace t = ns') rest =
          (if ns' = ns then None else find (\<lambda>t. sv_namespace t = ns') ts))"
proof (induction ts arbitrary: rest)
  case (Cons t ts)
  show ?case
  proof (cases "sv_namespace t = ns")
    case True
    with Cons.prems show ?thesis by (fastforce simp: find_None_iff image_iff)
  next
    case False
    with Cons.prems obtain r where r: "take_service ns ts = Some (p, r)" "rest = t # r"
      by auto
    with Cons.IH [OF r(1)] False show ?thesis by auto
  qed
qed simp

subsection \<open>What each operation does to the lookups\<close>

lemma view_place [store_simps]:
  "get_by_namespaced_host (ss_place s st) host =
     (if host = namespaced_hostname s then Some s else get_by_namespaced_host st host)"
  by (auto simp: get_by_namespaced_host_def ss_place_def nh_eq find_place_service split: option.splits)

lemma vip_place [store_simps]:
  "get_by_vip (ss_place s st) v = (if v \<in> set (sv_vips s) then Some s else get_by_vip st v)"
  by (simp add: get_by_vip_def ss_place_def hm.get_ins_each)

lemma staged_place [simp]: "ss_staged_services (ss_place s st) = ss_staged_services st"
  by (simp add: ss_place_def)

lemma view_cong: "ss_by_host st = ss_by_host st' \<Longrightarrow> get_by_namespaced_host st = get_by_namespaced_host st'"
  by (simp add: get_by_namespaced_host_def fun_eq_iff)

lemma view_staged_update [simp]:
  "get_by_namespaced_host (st\<lparr>ss_staged_services := x\<rparr>) = get_by_namespaced_host st"
  "get_by_vip (st\<lparr>ss_staged_services := x\<rparr>) = get_by_vip st"
  by (simp_all add: get_by_namespaced_host_def get_by_vip_def fun_eq_iff)

lemma ss_inv_host: "ss_inv st \<Longrightarrow> hm_get (ss_by_host st) h = Some ss \<Longrightarrow> host_ok h ss"
  by (simp add: ss_inv_def)

lemma ss_inv_vip:
  "ss_inv st \<Longrightarrow> get_by_vip st v = Some s \<Longrightarrow>
     v \<in> set (sv_vips s) \<and> get_by_namespaced_host st (namespaced_hostname s) = Some s"
  by (simp add: ss_inv_def)

lemma ss_inv_staged:
  "ss_inv st \<Longrightarrow> hm_get (ss_staged_services st) host = Some m \<Longrightarrow>
     m \<noteq> [] \<and> hm_wf m \<and> get_by_namespaced_host st host = None"
  by (simp add: ss_inv_def)

lemma view_keyed:
  assumes "ss_inv st" "get_by_namespaced_host st host = Some s"
  shows "namespaced_hostname s = host"
proof -
  obtain ss where ss: "hm_get (ss_by_host st) (nh_hostname host) = Some ss"
      "find (\<lambda>t. sv_namespace t = nh_namespace host) ss = Some s"
    using assms(2) by (auto simp: get_by_namespaced_host_def split: option.splits)
  then have "s \<in> set ss" "sv_namespace s = nh_namespace host"
    using find_Some_in [OF ss(2)] by auto
  moreover have "sv_hostname s = nh_hostname host"
    using ss_inv_host [OF assms(1) ss(1)] \<open>s \<in> set ss\<close> by (auto simp: host_ok_def list_all_iff)
  ultimately show ?thesis using nh_eq [of host s] by simp
qed

lemma ss_remove_absent:
  "get_by_namespaced_host st host = None \<Longrightarrow> ss_remove st host = (st, False)"
  by (auto simp: get_by_namespaced_host_def ss_remove_def simp flip: take_service_None split: option.splits)

lemma ss_remove_present:
  fixes host :: NamespacedHostname
  assumes "ss_inv st" "get_by_namespaced_host st host = Some prev"
  defines "st' \<equiv> fst (ss_remove st host)"
  shows "get_by_namespaced_host st' h = (if h = host then None else get_by_namespaced_host st h)"
    "get_by_vip st' v = (if v \<in> set (sv_vips prev) then None else get_by_vip st v)"
    "ss_staged_services st' = hm_remove host (ss_staged_services st)"
    "hm_get (ss_by_host st') hn = Some ss' \<Longrightarrow> host_ok hn ss'"
    "snd (ss_remove st host)"
proof -
  from assms(2) obtain ss where ss: "hm_get (ss_by_host st) (nh_hostname host) = Some ss"
      "find (\<lambda>t. sv_namespace t = nh_namespace host) ss = Some prev"
    by (auto simp: get_by_namespaced_host_def split: option.splits)
  then obtain p rest where t: "take_service (nh_namespace host) ss = Some (p, rest)"
    using take_service_None [of "nh_namespace host" ss] by fastforce
  have ok: "host_ok (nh_hostname host) ss" using ss_inv_host [OF assms(1) ss(1)] .
  from take_service_Some [OF t] ss(2) ok have p: "p = prev" and sub: "set rest \<subseteq> set ss"
    and rest: "distinct (map sv_namespace rest)"
      "\<And>ns'. find (\<lambda>t. sv_namespace t = ns') rest =
          (if ns' = nh_namespace host then None else find (\<lambda>t. sv_namespace t = ns') ss)"
    by (auto simp: host_ok_def)
  have st': "snd (ss_remove st host)"
      "ss_by_host st' = (if rest = [] then hm_remove (nh_hostname host) (ss_by_host st)
        else hm_insert (nh_hostname host) rest (ss_by_host st))"
      "ss_by_vip st' = fold hm_remove (sv_vips prev) (ss_by_vip st)"
      "ss_staged_services st' = hm_remove host (ss_staged_services st)"
    using ss(1) t p by (simp_all add: st'_def ss_remove_def)
  show "get_by_namespaced_host st' h = (if h = host then None else get_by_namespaced_host st h)"
  proof (cases "nh_hostname h = nh_hostname host")
    case True
    then have "h = host \<longleftrightarrow> nh_namespace h = nh_namespace host" by (cases h; cases host) auto
    with True rest(2) [of "nh_namespace h"] ss(1) show ?thesis
      by (cases "rest = []") (auto simp: get_by_namespaced_host_def st'(2))
  qed (auto simp: get_by_namespaced_host_def st'(2))
  show "host_ok hn ss'" if "hm_get (ss_by_host st') hn = Some ss'"
    using that ok sub rest(1) ss_inv_host [OF assms(1)]
    by (auto simp: st'(2) host_ok_def list_all_iff split: if_splits)
  show "get_by_vip st' v = (if v \<in> set (sv_vips prev) then None else get_by_vip st v)"
      "ss_staged_services st' = hm_remove host (ss_staged_services st)" "snd (ss_remove st host)"
    by (simp_all add: get_by_vip_def st' hm.get_del_each)
qed

lemma ss_inv_remove: "ss_inv st \<Longrightarrow> ss_inv (fst (ss_remove st host))"
proof (cases "get_by_namespaced_host st host")
  case (Some prev)
  assume inv: "ss_inv st"
  note st' = ss_remove_present [OF inv Some]
  show ?thesis
    unfolding ss_inv_def using st'(4) Some ss_inv_vip [OF inv] ss_inv_staged [OF inv]
    by (fastforce simp: st'(1-3) split: if_splits)
qed (simp add: ss_remove_absent)

lemma ss_inv_place:
  assumes "ss_inv st" "hm_get (ss_staged_services st) (namespaced_hostname s) = None"
    and "\<And>t. get_by_namespaced_host st (namespaced_hostname s) = Some t \<Longrightarrow> set (sv_vips t) \<subseteq> set (sv_vips s)"
  shows "ss_inv (ss_place s st)"
proof -
  have "host_ok h ss" if "hm_get (ss_by_host (ss_place s st)) h = Some ss" for h ss
    using that ss_inv_host [OF assms(1)] place_service_ok host_ok_single
    by (auto simp: ss_place_def split: if_splits option.splits)
  moreover have "v \<in> set (sv_vips t) \<and>
      get_by_namespaced_host (ss_place s st) (namespaced_hostname t) = Some t"
    if "get_by_vip (ss_place s st) v = Some t" for v t
    using that ss_inv_vip [OF assms(1), of v t] assms(3) [of t]
    by (auto simp: store_simps split: if_splits)
  moreover have "m \<noteq> [] \<and> hm_wf m \<and> get_by_namespaced_host (ss_place s st) host = None"
    if "hm_get (ss_staged_services (ss_place s st)) host = Some m" for host m
    using that ss_inv_staged [OF assms(1), of host m] assms(2) by (auto simp: store_simps)
  ultimately show ?thesis unfolding ss_inv_def by blast
qed

lemma add_endpoints_fields [simp]:
  "sv_namespace (add_endpoints eps s) = sv_namespace s" "sv_hostname (add_endpoints eps s) = sv_hostname s"
  "sv_vips (add_endpoints eps s) = sv_vips s" "sv_load_balancer (add_endpoints eps s) = sv_load_balancer s"
proof -
  have "sv_namespace (add_endpoints eps s) = sv_namespace s \<and> sv_hostname (add_endpoints eps s) = sv_hostname s \<and>
      sv_vips (add_endpoints eps s) = sv_vips s \<and> sv_load_balancer (add_endpoints eps s) = sv_load_balancer s"
    unfolding add_endpoints_def by (induction eps arbitrary: s) (auto split: prod.splits)
  then show "sv_namespace (add_endpoints eps s) = sv_namespace s"
    "sv_hostname (add_endpoints eps s) = sv_hostname s"
    "sv_vips (add_endpoints eps s) = sv_vips s" "sv_load_balancer (add_endpoints eps s) = sv_load_balancer s"
    by simp_all
qed

lemma add_endpoints_hostname [simp]: "namespaced_hostname (add_endpoints eps s) = namespaced_hostname s"
  by (simp add: namespaced_hostname_def)

lemma add_endpoints_Nil [simp]: "add_endpoints [] s = s"
  by (simp add: add_endpoints_def)

text \<open>Inserting a service: what was staged for it is attached, the rest of the store is as before.\<close>

lemma ss_insert_steps:
  fixes s :: Service
  assumes "ss_inv st"
  defines "host \<equiv> namespaced_hostname s"
  obtains st' where "ss_insert st s = ss_place (add_endpoints (staged_at st host) s) st'"
    "ss_inv st'" "\<And>h. get_by_namespaced_host st' h = (if h = host then None else get_by_namespaced_host st h)"
    "\<And>h. hm_get (ss_staged_services st') h = (if h = host then None else hm_get (ss_staged_services st) h)"
    "get_by_namespaced_host st host = None \<longrightarrow> get_by_vip st' = get_by_vip st"
proof (cases "get_by_namespaced_host st host")
  case None
  define st' where "st' = st\<lparr>ss_staged_services := hm_remove host (ss_staged_services st)\<rparr>"
  have inv: "ss_inv st'"
    using assms(1) by (auto simp: ss_inv_def st'_def)
  have "ss_insert st s = ss_place (add_endpoints (staged_at st host) s)
      (if hm_get (ss_staged_services st) host = None then st else st')"
    using None ss_remove_absent [of st host] ss_remove_absent [of st' host]
    by (auto simp: ss_insert_def insert_internal_def host_def [symmetric] staged_at_def st'_def split: option.splits)
  moreover have "ss_inv (if hm_get (ss_staged_services st) host = None then st else st')"
    using inv assms(1) by simp
  ultimately show ?thesis
    by (rule that) (use None in \<open>auto simp: st'_def\<close>)
next
  case (Some prev)
  then have no: "hm_get (ss_staged_services st) host = None"
    using ss_inv_staged [OF assms(1)] by (cases "hm_get (ss_staged_services st) host") auto
  have "ss_insert st s = ss_place (add_endpoints (staged_at st host) s) (fst (ss_remove st host))"
    using no by (simp add: ss_insert_def insert_internal_def host_def [symmetric] staged_at_def)
  then show ?thesis
    by (rule that) (use no Some in
      \<open>simp_all add: ss_inv_remove assms(1) ss_remove_present [OF assms(1) Some]\<close>)
qed

lemma ss_inv_insert: "ss_inv st \<Longrightarrow> ss_inv (ss_insert st s)"
proof -
  assume inv: "ss_inv st"
  from ss_insert_steps [OF inv, of s] obtain st' where
      "ss_insert st s = ss_place (add_endpoints (staged_at st (namespaced_hostname s)) s) st'" "ss_inv st'"
      "get_by_namespaced_host st' (namespaced_hostname s) = None"
      "hm_get (ss_staged_services st') (namespaced_hostname s) = None" by (metis (no_types))
  then show ?thesis by (auto intro!: ss_inv_place)
qed

lemma ss_insert_view:
  "ss_inv st \<Longrightarrow> get_by_namespaced_host (ss_insert st s) h =
     (if h = namespaced_hostname s then Some (add_endpoints (staged_at st h) s)
      else get_by_namespaced_host st h)"
  by (rule ss_insert_steps [of st s]) (auto simp: store_simps)

lemma ss_insert_staged:
  "ss_inv st \<Longrightarrow> staged_at (ss_insert st s) h = (if h = namespaced_hostname s then [] else staged_at st h)"
  by (rule ss_insert_steps [of st s]) (auto simp: staged_at_def)

lemma ss_insert_vip_new:
  "ss_inv st \<Longrightarrow> get_by_namespaced_host st (namespaced_hostname s) = None \<Longrightarrow>
     get_by_vip (ss_insert st s) v =
       (if v \<in> set (sv_vips s) then Some (add_endpoints (staged_at st (namespaced_hostname s)) s)
        else get_by_vip st v)"
  by (rule ss_insert_steps [of st s]) (auto simp: store_simps)

subsection \<open>Endpoints\<close>

text \<open>What a service keeps when only its endpoints change.\<close>

lemma endpoint_update_fields [simp]:
  "namespaced_hostname (s\<lparr>sv_endpoints := x\<rparr>) = namespaced_hostname s"
  "should_include_endpoint (s\<lparr>sv_endpoints := x\<rparr>) = should_include_endpoint s"
  by (simp_all add: namespaced_hostname_def should_include_endpoint_def fun_eq_iff)

lemma insert_endpoint_update_view:
  "get_by_namespaced_host (insert_endpoint_update st s) h =
     (if h = namespaced_hostname s then Some s else get_by_namespaced_host st h)"
  "get_by_vip (insert_endpoint_update st s) v = (if v \<in> set (sv_vips s) then Some s else get_by_vip st v)"
  "staged_at (insert_endpoint_update st s) = staged_at st"
  "ss_staged_services (insert_endpoint_update st s) = ss_staged_services st"
  by (simp_all add: insert_endpoint_update_def insert_internal_def store_simps staged_at_def fun_eq_iff)

lemma ss_inv_endpoint_update:
  assumes "ss_inv st" "get_by_namespaced_host st host = Some s"
  shows "ss_inv (insert_endpoint_update st (s\<lparr>sv_endpoints := x\<rparr>))"
proof -
  have host: "namespaced_hostname s = host" using view_keyed [OF assms] .
  moreover have "hm_get (ss_staged_services st) host = None"
    using ss_inv_staged [OF assms(1), of host] assms(2) by (cases "hm_get (ss_staged_services st) host") auto
  ultimately show ?thesis
    using assms unfolding insert_endpoint_update_def insert_internal_def
    by (auto intro!: ss_inv_place)
qed

lemma insert_endpoint_view:
  assumes "ss_inv st"
  shows "get_by_namespaced_host (insert_endpoint st host ep) h =
    (if h = host
     then map_option (\<lambda>s. if should_include_endpoint s (ep_status ep)
       then s\<lparr>sv_endpoints := hm_insert (ep_workload_uid ep) ep (sv_endpoints s)\<rparr> else s)
       (get_by_namespaced_host st host)
     else get_by_namespaced_host st h)"
  using view_keyed [OF assms, of host]
  by (auto simp: insert_endpoint_def insert_endpoint_update_view split: option.splits)

lemma insert_endpoint_staged:
  "staged_at (insert_endpoint st host ep) h =
    (if h = host \<and> get_by_namespaced_host st host = None
     then hm_insert (ep_workload_uid ep) ep (staged_at st host) else staged_at st h)"
  by (auto simp: insert_endpoint_def insert_endpoint_update_view staged_at_def split: option.splits)

lemma hm_remove_idem [simp]: "hm_remove k (hm_remove k m) = hm_remove k m"
  by (simp add: hm_remove_def delete_idem)

lemma hm_insert_not_Nil [simp]: "hm_insert k v m \<noteq> []"
  by (cases m) (auto simp: hm_insert_def)

lemma ss_inv_staged_update:
  "ss_inv st \<Longrightarrow>
     (\<And>h m. hm_get staged h = Some m \<Longrightarrow> m \<noteq> [] \<and> hm_wf m \<and> get_by_namespaced_host st h = None) \<Longrightarrow>
     ss_inv (st\<lparr>ss_staged_services := staged\<rparr>)"
  by (simp add: ss_inv_def)

lemma ss_inv_insert_endpoint: "ss_inv st \<Longrightarrow> ss_inv (insert_endpoint st host ep)"
proof (cases "get_by_namespaced_host st host")
  case None
  assume inv: "ss_inv st"
  have "hm_wf (staged_at st host)"
    using ss_inv_staged [OF inv, of host] by (auto simp: staged_at_def split: option.splits)
  moreover have "hm_get (ss_staged_services st) h \<noteq> Some []" for h
    using ss_inv_staged [OF inv] by blast
  ultimately show ?thesis
    using None ss_inv_staged [OF inv]
    by (auto simp: insert_endpoint_def staged_at_def split: if_splits
        intro!: ss_inv_staged_update inv)
next
  case (Some s)
  assume "ss_inv st"
  with Some show ?thesis by (simp add: insert_endpoint_def ss_inv_endpoint_update)
qed

lemma unstage_staged:
  "staged_at (unstage uid svc st) h = (if h = svc then hm_remove uid (staged_at st svc) else staged_at st h)"
  by (auto simp: unstage_def staged_at_def Let_def split: option.splits)

lemma unstage_view [simp]:
  "get_by_namespaced_host (unstage uid svc st) = get_by_namespaced_host st"
  "get_by_vip (unstage uid svc st) = get_by_vip st"
  by (simp_all add: unstage_def Let_def)

lemma ss_inv_unstage: "ss_inv st \<Longrightarrow> ss_inv (unstage uid svc st)"
proof -
  assume inv: "ss_inv st"
  have "hm_wf (staged_at st svc)"
    using ss_inv_staged [OF inv, of svc] by (auto simp: staged_at_def split: option.splits)
  moreover have "hm_remove uid (staged_at st svc) \<noteq> [] \<Longrightarrow> get_by_namespaced_host st svc = None"
    using ss_inv_staged [OF inv, of svc] by (auto simp: staged_at_def hm_remove_def split: option.splits)
  moreover have "hm_get (ss_staged_services st) h \<noteq> Some []" for h
    using ss_inv_staged [OF inv] by blast
  ultimately show ?thesis
    using ss_inv_staged [OF inv]
    unfolding unstage_def Let_def staged_at_def [symmetric]
    by (auto intro!: ss_inv_staged_update inv split: if_splits)
qed

lemma detach_view:
  "ss_inv st \<Longrightarrow> get_by_namespaced_host (detach uid svc st) h =
     (if h = svc then map_option (\<lambda>s. s\<lparr>sv_endpoints := hm_remove uid (sv_endpoints s)\<rparr>) (get_by_namespaced_host st svc)
      else get_by_namespaced_host st h)"
  using view_keyed [of st svc]
  by (auto simp: detach_def insert_endpoint_update_view split: option.splits)

lemma detach_staged [simp]: "staged_at (detach uid svc st) = staged_at st"
  by (simp add: detach_def insert_endpoint_update_view split: option.splits)

lemma ss_inv_detach: "ss_inv st \<Longrightarrow> ss_inv (detach uid svc st)"
  by (simp add: detach_def ss_inv_endpoint_update split: option.splits)

lemma unstage_each:
  "ss_inv st \<Longrightarrow> ss_inv (fold (unstage uid) svcs st) \<and>
     get_by_namespaced_host (fold (unstage uid) svcs st) = get_by_namespaced_host st \<and>
     staged_at (fold (unstage uid) svcs st) h =
       (if h \<in> set svcs then hm_remove uid (staged_at st h) else staged_at st h)"
  by (induction svcs arbitrary: st) (auto simp: ss_inv_unstage unstage_staged)

lemma detach_each:
  "ss_inv st \<Longrightarrow> ss_inv (fold (detach uid) svcs st) \<and>
     staged_at (fold (detach uid) svcs st) = staged_at st \<and>
     get_by_namespaced_host (fold (detach uid) svcs st) h =
       (if h \<in> set svcs then map_option (\<lambda>s. s\<lparr>sv_endpoints := hm_remove uid (sv_endpoints s)\<rparr>)
          (get_by_namespaced_host st h)
        else get_by_namespaced_host st h)"
  by (induction svcs arbitrary: st)
    (auto simp: ss_inv_detach detach_view option.map_comp comp_def)

lemma set_fold_hs_insert: "set (fold hs_insert xs ys) = set xs \<union> set ys"
  by (induction xs arbitrary: ys) auto

lemma remove_endpoint_view:
  assumes "ss_inv st"
  shows "ss_inv (remove_endpoint st w)"
    "get_by_namespaced_host (remove_endpoint st w) h =
       (if h \<in> set (wl_services w)
        then map_option (\<lambda>s. s\<lparr>sv_endpoints := hm_remove (wl_uid w) (sv_endpoints s)\<rparr>) (get_by_namespaced_host st h)
        else get_by_namespaced_host st h)"
    "staged_at (remove_endpoint st w) h =
       (if h \<in> set (wl_services w) then hm_remove (wl_uid w) (staged_at st h) else staged_at st h)"
  using unstage_each [OF assms, of "wl_uid w" "wl_services w"]
    detach_each [of "fold (unstage (wl_uid w)) (wl_services w) st" "wl_uid w" "fold hs_insert (wl_services w) []"]
  by (simp_all add: remove_endpoint_def set_fold_hs_insert)

lemma ss_inv_default: "ss_inv ss_default"
  by (simp add: ss_inv_def ss_default_def get_by_vip_def)

lemmas ss_invs [store_invs] = ss_inv_default ss_inv_insert ss_inv_remove ss_inv_insert_endpoint
  remove_endpoint_view(1)

lemma ss_inv_run: "ss_inv st \<Longrightarrow> ss_inv (fold ss_step evs st)"
proof (induction evs arbitrary: st)
  case (Cons ev evs)
  have "ss_inv (ss_step ev st)" using Cons.prems by (cases ev) (simp_all add: ss_invs)
  with Cons.IH show ?case by simp
qed simp

subsection \<open>Properties\<close>

lemma find_append: "find P (xs @ ys) = (case find P xs of None \<Rightarrow> find P ys | Some x \<Rightarrow> Some x)"
  by (induction xs) auto

lemma best_match_loop_spec:
  "ServiceMatch_into (best_match_loop client_ns preferred ss r) =
     (case find (\<lambda>s. Some (sv_namespace s) = client_ns) ss of
        Some s \<Rightarrow> Some s
      | None \<Rightarrow>
          (case find sv_canonical (rev ss) of
             Some s \<Rightarrow> Some s
           | None \<Rightarrow>
               (case (r, find (\<lambda>s. preferred = Some (sv_namespace s)) (rev ss)) of
                  (MatchCanonical x, _) \<Rightarrow> Some x
                | (_, Some s) \<Rightarrow> Some s
                | (_, None) \<Rightarrow>
                    (case ServiceMatch_into r of
                       Some x \<Rightarrow> Some x
                     | None \<Rightarrow> (case ss of [] \<Rightarrow> None | s # _ \<Rightarrow> Some s)))))"
proof (induction ss arbitrary: r preferred)
  case Nil
  show ?case by (cases r) simp_all
next
  case (Cons s ss)
  show ?case
    by (cases r) (auto simp: Cons.IH find_append split: option.splits)
qed

text \<open>
  Among the services of one host name the choice is the documented one: the service of the client's
  namespace; else the canonical one, the last if several are marked; else the one of the preferred
  namespace; else the first.
\<close>

theorem find_best_match_eq: "find_best_match services client_ns preferred = best_match_spec services client_ns preferred"
  by (auto simp: find_best_match_def best_match_spec_def best_match_loop_spec split: option.splits)

text \<open>
  C10. The service store keeps its indices consistent through any sequence of service and endpoint
  updates: a virtual address always leads to the current version of a service that lists it, host lists
  are never empty and hold one service per namespace, and endpoints are staged only for services that
  are not there. The last part is what the comment in \<open>remove\<close> takes for granted.
\<close>

theorem service_store_inv: "ss_inv (fold ss_step evs ss_default)"
  by (simp add: ss_inv_run ss_inv_default)

lemma add_endpoints_snoc:
  "add_endpoints (eps @ [(uid, ep)]) s =
     (if should_include_endpoint s (ep_status ep)
      then (add_endpoints eps s)\<lparr>sv_endpoints := hm_insert uid ep (sv_endpoints (add_endpoints eps s))\<rparr>
      else add_endpoints eps s)"
proof -
  have "should_include_endpoint (add_endpoints eps s) = should_include_endpoint s"
    by (simp add: should_include_endpoint_def fun_eq_iff)
  then show ?thesis by (simp add: add_endpoints_def)
qed

lemma hm_insert_fresh: "hm_get m k = None \<Longrightarrow> hm_insert k v m = m @ [(k, v)]"
  by (induction m) (auto simp: hm_get_def hm_insert_def split: if_splits)

text \<open>
  C11. The order of arrival does not matter. For a service that is not stored and an endpoint that is not
  staged yet, delivering the endpoint before the service or after it gives the same services, the same
  virtual addresses and the same staging area.
\<close>

theorem staging_order_irrelevant:
  assumes "ss_inv st" "get_by_namespaced_host st (namespaced_hostname s) = None"
    and "hm_get (staged_at st (namespaced_hostname s)) (ep_workload_uid ep) = None"
  defines "host \<equiv> namespaced_hostname s"
  shows "get_by_namespaced_host (ss_insert (insert_endpoint st host ep) s) =
      get_by_namespaced_host (insert_endpoint (ss_insert st s) host ep) \<and>
    get_by_vip (ss_insert (insert_endpoint st host ep) s) =
      get_by_vip (insert_endpoint (ss_insert st s) host ep) \<and>
    staged_at (ss_insert (insert_endpoint st host ep) s) = staged_at (insert_endpoint (ss_insert st s) host ep)"
proof -
  note host = host_def [symmetric]
  define st1 where "st1 = insert_endpoint st host ep"
  define s0 where "s0 = add_endpoints (staged_at st host) s"
  define s1 where "s1 = add_endpoints (staged_at st1 host) s"
  have inv: "ss_inv st1" "ss_inv (ss_insert st s)"
    using assms(1) by (simp_all add: st1_def ss_invs)
  have none: "get_by_namespaced_host st1 = get_by_namespaced_host st" "get_by_vip st1 = get_by_vip st"
    using assms(2) by (simp_all add: st1_def insert_endpoint_def host)
  have s1: "s1 = (if should_include_endpoint s0 (ep_status ep)
      then s0\<lparr>sv_endpoints := hm_insert (ep_workload_uid ep) ep (sv_endpoints s0)\<rparr> else s0)"
    using assms(2,3)
    by (simp add: s1_def s0_def st1_def insert_endpoint_staged host hm_insert_fresh add_endpoints_snoc
        should_include_endpoint_def)
  have "get_by_namespaced_host (ss_insert st1 s) h = get_by_namespaced_host (insert_endpoint (ss_insert st s) host ep) h" for h
    using inv assms(1) by (simp add: ss_insert_view insert_endpoint_view none s1 host flip: s1_def s0_def)
  moreover have "get_by_vip (ss_insert st1 s) v = get_by_vip (insert_endpoint (ss_insert st s) host ep) v" for v
    using inv assms(1,2)
    by (auto simp: ss_insert_vip_new insert_endpoint_def insert_endpoint_update_view ss_insert_view none host s1
        s0_def simp flip: s1_def)
  moreover have "staged_at (ss_insert st1 s) h = staged_at (insert_endpoint (ss_insert st s) host ep) h" for h
    using inv assms(1,2) by (simp add: ss_insert_staged insert_endpoint_staged ss_insert_view st1_def host)
  ultimately show ?thesis by (simp add: st1_def fun_eq_iff)
qed

theorem staging_order_irrelevant_witness:
  "ss_inv ss_default \<and>
   get_by_vip (ss_insert (insert_endpoint ss_default (namespaced_hostname example_service) example_endpoint) example_service)
     (network_addr '''' (V4 0x0A600001)) =
   get_by_vip (insert_endpoint (ss_insert ss_default example_service) (namespaced_hostname example_service) example_endpoint)
     (network_addr '''' (V4 0x0A600001)) \<and>
   map_option (\<lambda>s. hm_keys (sv_endpoints s))
     (get_by_namespaced_host
        (insert_endpoint (ss_insert ss_default example_service) (namespaced_hostname example_service) example_endpoint)
        (namespaced_hostname example_service)) = Some [''cluster//Pod/prod/web-1'']"
proof -
  have "map_option (\<lambda>s. hm_keys (sv_endpoints s))
     (get_by_namespaced_host
        (insert_endpoint (ss_insert ss_default example_service) (namespaced_hostname example_service) example_endpoint)
        (namespaced_hostname example_service)) = Some [''cluster//Pod/prod/web-1'']"
    by code_simp
  moreover have "get_by_namespaced_host ss_default (namespaced_hostname example_service) = None"
      "hm_get (staged_at ss_default (namespaced_hostname example_service)) (ep_workload_uid example_endpoint) = None"
    by (simp_all add: ss_default_def get_by_namespaced_host_def staged_at_def)
  ultimately show ?thesis
    using staging_order_irrelevant [OF ss_inv_default, of example_service example_endpoint]
    by (simp add: ss_inv_default)
qed

end
