(* ===== verification/Sandbox.thy ===== *)
theory Sandbox
  imports Rbac WorkloadStore
begin

text \<open>
  Sandboxes and their bindings to workloads, \<^verbatim>\<open>src/sandbox/discovery.rs\<close>: validation, the conversion of
  the xDS message, and the store with its index from a workload to the sandboxes bound to it, in the
  order the bindings arrived.
\<close>

section \<open>Definitions\<close>

record XdsSandbox =
  xsb_uid :: string
  xsb_attester :: "string option"
  xsb_traffic_policy :: "XdsTrafficPolicy option"
  xsb_extensions :: "Any list"

record Sandbox =
  sb_uid :: strng
  sb_workload_uid :: "strng option"
  sb_traffic_policy :: "TrafficPolicy option"

datatype sandbox_error =
    BadSandboxId
  | EmptyAttester
  | SandboxPolicyError policy_error
  | NameDiffersFromUid

datatype WorkloadMismatch = WorkloadMismatch

record SandboxStore =
  sbs_resources :: "(strng, Sandbox) hashmap"
  sbs_by_workload :: "(strng, strng list) hashmap"

text \<open>\<open>b.is_ascii_graphic()\<close>: the printable characters without the space.\<close>

definition is_ascii_graphic :: "char \<Rightarrow> bool" where
  "is_ascii_graphic c = (33 \<le> (of_char c :: nat) \<and> (of_char c :: nat) \<le> 126)"

definition validate_id :: "strng \<Rightarrow> (unit, sandbox_error) result" where
  "validate_id sid =
     (if sid \<noteq> [] \<and> length sid \<le> 512 \<and> sid \<noteq> ''*'' \<and> list_all is_ascii_graphic sid
      then Ok () else Err BadSandboxId)"

definition Sandbox_validate :: "Sandbox \<Rightarrow> (unit, sandbox_error) result" where
  "Sandbox_validate sb =
     and_then (validate_id (sb_uid sb)) (\<lambda>_.
       if (case sb_workload_uid sb of None \<Rightarrow> True | Some uid \<Rightarrow> uid \<noteq> [])
       then (case sb_traffic_policy sb of
               None \<Rightarrow> Ok ()
             | Some policy \<Rightarrow> map_err SandboxPolicyError (TrafficPolicy_validate policy))
       else Err EmptyAttester)"

definition Sandbox_try_from :: "ipnet_ops \<Rightarrow> XdsSandbox \<Rightarrow> (Sandbox, sandbox_error) result" where
  "Sandbox_try_from N resource =
     and_then (map_err SandboxPolicyError (transpose_opt (TrafficPolicy_try_from N) (xsb_traffic_policy resource)))
       (\<lambda>traffic_policy.
         let sandbox = \<lparr>sb_uid = xsb_uid resource, sb_workload_uid = xsb_attester resource,
               sb_traffic_policy = traffic_policy\<rparr>
         in and_then (Sandbox_validate sandbox) (\<lambda>_. Ok sandbox))"

definition sbs_default :: SandboxStore where
  "sbs_default = \<lparr>sbs_resources = [], sbs_by_workload = []\<rparr>"

definition remove_workload_binding :: "strng \<Rightarrow> strng \<Rightarrow> SandboxStore \<Rightarrow> SandboxStore" where
  "remove_workload_binding workload_uid sandbox_id s =
     (case hm_get (sbs_by_workload s) workload_uid of
        None \<Rightarrow> s
      | Some sandboxes \<Rightarrow>
          (let kept = filter (\<lambda>sid. sid \<noteq> sandbox_id) sandboxes in
           s\<lparr>sbs_by_workload :=
             (if kept = [] then hm_remove workload_uid (sbs_by_workload s)
              else hm_insert workload_uid kept (sbs_by_workload s))\<rparr>))"

definition push_binding :: "strng \<Rightarrow> strng \<Rightarrow> SandboxStore \<Rightarrow> SandboxStore" where
  "push_binding workload_uid sandbox_id s =
     s\<lparr>sbs_by_workload :=
       hm_insert workload_uid
         ((case hm_get (sbs_by_workload s) workload_uid of None \<Rightarrow> [] | Some ids \<Rightarrow> ids) @ [sandbox_id])
         (sbs_by_workload s)\<rparr>"

definition sbs_insert :: "SandboxStore \<Rightarrow> Sandbox \<Rightarrow> SandboxStore \<times> bool" where
  "sbs_insert s sandbox =
     (let previous = hm_get (sbs_resources s) (sb_uid sandbox);
          s1 = s\<lparr>sbs_resources := hm_insert (sb_uid sandbox) sandbox (sbs_resources s)\<rparr>;
          previous_workload = Option.bind previous sb_workload_uid;
          workload = sb_workload_uid sandbox;
          policy_changed = (case previous of None \<Rightarrow> True
            | Some old \<Rightarrow> sb_workload_uid old \<noteq> sb_workload_uid sandbox \<or>
                sb_traffic_policy old \<noteq> sb_traffic_policy sandbox);
          s2 = (if previous_workload \<noteq> workload
                then (let s2 = (case previous_workload of None \<Rightarrow> s1
                            | Some uid \<Rightarrow> remove_workload_binding uid (sb_uid sandbox) s1)
                      in case workload of None \<Rightarrow> s2 | Some uid \<Rightarrow> push_binding uid (sb_uid sandbox) s2)
                else s1)
      in (s2, policy_changed))"

definition sbs_update ::
  "ipnet_ops \<Rightarrow> SandboxStore \<Rightarrow> strng \<Rightarrow> XdsSandbox \<Rightarrow> (SandboxStore \<times> bool, sandbox_error) result"
where
  "sbs_update N s name resource =
     (if xsb_uid resource \<noteq> name then Err NameDiffersFromUid
      else and_then (Sandbox_try_from N resource) (\<lambda>sandbox. Ok (sbs_insert s sandbox)))"

definition sbs_remove :: "SandboxStore \<Rightarrow> strng \<Rightarrow> SandboxStore \<times> bool" where
  "sbs_remove s name =
     (case hm_get (sbs_resources s) name of
        None \<Rightarrow> (s, False)
      | Some previous \<Rightarrow>
          (let s1 = s\<lparr>sbs_resources := hm_remove name (sbs_resources s)\<rparr> in
           (case sb_workload_uid previous of None \<Rightarrow> s1 | Some uid \<Rightarrow> remove_workload_binding uid name s1, True)))"

definition sbs_get :: "SandboxStore \<Rightarrow> strng \<Rightarrow> Sandbox option" where
  "sbs_get s sid = hm_get (sbs_resources s) sid"

definition get_for_workload :: "SandboxStore \<Rightarrow> strng \<Rightarrow> strng \<Rightarrow> (Sandbox option, WorkloadMismatch) result" where
  "get_for_workload s sid workload_uid =
     (case sbs_get s sid of
        None \<Rightarrow> Ok None
      | Some sandbox \<Rightarrow>
          (case sb_workload_uid sandbox of
             Some uid \<Rightarrow> if uid = workload_uid then Ok (Some sandbox) else Err WorkloadMismatch
           | None \<Rightarrow> Ok None))"

definition sandboxes_by_workload :: "SandboxStore \<Rightarrow> strng \<Rightarrow> Sandbox list" where
  "sandboxes_by_workload s workload_uid =
     List.map_filter (\<lambda>sid. hm_get (sbs_resources s) sid)
       (case hm_get (sbs_by_workload s) workload_uid of None \<Rightarrow> [] | Some ids \<Rightarrow> ids)"

section \<open>Specification\<close>

definition sbs_admit :: "ipnet_ops \<Rightarrow> strng \<Rightarrow> XdsSandbox \<Rightarrow> (Sandbox, sandbox_error) result" where
  "sbs_admit N name resource =
     (if xsb_uid resource \<noteq> name then Err NameDiffersFromUid else Sandbox_try_from N resource)"

definition bound_ids :: "SandboxStore \<Rightarrow> strng \<Rightarrow> strng list" where
  "bound_ids s w = (case hm_get (sbs_by_workload s) w of None \<Rightarrow> [] | Some ids \<Rightarrow> ids)"

definition no_empty_binding :: "SandboxStore \<Rightarrow> bool" where
  "no_empty_binding s \<longleftrightarrow> (\<forall>w ids. hm_get (sbs_by_workload s) w = Some ids \<longrightarrow> ids \<noteq> [])"

text \<open>
  The invariant: resources are stored under their uid, and the binding index lists under every workload
  exactly the sandboxes whose current resource names it, each once, with no empty entry.
\<close>

definition sbs_inv :: "SandboxStore \<Rightarrow> bool" where
  "sbs_inv s \<longleftrightarrow>
     hm_wf (sbs_resources s) \<and>
     (\<forall>sid sb. sbs_get s sid = Some sb \<longrightarrow> sb_uid sb = sid) \<and>
     (\<forall>w sid. sid \<in> set (bound_ids s w) \<longleftrightarrow> (\<exists>sb. sbs_get s sid = Some sb \<and> sb_workload_uid sb = Some w)) \<and>
     (\<forall>w. distinct (bound_ids s w)) \<and> no_empty_binding s"

text \<open>The binding order after an accepted resource: kept, extended at the end, or shortened.\<close>

definition rebind :: "strng \<Rightarrow> bool \<Rightarrow> strng list \<Rightarrow> strng list" where
  "rebind sid bound ids =
     (if bound then (if sid \<in> set ids then ids else ids @ [sid]) else removeAll sid ids)"

section \<open>Lemmas\<close>

lemma resources_binding [simp]:
  "sbs_resources (remove_workload_binding w sid s) = sbs_resources s"
  "sbs_resources (push_binding w sid s) = sbs_resources s"
  by (simp_all add: remove_workload_binding_def push_binding_def Let_def split: option.splits)

lemma sbs_get_binding [simp]:
  "sbs_get (remove_workload_binding w sid s) = sbs_get s"
  "sbs_get (push_binding w sid s) = sbs_get s"
  by (simp_all add: sbs_get_def fun_eq_iff)

lemma bound_ids_remove:
  "bound_ids (remove_workload_binding w sid s) w' =
     (if w' = w then removeAll sid (bound_ids s w) else bound_ids s w')"
proof -
  have "filter (\<lambda>x. x \<noteq> sid) xs = removeAll sid xs" for xs
    by (induction xs) auto
  then show ?thesis
    by (auto simp: bound_ids_def remove_workload_binding_def Let_def split: option.splits)
qed

lemma bound_ids_push:
  "bound_ids (push_binding w sid s) w' = (if w' = w then bound_ids s w @ [sid] else bound_ids s w')"
  by (auto simp: bound_ids_def push_binding_def split: option.splits)

lemma bound_ids_resources [simp]: "bound_ids (s\<lparr>sbs_resources := x\<rparr>) = bound_ids s"
  by (simp add: bound_ids_def fun_eq_iff)

lemma sbs_insert_get: "sbs_get (fst (sbs_insert s sb)) = (sbs_get s)(sb_uid sb \<mapsto> sb)"
  by (auto simp: sbs_insert_def Let_def fun_eq_iff split: option.splits)
    (auto simp: sbs_get_def)

lemma sbs_insert_bound:
  assumes "sbs_inv s"
  shows "bound_ids (fst (sbs_insert s sb)) w =
    rebind (sb_uid sb) (sb_workload_uid sb = Some w) (bound_ids s w)"
proof -
  have prev: "sb_uid sb \<in> set (bound_ids s w) \<longleftrightarrow>
      Option.bind (hm_get (sbs_resources s) (sb_uid sb)) sb_workload_uid = Some w" for w
    using assms by (auto simp: sbs_inv_def sbs_get_def Option.bind_eq_Some_conv)
  show ?thesis
    using prev [of w]
    by (auto simp: sbs_insert_def Let_def rebind_def bound_ids_remove bound_ids_push removeAll_id
        split: option.splits)
qed

lemma sbs_remove_get: "sbs_get (fst (sbs_remove s sid)) = (sbs_get s)(sid := None)"
  by (auto simp: sbs_remove_def Let_def fun_eq_iff split: option.splits) (auto simp: sbs_get_def)

lemma sbs_remove_bound:
  assumes "sbs_inv s"
  shows "bound_ids (fst (sbs_remove s sid)) w = removeAll sid (bound_ids s w)"
proof -
  have "sid \<in> set (bound_ids s w) \<longleftrightarrow> Option.bind (hm_get (sbs_resources s) sid) sb_workload_uid = Some w" for w
    using assms by (auto simp: sbs_inv_def sbs_get_def Option.bind_eq_Some_conv)
  from this [of w] show ?thesis
    by (auto simp: sbs_remove_def Let_def bound_ids_remove removeAll_id split: option.splits)
qed

lemma binding_not_Nil:
  "no_empty_binding s \<Longrightarrow> no_empty_binding (remove_workload_binding u sid s)"
  "no_empty_binding s \<Longrightarrow> no_empty_binding (push_binding u sid s)"
  "no_empty_binding s \<Longrightarrow> no_empty_binding (s\<lparr>sbs_resources := x\<rparr>)"
  by (auto simp: no_empty_binding_def remove_workload_binding_def push_binding_def Let_def
      split: option.splits if_splits)

lemma sbs_inv_insert:
  assumes "sbs_inv s"
  shows "sbs_inv (fst (sbs_insert s sb))"
proof -
  let ?s = "fst (sbs_insert s sb)"
  have "hm_wf (sbs_resources ?s)"
    using assms by (auto simp: sbs_inv_def sbs_insert_def Let_def split: option.splits)
  moreover have "no_empty_binding ?s"
    using assms
    by (simp add: sbs_inv_def sbs_insert_def Let_def binding_not_Nil split: option.splits)
  moreover have "distinct (bound_ids ?s w)" for w
    using assms by (auto simp: sbs_insert_bound rebind_def sbs_inv_def distinct_removeAll)
  moreover have "sid \<in> set (bound_ids ?s w) \<longleftrightarrow> (\<exists>sb. sbs_get ?s sid = Some sb \<and> sb_workload_uid sb = Some w)" for w sid
    using assms by (auto simp: sbs_insert_bound sbs_insert_get rebind_def sbs_inv_def)
  ultimately show ?thesis
    using assms by (auto simp: sbs_inv_def sbs_insert_get)
qed

lemma sbs_inv_remove:
  assumes "sbs_inv s"
  shows "sbs_inv (fst (sbs_remove s sid))"
proof -
  let ?s = "fst (sbs_remove s sid)"
  have "hm_wf (sbs_resources ?s)"
    using assms by (auto simp: sbs_inv_def sbs_remove_def Let_def split: option.splits)
  moreover have "no_empty_binding ?s"
    using assms
    by (simp add: sbs_inv_def sbs_remove_def Let_def binding_not_Nil split: option.splits)
  moreover have "distinct (bound_ids ?s w)" for w
    using assms by (auto simp: sbs_remove_bound sbs_inv_def distinct_removeAll)
  moreover have "u \<in> set (bound_ids ?s w) \<longleftrightarrow> (\<exists>sb. sbs_get ?s u = Some sb \<and> sb_workload_uid sb = Some w)" for w u
    using assms by (auto simp: sbs_remove_bound sbs_remove_get sbs_inv_def)
  ultimately show ?thesis
    using assms by (auto simp: sbs_inv_def sbs_remove_get)
qed

lemma sbs_inv_default: "sbs_inv sbs_default"
  by (simp add: sbs_inv_def sbs_default_def sbs_get_def bound_ids_def no_empty_binding_def)

lemmas sbs_invs [store_invs] = sbs_inv_default sbs_inv_insert sbs_inv_remove

lemma sbs_insert_changed:
  "sbs_inv s \<Longrightarrow> snd (sbs_insert s sb) \<longleftrightarrow> sbs_get s (sb_uid sb) \<noteq> Some sb"
  by (cases "hm_get (sbs_resources s) (sb_uid sb)")
    (auto simp: sbs_insert_def Let_def sbs_get_def sbs_inv_def intro: Sandbox.equality)

lemma sbs_admit_uid: "sbs_admit N k m = Inr v \<Longrightarrow> sb_uid v = k"
  by (auto simp: sbs_admit_def Sandbox_try_from_def and_then_Ok Let_def split: if_splits)

interpretation sandbox_resources: resource_store sbs_get "sbs_admit N" "sbs_update N"
  "\<lambda>s k. fst (sbs_remove s k)" sbs_inv
proof unfold_locales
  fix s :: SandboxStore and k v and m :: XdsSandbox
  assume inv: "sbs_inv s"
  show "\<exists>s'. sbs_update N s k m = Inr (s', sbs_get s k \<noteq> Some v) \<and>
      sbs_get s' = (sbs_get s)(k \<mapsto> v) \<and> sbs_inv s'"
    if v: "sbs_admit N k m = Inr v"
  proof -
    from v have "sbs_update N s k m = Inr (sbs_insert s v)"
      by (auto simp: sbs_admit_def sbs_update_def split: if_splits)
    moreover have "snd (sbs_insert s v) = (sbs_get s k \<noteq> Some v)"
      using sbs_insert_changed [OF inv, of v] sbs_admit_uid [OF v] by simp
    ultimately have "sbs_update N s k m = Inr (fst (sbs_insert s v), sbs_get s k \<noteq> Some v)"
      by (simp add: prod_eq_iff)
    then show ?thesis
      using sbs_insert_get [of s v] sbs_admit_uid [OF v] sbs_inv_insert [OF inv, of v] by blast
  qed
qed (auto simp: sbs_admit_def sbs_update_def sbs_remove_get sbs_inv_remove split: if_splits)

lemma sandboxes_by_workload_ids:
  assumes "sbs_inv s"
  shows "map sb_uid (sandboxes_by_workload s w) = bound_ids s w"
    "set (sandboxes_by_workload s w) = {sb. sbs_get s (sb_uid sb) = Some sb \<and> sb_workload_uid sb = Some w}"
proof -
  have all: "\<exists>sb. hm_get (sbs_resources s) sid = Some sb \<and> sb_uid sb = sid" if "sid \<in> set (bound_ids s w)" for sid
    using that assms by (force simp: sbs_inv_def sbs_get_def)
  have *: "map sb_uid (List.map_filter (hm_get (sbs_resources s)) ids) = ids"
    if "set ids \<subseteq> set (bound_ids s w)" for ids
    using that
  proof (induction ids)
    case (Cons x ids)
    with all [of x] show ?case by (auto simp: List.map_filter_def)
  qed (simp add: List.map_filter_def)
  show "map sb_uid (sandboxes_by_workload s w) = bound_ids s w"
    using * [of "bound_ids s w"] by (simp add: sandboxes_by_workload_def bound_ids_def)
  have "sb \<in> set (sandboxes_by_workload s w) \<longleftrightarrow> (\<exists>sid \<in> set (bound_ids s w). sbs_get s sid = Some sb)" for sb
    by (force simp: sandboxes_by_workload_def bound_ids_def List.map_filter_def sbs_get_def)
  then show "set (sandboxes_by_workload s w) =
      {sb. sbs_get s (sb_uid sb) = Some sb \<and> sb_workload_uid sb = Some w}"
    using assms by (fastforce simp: sbs_inv_def)
qed

text \<open>
  C15. The sandbox store is the abstract map of last accepted resources, and its binding index is exact:
  after any sequence of deliveries and withdrawals a lookup gives the last accepted resource of the
  uid, and the sandboxes listed for a workload are exactly those whose current resource names it.
\<close>

theorem sandbox_store_refines:
  fixes N :: ipnet_ops and evs :: "(strng, XdsSandbox) delivery list"
  defines "s \<equiv> fold (store_step (sbs_update N) (\<lambda>s k. fst (sbs_remove s k))) evs sbs_default"
  shows "sbs_get s = fold (spec_step (sbs_admit N)) evs Map.empty \<and> sbs_inv s \<and>
    set (sandboxes_by_workload s w) = {sb. sbs_get s (sb_uid sb) = Some sb \<and> sb_workload_uid sb = Some w}"
proof -
  have "sbs_get sbs_default = Map.empty"
    by (simp add: sbs_default_def sbs_get_def fun_eq_iff)
  then have "sbs_get s = fold (spec_step (sbs_admit N)) evs Map.empty" "sbs_inv s"
    using sandbox_resources.run_refines [OF sbs_inv_default, of N evs] by (simp_all add: s_def)
  then show ?thesis using sandboxes_by_workload_ids(2) by simp
qed

text \<open>
  The selection order is stable: an accepted resource leaves the order of a workload's sandboxes as it
  was when it was bound to that workload already, goes to the end when it is newly bound, and leaves
  the list when it is bound elsewhere; a withdrawal only takes the sandbox out.
\<close>

theorem sandbox_order_stable:
  assumes "sbs_inv s"
  shows "map sb_uid (sandboxes_by_workload (fst (sbs_insert s sb)) w) =
      rebind (sb_uid sb) (sb_workload_uid sb = Some w) (map sb_uid (sandboxes_by_workload s w)) \<and>
    map sb_uid (sandboxes_by_workload (fst (sbs_remove s sid)) w) =
      removeAll sid (map sb_uid (sandboxes_by_workload s w))"
  using assms by (simp add: sandboxes_by_workload_ids sbs_invs sbs_insert_bound sbs_remove_bound)

theorem sandbox_order_stable_witness:
  "sbs_inv sbs_default \<and>
   map sb_uid (sandboxes_by_workload (fst (sbs_insert sbs_default
     \<lparr>sb_uid = ''kruise:1'', sb_workload_uid = Some ''w1'', sb_traffic_policy = None\<rparr>)) ''w1'') = [''kruise:1'']"
proof -
  have "sandboxes_by_workload sbs_default ''w1'' = []" by code_simp
  with sandbox_order_stable [OF sbs_inv_default,
      of "\<lparr>sb_uid = ''kruise:1'', sb_workload_uid = Some ''w1'', sb_traffic_policy = None\<rparr>" "''w1''" "''kruise:1''"]
  show ?thesis by (simp add: sbs_inv_default rebind_def)
qed

end
