(* ===== verification/ProxyState.thy ===== *)
theory ProxyState
  imports Service Sandbox
begin

text \<open>
  The proxy's view of the mesh, \<^verbatim>\<open>src/state.rs\<close>: the four stores, lookups by address and host name, the
  choice of an upstream with load balancing, the choice of its address, waypoints, authorization of a
  connection in two policy stages, and waiting for a workload to be delivered. Random choice (the
  rand crate) and DNS lookups (hickory) are parameters, collected in \<open>rand_ops\<close> and a function from
  names to addresses; the rwlock makes each operation one step on the state.
\<close>

section \<open>State and lookups\<close>

record ProxyState =
  px_workloads :: WorkloadStore
  px_services :: ServiceStore
  px_policies :: TrafficPolicyStore
  px_sandboxes :: SandboxStore

datatype Address = AddressWorkload Workload | AddressService Service

datatype UpstreamDestination = UpstreamParts Workload u16 "Service option" | OriginalDestination

record Upstream =
  up_workload :: Workload
  up_selected_workload_ip :: IpAddr
  up_port :: u16
  up_service_sans :: "strng list"

record ProxyRbacContext =
  rc_conn :: Connection
  rc_workload :: Workload
  rc_sandbox :: "Sandbox option"

datatype proxy_error =
    NoHostname string
  | NoValidDestination Workload
  | NoResolvedAddresses string
  | EmptyResolvedAddresses string
  | UnknownWaypointHost string
  | UnknownWaypoint GatewayAddress

record rand_ops =
  choose_weighted :: "nat list \<Rightarrow> nat option"
  choose_index :: "nat \<Rightarrow> nat"

definition px_new :: "strng option \<Rightarrow> ProxyState" where
  "px_new local_node = \<lparr>px_workloads = ws_new local_node, px_services = ss_default,
     px_policies = policy_store_default, px_sandboxes = sbs_default\<rparr>"

definition px_find_address :: "ProxyState \<Rightarrow> NetworkAddress \<Rightarrow> Address option" where
  "px_find_address s addr =
     (case ws_find_address (px_workloads s) addr of
        None \<Rightarrow> map_option AddressService (get_by_vip (px_services s) addr)
      | Some wl \<Rightarrow> Some (AddressWorkload wl))"

definition find_hostname :: "ProxyState \<Rightarrow> NamespacedHostname \<Rightarrow> Address option" where
  "find_hostname s name =
     (case get_by_namespaced_host (px_services s) name of
        Some svc \<Rightarrow> Some (AddressService svc)
      | None \<Rightarrow>
          map_option AddressWorkload
            (find (\<lambda>w. wl_hostname w = nh_hostname name \<and> wl_namespace w = nh_namespace name)
               (hm_values (ws_by_uid (px_workloads s)))))"

definition find_destination :: "ProxyState \<Rightarrow> Destination \<Rightarrow> Address option" where
  "find_destination s dest =
     (case dest of DestAddress addr \<Rightarrow> px_find_address s addr | DestHostname hostname \<Rightarrow> find_hostname s hostname)"

definition find_service_by_hostname :: "ProxyState \<Rightarrow> strng \<Rightarrow> strng \<Rightarrow> (Service, proxy_error) result" where
  "find_service_by_hostname s hostname namespace =
     ok_or (get_best_by_host (px_services s) hostname (Some namespace)) (NoHostname hostname)"

definition workload_and_services_san :: "Upstream \<Rightarrow> Identity list" where
  "workload_and_services_san u =
     List.map_filter (\<lambda>san. case Identity_from_str san of Inl _ \<Rightarrow> None | Inr i \<Rightarrow> Some i) (up_service_sans u) @
     [wl_identity (up_workload u)]"

definition workload_socket_addr :: "Upstream \<Rightarrow> SocketAddr" where
  "workload_socket_addr u = socket_addr (up_selected_workload_ip u) (up_port u)"

section \<open>Load balancing\<close>

definition lb_candidate :: "ProxyState \<Rightarrow> Service \<Rightarrow> u16 \<Rightarrow> Endpoint \<Rightarrow> (Endpoint \<times> Workload) option" where
  "lb_candidate s svc svc_port ep =
     (case ws_find_uid (px_workloads s) (ep_workload_uid ep) of
        None \<Rightarrow> None
      | Some wl \<Rightarrow>
          (if wl_workload_ips wl = [] \<and> wl_hostname wl = '''' then None
           else if hm_get (sv_ports svc) svc_port = None \<and> wl_application_tunnel wl = None then None
           else Some (ep, wl)))"

definition scope_matches :: "Workload \<Rightarrow> Workload \<Rightarrow> LoadBalancerScopes \<Rightarrow> bool" where
  "scope_matches src wl target =
     (case target of
        Region \<Rightarrow> loc_region (wl_locality src) = loc_region (wl_locality wl)
      | Zone \<Rightarrow> loc_zone (wl_locality src) = loc_zone (wl_locality wl)
      | Subzone \<Rightarrow> loc_subzone (wl_locality src) = loc_subzone (wl_locality wl)
      | Node \<Rightarrow> wl_node src = wl_node wl
      | Cluster \<Rightarrow> wl_cluster_id src = wl_cluster_id wl
      | Network \<Rightarrow> wl_network src = wl_network wl)"

fun rank_loop :: "Workload \<Rightarrow> Workload \<Rightarrow> LoadBalancerScopes list \<Rightarrow> nat \<Rightarrow> nat" where
  "rank_loop src wl [] rank = rank"
| "rank_loop src wl (target # targets) rank =
     (if scope_matches src wl target then rank_loop src wl targets (Suc rank) else rank)"

definition lb_ranked ::
  "Workload \<Rightarrow> LoadBalancer \<Rightarrow> Endpoint \<times> Workload \<Rightarrow> (nat \<times> Endpoint \<times> Workload) option"
where
  "lb_ranked src lb c =
     (let rank = rank_loop src (snd c) (lb_routing_preferences lb) 0 in
      if lb_mode lb = LbStrict \<and> rank \<noteq> length (lb_routing_preferences lb) then None
      else Some (rank, c))"

text \<open>The early \<open>None\<close> is the \<open>?\<close> on the maximum of no ranks.\<close>

definition lb_options :: "ProxyState \<Rightarrow> Workload \<Rightarrow> Service \<Rightarrow> u16 \<Rightarrow> (Endpoint \<times> Workload) list option" where
  "lb_options s src svc svc_port =
     (let endpoints = List.map_filter (lb_candidate s svc svc_port) (hm_values (sv_endpoints svc)) in
      case sv_load_balancer svc of
        Some lb \<Rightarrow>
          (if lb_mode lb \<noteq> LbStandard
           then (let ranks = List.map_filter (lb_ranked src lb) endpoints in
                 if ranks = [] then None
                 else (let max = Max (fst ` set ranks)
                       in Some (map snd (filter (\<lambda>(rank, _). rank = max) ranks))))
           else Some endpoints)
      | None \<Rightarrow> Some endpoints)"

definition load_balance ::
  "rand_ops \<Rightarrow> ProxyState \<Rightarrow> Workload \<Rightarrow> Service \<Rightarrow> u16 \<Rightarrow> (Endpoint \<times> Workload) option"
where
  "load_balance R s src svc svc_port =
     (case lb_options s src svc svc_port of
        None \<Rightarrow> None
      | Some options \<Rightarrow>
          map_option (\<lambda>i. options ! i)
            (choose_weighted R (map (\<lambda>(_, wl). unat (wl_capacity wl)) options)))"

definition find_upstream_from_service ::
  "rand_ops \<Rightarrow> ProxyState \<Rightarrow> Workload \<Rightarrow> u16 \<Rightarrow> Service \<Rightarrow> UpstreamDestination option"
where
  "find_upstream_from_service R s source_workload svc_port svc =
     (case load_balance R s source_workload svc svc_port of
        None \<Rightarrow> None
      | Some (ep, wl) \<Rightarrow>
          (let svc_target_port = (case hm_get (sv_ports svc) svc_port of None \<Rightarrow> 0 | Some p \<Rightarrow> p) in
           case hm_get (ep_port ep) svc_port of
             Some ep_target_port \<Rightarrow> Some (UpstreamParts wl ep_target_port (Some svc))
           | None \<Rightarrow>
               (if svc_target_port > 0 then Some (UpstreamParts wl svc_target_port (Some svc))
                else if (case wl_application_tunnel wl of None \<Rightarrow> False | Some t \<Rightarrow> at_port t \<noteq> None)
                then Some (UpstreamParts wl svc_port (Some svc))
                else None)))"

definition find_upstream ::
  "rand_ops \<Rightarrow> ProxyState \<Rightarrow> strng \<Rightarrow> Workload \<Rightarrow> SocketAddr \<Rightarrow> UpstreamDestination option"
where
  "find_upstream R s network source_workload addr =
     (case get_by_vip (px_services s) (network_addr network (sock_ip addr)) of
        Some svc \<Rightarrow>
          (if (case sv_load_balancer svc of None \<Rightarrow> False | Some lb \<Rightarrow> lb_mode lb = LbPassthrough)
           then Some OriginalDestination
           else find_upstream_from_service R s source_workload (sock_port addr) svc)
      | None \<Rightarrow>
          (case ws_find_address (px_workloads s) (network_addr network (sock_ip addr)) of
             Some wl \<Rightarrow> Some (UpstreamParts wl (sock_port addr) None)
           | None \<Rightarrow> None))"

section \<open>Addresses of an upstream\<close>

text \<open>\<open>iter.find_or_first(p)\<close> of itertools: the first match, else the first element.\<close>

definition find_or_first :: "('a \<Rightarrow> bool) \<Rightarrow> 'a list \<Rightarrow> 'a option" where
  "find_or_first P xs =
     (case find P xs of Some x \<Rightarrow> Some x | None \<Rightarrow> (case xs of [] \<Rightarrow> None | x # _ \<Rightarrow> Some x))"

text \<open>\<open>iter.choose(rng)\<close>.\<close>

definition choose_one :: "rand_ops \<Rightarrow> 'a list \<Rightarrow> 'a option" where
  "choose_one R xs = (if xs = [] then None else Some (xs ! choose_index R (length xs)))"

definition resolve_on_demand_dns ::
  "rand_ops \<Rightarrow> (string \<Rightarrow> IpAddr list option) \<Rightarrow> Workload \<Rightarrow> SocketAddr \<Rightarrow> (IpAddr, proxy_error) result"
where
  "resolve_on_demand_dns R lookup_ip workload target =
     (case lookup_ip (wl_hostname workload) of
        None \<Rightarrow> Err (NoResolvedAddresses (wl_uid workload))
      | Some resp \<Rightarrow>
          (let same = (\<lambda>r. is_ipv6 r = is_ipv6 (sock_ip target));
               matching = filter same resp; unmatching = filter (\<lambda>r. \<not> same r) resp
           in case choose_one R matching of
                Some ip \<Rightarrow> Ok ip
              | None \<Rightarrow> ok_or (choose_one R unmatching) (EmptyResolvedAddresses (wl_uid workload))))"

definition pick_workload_destination_or_resolve ::
  "rand_ops \<Rightarrow> (string \<Rightarrow> IpAddr list option) \<Rightarrow> Workload \<Rightarrow> SocketAddr \<Rightarrow> IpFamily option \<Rightarrow>
     (IpAddr, proxy_error) result"
where
  "pick_workload_destination_or_resolve R lookup_ip dst_workload target restriction =
     (if sock_ip target \<in> set (wl_workload_ips dst_workload) then Ok (sock_ip target)
      else case find_or_first (\<lambda>ip. is_ipv6 ip = is_ipv6 (sock_ip target))
                  (filter (\<lambda>ip. case restriction of None \<Rightarrow> True | Some f \<Rightarrow> accepts_ip f ip)
                     (wl_workload_ips dst_workload)) of
             Some ip \<Rightarrow> Ok ip
           | None \<Rightarrow>
               (if wl_hostname dst_workload = '''' then Err (NoValidDestination dst_workload)
                else resolve_on_demand_dns R lookup_ip dst_workload target))"

definition finalize_upstream ::
  "rand_ops \<Rightarrow> (string \<Rightarrow> IpAddr list option) \<Rightarrow> SocketAddr \<Rightarrow> UpstreamDestination option \<Rightarrow>
     (Upstream option, proxy_error) result"
where
  "finalize_upstream R lookup_ip target upstream =
     (case upstream of
        Some (UpstreamParts wl port svc) \<Rightarrow>
          and_then (pick_workload_destination_or_resolve R lookup_ip wl target (Option.bind svc sv_ip_families))
            (\<lambda>ip. Ok (Some \<lparr>up_workload = wl, up_selected_workload_ip = ip, up_port = port,
               up_service_sans = (case svc of None \<Rightarrow> [] | Some s \<Rightarrow> sv_subject_alt_names s)\<rparr>))
      | _ \<Rightarrow> Ok None)"

definition fetch_waypoint ::
  "rand_ops \<Rightarrow> (string \<Rightarrow> IpAddr list option) \<Rightarrow> ProxyState \<Rightarrow> GatewayAddress \<Rightarrow> Workload \<Rightarrow> SocketAddr \<Rightarrow>
     (Upstream, proxy_error) result"
where
  "fetch_waypoint R lookup_ip s gw source_workload original =
     and_then
       (case gw_destination gw of
          DestAddress ip \<Rightarrow>
            (let addr = socket_addr (na_address ip) (gw_hbone_mtls_port gw)
             in Ok (find_upstream R s (na_network ip) source_workload addr, addr))
        | DestHostname host \<Rightarrow>
            (case find_hostname s host of
               Some (AddressService svc) \<Rightarrow>
                 Ok (find_upstream_from_service R s source_workload (gw_hbone_mtls_port gw) svc, original)
             | Some (AddressWorkload w) \<Rightarrow> Ok (Some (UpstreamParts w (gw_hbone_mtls_port gw) None), original)
             | None \<Rightarrow> Err (UnknownWaypointHost (nh_hostname host))))
       (\<lambda>(res, target). and_then (finalize_upstream R lookup_ip target res)
          (\<lambda>up. ok_or up (UnknownWaypoint gw)))"

section \<open>Authorization\<close>

definition fetch_sandbox :: "ProxyState \<Rightarrow> Workload \<Rightarrow> Sandbox option" where
  "fetch_sandbox s workload =
     (case sandboxes_by_workload (px_sandboxes s) (wl_uid workload) of [] \<Rightarrow> None | sb # _ \<Rightarrow> Some sb)"

definition binding_unavailable :: "strng \<Rightarrow> AuthorizationRejectionError" where
  "binding_unavailable name = ExplicitlyDenied name ''binding-unavailable''"

definition select_sandbox ::
  "ProxyState \<Rightarrow> ProxyRbacContext \<Rightarrow> Workload \<Rightarrow> (Sandbox option, AuthorizationRejectionError) result"
where
  "select_sandbox s ctx workload =
     (case rc_sandbox ctx of
        Some selected \<Rightarrow>
          map_err (\<lambda>_. binding_unavailable (sb_uid selected))
            (get_for_workload (px_sandboxes s) (sb_uid selected) (wl_uid workload))
      | None \<Rightarrow>
          (if conn_direction (rc_conn ctx) = Outbound then Ok None
           else Ok (fetch_sandbox s workload)))"

definition assert_rbac ::
  "ipnet_ops \<Rightarrow> ProxyState \<Rightarrow> ProxyRbacContext \<Rightarrow> (unit, AuthorizationRejectionError) result"
where
  "assert_rbac N s ctx =
     and_then (ok_or (ws_find_uid (px_workloads s) (wl_uid (rc_workload ctx)))
                 (binding_unavailable (wl_uid (rc_workload ctx)))) (\<lambda>workload.
     and_then (select_sandbox s ctx workload) (\<lambda>sandbox.
     and_then (case Option.bind sandbox sb_traffic_policy of
                 Some inline \<Rightarrow> assert_policies N [(''inline'', Some inline)] (rc_conn ctx)
               | None \<Rightarrow> Ok ()) (\<lambda>_.
       assert_policies N (traffic_policies workload (px_policies s)) (rc_conn ctx))))"

section \<open>Waiting for a workload\<close>

text \<open>
  \<open>wait_for_workload\<close> subscribes, looks once, and then looks again whenever the watch channel has a
  version it has not seen. \<open>wait_begin\<close> is the part up to the first look; the steps are the updates of
  the store by others and the wake-up of the waiter. The timeout, after which the waiter gives up, is
  enabled in every waiting state.
\<close>

datatype wait_status = Waiting | Found Workload | TimedOut

record Waiter =
  wt_store :: WorkloadStore
  wt_seen :: nat
  wt_status :: wait_status

definition look :: "WorkloadInfo \<Rightarrow> Waiter \<Rightarrow> Waiter" where
  "look i c =
     (case ws_find_by_info (wt_store c) i of None \<Rightarrow> c | Some w \<Rightarrow> c\<lparr>wt_status := Found w\<rparr>)"

definition wait_begin :: "WorkloadInfo \<Rightarrow> WorkloadStore \<Rightarrow> Waiter" where
  "wait_begin i s = look i \<lparr>wt_store = s, wt_seen = ws_insert_notifier s, wt_status = Waiting\<rparr>"

definition wake :: "WorkloadInfo \<Rightarrow> Waiter \<Rightarrow> Waiter" where
  "wake i c = look i (c\<lparr>wt_seen := ws_insert_notifier (wt_store c)\<rparr>)"

inductive wait_step :: "WorkloadInfo \<Rightarrow> Waiter \<Rightarrow> Waiter \<Rightarrow> bool" for i where
  Update: "wait_step i c (c\<lparr>wt_store := ws_step ev (wt_store c)\<rparr>)"
| Wake: "wt_status c = Waiting \<Longrightarrow> wt_seen c \<noteq> ws_insert_notifier (wt_store c) \<Longrightarrow> wait_step i c (wake i c)"
| Timeout: "wt_status c = Waiting \<Longrightarrow> wait_step i c (c\<lparr>wt_status := TimedOut\<rparr>)"

inductive wait_reach :: "WorkloadInfo \<Rightarrow> Waiter \<Rightarrow> bool" for i where
  Begin: "wait_reach i (wait_begin i (ws_run n evs))"
| Step: "wait_reach i c \<Longrightarrow> wait_step i c c' \<Longrightarrow> wait_reach i c'"

inductive_cases wait_step_cases: "wait_step i c c'"

section \<open>Specification\<close>

text \<open>What one stage of policies requires of a connection.\<close>

definition stage_allows :: "ipnet_ops \<Rightarrow> policies \<Rightarrow> Connection \<Rightarrow> bool" where
  "stage_allows N ps conn =
     (None \<notin> snd ` set ps \<and>
      (stage_bodies (conn_direction conn) ps = [] \<or>
       first_verdict (matches_tcp N conn) rule_action (stage_rules (conn_direction conn) ps) = Some Allow))"

text \<open>
  What the documentation of \<open>rand\<close> promises: \<open>choose_weighted\<close> fails only on a zero or overflowing sum
  of weights and never picks an element of weight zero, \<open>choose\<close> picks an element.
\<close>

definition rand_sound :: "rand_ops \<Rightarrow> bool" where
  "rand_sound R \<longleftrightarrow>
     (\<forall>ws. case choose_weighted R ws of
             None \<Rightarrow> sum_list ws = 0 \<or> 18446744073709551616 \<le> sum_list ws
           | Some i \<Rightarrow> i < length ws \<and> 0 < ws ! i) \<and>
     (\<forall>n. 0 < n \<longrightarrow> choose_index R n < n)"

definition first_choice :: rand_ops where
  "first_choice =
     \<lparr>choose_weighted = (\<lambda>ws. map_option fst (find (\<lambda>(i, w). 0 < w) (enumerate 0 ws))), choose_index = (\<lambda>_. 0)\<rparr>"

text \<open>The endpoints a service may use for a port, and how many preferences an endpoint meets in a row.\<close>

definition lb_usable :: "ProxyState \<Rightarrow> Service \<Rightarrow> u16 \<Rightarrow> (Endpoint \<times> Workload) set" where
  "lb_usable s svc port =
     {(ep, wl). ep \<in> set (hm_values (sv_endpoints svc)) \<and>
        ws_find_uid (px_workloads s) (ep_workload_uid ep) = Some wl \<and>
        (wl_workload_ips wl \<noteq> [] \<or> wl_hostname wl \<noteq> '''') \<and>
        (hm_get (sv_ports svc) port \<noteq> None \<or> wl_application_tunnel wl \<noteq> None)}"

definition lb_score :: "Workload \<Rightarrow> LoadBalancer \<Rightarrow> Workload \<Rightarrow> nat" where
  "lb_score src lb wl = length (takeWhile (scope_matches src wl) (lb_routing_preferences lb))"

definition lb_best :: "ProxyState \<Rightarrow> Workload \<Rightarrow> Service \<Rightarrow> u16 \<Rightarrow> (Endpoint \<times> Workload) set" where
  "lb_best s src svc port =
     (case sv_load_balancer svc of
        None \<Rightarrow> lb_usable s svc port
      | Some lb \<Rightarrow>
          (if lb_mode lb = LbStandard then lb_usable s svc port
           else let fit = (if lb_mode lb = LbStrict
                  then {c \<in> lb_usable s svc port. \<forall>t \<in> set (lb_routing_preferences lb). scope_matches src (snd c) t}
                  else lb_usable s svc port)
                in {c \<in> fit. \<forall>d \<in> fit. lb_score src lb (snd d) \<le> lb_score src lb (snd c)}))"

text \<open>The addresses of a pool that a request may be sent to: of its own family when there is one.\<close>

definition family_pick :: "IpAddr set \<Rightarrow> SocketAddr \<Rightarrow> IpAddr set" where
  "family_pick pool target =
     {ip \<in> pool. is_ipv6 ip = is_ipv6 (sock_ip target) \<or> (\<forall>x \<in> pool. is_ipv6 x \<noteq> is_ipv6 (sock_ip target))}"

definition example_workload :: Workload where
  "example_workload = \<lparr>wl_workload_ips = [V4 0x0A000001], wl_waypoint = None, wl_protocol = InHbone,
     wl_network_mode = Standard, wl_uid = ''cluster//Pod/prod/web-1'', wl_name = ''web-1'',
     wl_namespace = ''prod'', wl_trust_domain = ''cluster.local'', wl_service_account = ''default'',
     wl_network = '''', wl_workload_name = ''web'', wl_workload_type = ''deployment'',
     wl_canonical_name = ''web'', wl_canonical_revision = ''v1'', wl_hostname = '''', wl_node = ''node1'',
     wl_native_tunnel = False, wl_application_tunnel = None, wl_status = Healthy,
     wl_cluster_id = ''Kubernetes'', wl_locality = \<lparr>loc_region = ''r'', loc_zone = ''z'', loc_subzone = ''''\<rparr>,
     wl_services = [namespaced_hostname example_service], wl_capacity = 1, wl_encoded_labels = None,
     wl_egress_policies = None, wl_traffic_policy_refs = Some []\<rparr>"

definition example_info :: WorkloadInfo where
  "example_info = \<lparr>wi_name = ''web-1'', wi_namespace = ''prod'', wi_service_account = ''default''\<rparr>"

definition example_state :: ProxyState where
  "example_state =
     (px_new None)\<lparr>px_workloads := ws_insert (ws_new None) example_workload,
       px_services := insert_endpoint (ss_insert ss_default example_service) (namespaced_hostname example_service)
         example_endpoint\<rparr>"

definition example_waiter :: Waiter where
  "example_waiter = \<lparr>wt_store = ws_run None [WsInsert example_workload], wt_seen = 0, wt_status = Waiting\<rparr>"

section \<open>Lemmas\<close>

lemma rank_loop_takeWhile:
  "rank_loop src wl ts rank = rank + length (takeWhile (scope_matches src wl) ts)"
  by (induction ts arbitrary: rank) auto

lemma length_takeWhile_full: "length (takeWhile P xs) = length xs \<longleftrightarrow> (\<forall>x \<in> set xs. P x)"
  by (induction xs) auto

lemma set_map_filter: "set (List.map_filter f xs) = {y. \<exists>x \<in> set xs. f x = Some y}"
  by (force simp: List.map_filter_def)

lemma lb_candidate_Some:
  "lb_candidate s svc port ep = Some (e, wl) \<longleftrightarrow>
     e = ep \<and> ws_find_uid (px_workloads s) (ep_workload_uid ep) = Some wl \<and>
     (wl_workload_ips wl \<noteq> [] \<or> wl_hostname wl \<noteq> '''') \<and>
     (hm_get (sv_ports svc) port \<noteq> None \<or> wl_application_tunnel wl \<noteq> None)"
  by (cases "ws_find_uid (px_workloads s) (ep_workload_uid ep)") (auto simp: lb_candidate_def)

lemma set_candidates:
  "set (List.map_filter (lb_candidate s svc port) (hm_values (sv_endpoints svc))) = lb_usable s svc port"
  unfolding set_map_filter lb_usable_def by (auto simp: lb_candidate_Some)

lemma lb_ranked_Some:
  "lb_ranked src lb c = Some y \<longleftrightarrow>
     y = (lb_score src lb (snd c), c) \<and>
     (lb_mode lb = LbStrict \<longrightarrow> (\<forall>t \<in> set (lb_routing_preferences lb). scope_matches src (snd c) t))"
  by (auto simp: lb_ranked_def Let_def rank_loop_takeWhile lb_score_def length_takeWhile_full)

lemma lb_options_best:
  "case lb_options s src svc port of None \<Rightarrow> lb_best s src svc port = {}
   | Some options \<Rightarrow> set options = lb_best s src svc port"
proof -
  let ?cs = "List.map_filter (lb_candidate s svc port) (hm_values (sv_endpoints svc))"
  show ?thesis
  proof (cases "\<exists>lb. sv_load_balancer svc = Some lb \<and> lb_mode lb \<noteq> LbStandard")
    case False
    then show ?thesis
      by (auto simp: lb_options_def lb_best_def set_candidates split: option.splits)
  next
    case True
    then obtain lb where lb: "sv_load_balancer svc = Some lb" "lb_mode lb \<noteq> LbStandard" by blast
    define fit where "fit = (if lb_mode lb = LbStrict
        then {c \<in> lb_usable s svc port. \<forall>t \<in> set (lb_routing_preferences lb). scope_matches src (snd c) t}
        else lb_usable s svc port)"
    define ranks where "ranks = List.map_filter (lb_ranked src lb) ?cs"
    have ranks: "set ranks = (\<lambda>c. (lb_score src lb (snd c), c)) ` fit"
      unfolding ranks_def set_map_filter [of "lb_ranked src lb"] set_candidates
      by (auto simp: lb_ranked_Some fit_def)
    have best: "lb_best s src svc port = {c \<in> fit. \<forall>d \<in> fit. lb_score src lb (snd d) \<le> lb_score src lb (snd c)}"
      using lb by (simp add: lb_best_def fit_def Let_def)
    show ?thesis
    proof (cases "ranks = []")
      case True
      then have "fit = {}" using ranks by simp
      with lb True best show ?thesis by (simp add: lb_options_def Let_def flip: ranks_def)
    next
      case False
      define m where "m = Max (fst ` set ranks)"
      let ?score = "\<lambda>c. lb_score src lb (snd c)"
      have fst: "fst ` set ranks = ?score ` fit" unfolding ranks by (auto simp: image_image)
      have "finite (fst ` set ranks)" "fst ` set ranks \<noteq> {}" using False by auto
      then have "m \<in> fst ` set ranks" "\<forall>k \<in> fst ` set ranks. k \<le> m"
        by (simp_all add: m_def)
      then have m: "\<exists>d \<in> fit. ?score d = m" "\<forall>d \<in> fit. ?score d \<le> m" unfolding fst by auto
      have "set (map snd (filter (\<lambda>(rank, _). rank = m) ranks)) = {c \<in> fit. ?score c = m}"
        unfolding set_map set_filter ranks by (force simp: image_iff)
      also have "\<dots> = lb_best s src svc port"
        unfolding best using m by (auto intro: antisym)
      finally show ?thesis
        using lb False by (simp add: lb_options_def Let_def m_def flip: ranks_def)
    qed
  qed
qed

lemma load_balance_choice:
  assumes "rand_sound R"
  shows "case load_balance R s src svc port of
      Some c \<Rightarrow> c \<in> lb_best s src svc port \<and> 0 < wl_capacity (snd c)
    | None \<Rightarrow> (\<forall>c \<in> lb_best s src svc port. wl_capacity (snd c) = 0) \<or>
        (\<exists>options. lb_options s src svc port = Some options \<and>
           18446744073709551616 \<le> (\<Sum>c\<leftarrow>options. unat (wl_capacity (snd c))))"
proof (cases "lb_options s src svc port")
  case None
  then show ?thesis using lb_options_best [of s src svc port] by (simp add: load_balance_def)
next
  case (Some options)
  let ?ws = "map (\<lambda>(_, wl). unat (wl_capacity wl)) options"
  have opts: "set options = lb_best s src svc port"
    using Some lb_options_best [of s src svc port] by simp
  have ws: "?ws = map (\<lambda>c. unat (wl_capacity (snd c))) options" by (simp add: case_prod_beta)
  show ?thesis
  proof (cases "choose_weighted R ?ws")
    case None
    have "case choose_weighted R ?ws of None \<Rightarrow> sum_list ?ws = 0 \<or> 18446744073709551616 \<le> sum_list ?ws
        | Some i \<Rightarrow> i < length ?ws \<and> 0 < ?ws ! i"
      using assms unfolding rand_sound_def by blast
    with None have "sum_list ?ws = 0 \<or> 18446744073709551616 \<le> sum_list ?ws" by simp
    moreover have "sum_list ?ws = 0 \<longleftrightarrow> (\<forall>c \<in> set options. wl_capacity (snd c) = 0)"
      by (simp add: ws unsigned_eq_0_iff)
    ultimately show ?thesis
      using None Some opts by (auto simp: load_balance_def ws)
  next
    case (Some i)
    have "case choose_weighted R ?ws of None \<Rightarrow> sum_list ?ws = 0 \<or> 18446744073709551616 \<le> sum_list ?ws
        | Some i \<Rightarrow> i < length ?ws \<and> 0 < ?ws ! i"
      using assms unfolding rand_sound_def by blast
    with Some have "i < length options" "0 < unat (wl_capacity (snd (options ! i)))"
      by (auto simp: case_prod_beta)
    then have "options ! i \<in> set options" "0 < wl_capacity (snd (options ! i))"
      by (auto simp: ws word_less_nat_alt)
    then show ?thesis using Some \<open>lb_options s src svc port = Some options\<close> opts
      by (simp add: load_balance_def)
  qed
qed

lemma first_choice_sound: "rand_sound first_choice"
proof -
  have "case map_option fst (find (\<lambda>(i, w). 0 < w) (enumerate n ws)) of
      None \<Rightarrow> sum_list ws = 0 | Some i \<Rightarrow> n \<le> i \<and> i < n + length ws \<and> 0 < ws ! (i - n)" for n and ws :: "nat list"
  proof (induction ws arbitrary: n)
    case (Cons w ws)
    show ?case
    proof (cases "0 < w")
      case False
      with Cons.IH [of "Suc n"] show ?thesis
        by (auto simp: nth_Cons' Suc_diff_le split: option.splits)
    qed simp
  qed simp
  note first = this [where n = 0]
  have "case choose_weighted first_choice ws of
      None \<Rightarrow> sum_list ws = 0 \<or> 18446744073709551616 \<le> sum_list ws
    | Some i \<Rightarrow> i < length ws \<and> 0 < ws ! i" for ws
    using first [of ws] unfolding first_choice_def by (auto split: option.splits)
  moreover have "0 < n \<longrightarrow> choose_index first_choice n < n" for n
    by (simp add: first_choice_def)
  ultimately show ?thesis unfolding rand_sound_def by blast
qed

text \<open>
  C13. Load balancing picks well, whatever the random source does within its documentation: the chosen
  endpoint belongs to the service, its workload is stored and can be reached, knows the port or has an
  application tunnel, and has capacity; under a strict policy it meets every routing preference, and
  under any policy with preferences no usable endpoint meets more of them in a row. No endpoint is
  chosen only if none of the best ones has capacity, or their capacities overflow 64 bits.
\<close>

theorem load_balance_correct:
  assumes "rand_sound R"
  shows "case load_balance R s src svc port of
      Some c \<Rightarrow> c \<in> lb_best s src svc port \<and> 0 < wl_capacity (snd c)
    | None \<Rightarrow> (\<forall>c \<in> lb_best s src svc port. wl_capacity (snd c) = 0) \<or>
        (\<exists>options. lb_options s src svc port = Some options \<and>
           18446744073709551616 \<le> (\<Sum>c\<leftarrow>options. unat (wl_capacity (snd c))))"
  by (rule load_balance_choice [OF assms])

theorem load_balance_correct_witness:
  "rand_sound first_choice \<and>
   load_balance first_choice example_state example_workload
     (example_service\<lparr>sv_endpoints := [(''cluster//Pod/prod/web-1'', example_endpoint)]\<rparr>) 80 =
       Some (example_endpoint, example_workload) \<and>
   (example_endpoint, example_workload) \<in> lb_best example_state example_workload
     (example_service\<lparr>sv_endpoints := [(''cluster//Pod/prod/web-1'', example_endpoint)]\<rparr>) 80"
proof -
  have "load_balance first_choice example_state example_workload
     (example_service\<lparr>sv_endpoints := [(''cluster//Pod/prod/web-1'', example_endpoint)]\<rparr>) 80 =
       Some (example_endpoint, example_workload)"
    by code_simp
  with load_balance_correct [OF first_choice_sound, of example_state example_workload
      "example_service\<lparr>sv_endpoints := [(''cluster//Pod/prod/web-1'', example_endpoint)]\<rparr>" 80]
  show ?thesis by (simp add: first_choice_sound)
qed

lemma choose_one_in: "rand_sound R \<Longrightarrow> xs \<noteq> [] \<Longrightarrow> \<exists>x \<in> set xs. choose_one R xs = Some x"
  by (auto simp: choose_one_def rand_sound_def)

lemma resolve_on_demand_dns_pick:
  assumes "rand_sound R"
  shows "case resolve_on_demand_dns R lookup_ip w target of
      Inr ip \<Rightarrow> \<exists>resp. lookup_ip (wl_hostname w) = Some resp \<and> ip \<in> family_pick (set resp) target
    | Inl e \<Rightarrow> lookup_ip (wl_hostname w) = None \<and> e = NoResolvedAddresses (wl_uid w) \<or>
        lookup_ip (wl_hostname w) = Some [] \<and> e = EmptyResolvedAddresses (wl_uid w)"
proof (cases "lookup_ip (wl_hostname w)")
  case (Some resp)
  let ?same = "filter (\<lambda>r. is_ipv6 r = is_ipv6 (sock_ip target)) resp"
    and ?other = "filter (\<lambda>r. is_ipv6 r \<noteq> is_ipv6 (sock_ip target)) resp"
  have none: "choose_one R [] = (None :: IpAddr option)" by (simp add: choose_one_def)
  show ?thesis
  proof (cases "?same = []")
    case True
    then have "resp = ?other" by (simp add: filter_empty_conv)
    with True Some choose_one_in [OF assms, of ?other] none show ?thesis
      by (cases "resp = []") (auto simp: resolve_on_demand_dns_def Let_def family_pick_def filter_empty_conv)
  next
    case False
    from choose_one_in [OF assms False] Some show ?thesis
      by (auto simp: resolve_on_demand_dns_def Let_def family_pick_def)
  qed
qed (simp add: resolve_on_demand_dns_def)

lemma find_or_first_pick:
  "case find_or_first (\<lambda>ip. is_ipv6 ip = is_ipv6 (sock_ip target)) xs of
     None \<Rightarrow> xs = [] | Some ip \<Rightarrow> ip \<in> family_pick (set xs) target"
  by (cases xs) (auto simp: find_or_first_def family_pick_def find_None_iff split: option.splits dest: find_Some_in)

text \<open>
  The address chosen for an upstream: the requested address if the workload has it; else an address of
  the workload that the service's address families accept, of the family of the request when there is
  one; else, for a workload with a host name and no such address, an address that DNS gives for it,
  again of the family of the request when there is one. Errors name the workload, and there is one
  exactly when no step gives an address.
\<close>

theorem pick_workload_destination:
  assumes "rand_sound R"
  defines "ok \<equiv> \<lambda>restriction. case restriction of None \<Rightarrow> (\<lambda>_. True) | Some f \<Rightarrow> accepts_ip f"
  shows "case pick_workload_destination_or_resolve R lookup_ip w target restriction of
      Inr ip \<Rightarrow>
        (if sock_ip target \<in> set (wl_workload_ips w) then ip = sock_ip target
         else if \<exists>x \<in> set (wl_workload_ips w). ok restriction x
         then ip \<in> family_pick {x \<in> set (wl_workload_ips w). ok restriction x} target
         else wl_hostname w \<noteq> '''' \<and>
           (\<exists>resp. lookup_ip (wl_hostname w) = Some resp \<and> ip \<in> family_pick (set resp) target))
    | Inl e \<Rightarrow>
        sock_ip target \<notin> set (wl_workload_ips w) \<and>
        (\<forall>x \<in> set (wl_workload_ips w). \<not> ok restriction x) \<and>
        (wl_hostname w = '''' \<and> e = NoValidDestination w \<or>
         lookup_ip (wl_hostname w) = None \<and> e = NoResolvedAddresses (wl_uid w) \<or>
         lookup_ip (wl_hostname w) = Some [] \<and> e = EmptyResolvedAddresses (wl_uid w))"
proof -
  let ?pool = "filter (\<lambda>ip. case restriction of None \<Rightarrow> True | Some f \<Rightarrow> accepts_ip f ip) (wl_workload_ips w)"
  have pool: "set ?pool = {x \<in> set (wl_workload_ips w). ok restriction x}"
    by (auto simp: ok_def split: option.splits)
  show ?thesis
  proof (cases "sock_ip target \<in> set (wl_workload_ips w)")
    case False
    show ?thesis
    proof (cases "find_or_first (\<lambda>ip. is_ipv6 ip = is_ipv6 (sock_ip target)) ?pool")
      case None
      then have "?pool = []" using find_or_first_pick [where target = target and xs = ?pool] by simp
      then have "\<forall>x \<in> set (wl_workload_ips w). \<not> ok restriction x" using pool by auto
      with resolve_on_demand_dns_pick [OF assms(1), of lookup_ip w target] False None show ?thesis
        by (auto simp: pick_workload_destination_or_resolve_def split: sum.splits)
    next
      case (Some ip)
      then have ip: "ip \<in> family_pick (set ?pool) target" using find_or_first_pick [where target = target and xs = ?pool] by simp
      then have "ip \<in> {x \<in> set (wl_workload_ips w). ok restriction x}" unfolding pool by (simp add: family_pick_def)
      with Some ip [unfolded pool] False show ?thesis
        by (auto simp: pick_workload_destination_or_resolve_def)
    qed
  qed (simp add: pick_workload_destination_or_resolve_def)
qed

theorem pick_workload_destination_witness:
  "rand_sound first_choice \<and>
   pick_workload_destination_or_resolve first_choice (\<lambda>_. None)
     (example_workload\<lparr>wl_workload_ips := [V6 1, V4 0x0A000001]\<rparr>) (socket_addr (V4 0x0A600001) 80) (Some IPv6) =
   Ok (V6 1)"
proof -
  have "pick_workload_destination_or_resolve first_choice (\<lambda>_. None)
     (example_workload\<lparr>wl_workload_ips := [V6 1, V4 0x0A000001]\<rparr>) (socket_addr (V4 0x0A600001) 80) (Some IPv6) =
   Ok (V6 1)"
    by (simp add: pick_workload_destination_or_resolve_def find_or_first_def accepts_ip_def socket_addr_def)
  with pick_workload_destination [OF first_choice_sound, where lookup_ip = "\<lambda>_. None"
      and w = "example_workload\<lparr>wl_workload_ips := [V6 1, V4 0x0A000001]\<rparr>"
      and target = "socket_addr (V4 0x0A600001) 80" and restriction = "Some IPv6"]
  show ?thesis by (simp add: first_choice_sound)
qed

lemma assert_rbac_Ok:
  "assert_rbac N s ctx = Inr () \<longleftrightarrow>
     (\<exists>w sb. ws_find_uid (px_workloads s) (wl_uid (rc_workload ctx)) = Some w \<and>
        select_sandbox s ctx w = Inr sb \<and>
        (case Option.bind sb sb_traffic_policy of
           None \<Rightarrow> True | Some p \<Rightarrow> stage_allows N [(''inline'', Some p)] (rc_conn ctx)) \<and>
        stage_allows N (traffic_policies w (px_policies s)) (rc_conn ctx))"
proof -
  have "assert_policies N ps conn = Inr () \<longleftrightarrow> stage_allows N ps conn" for ps conn
    by (simp add: assert_policies_Ok stage_allows_def)
  then show ?thesis
    by (auto simp: assert_rbac_def and_then_Ok split: option.splits)
qed


lemma wait_begin_fields:
  "wt_store (look i c) = wt_store c" "wt_seen (look i c) = wt_seen c"
  by (simp_all add: look_def split: option.splits)

lemma look_waiting:
  "wt_status c = Waiting \<Longrightarrow>
     wt_status (look i c) = (case ws_find_by_info (wt_store c) i of None \<Rightarrow> Waiting | Some w \<Rightarrow> Found w)"
  by (simp add: look_def split: option.splits)

lemma ws_notifier_remove [simp]: "ws_insert_notifier (fst (ws_remove s u)) = ws_insert_notifier s"
  by (simp add: ws_remove_def split: option.splits)

lemma ws_notifier_mono: "ws_insert_notifier s \<le> ws_insert_notifier (ws_step ev s)"
  by (cases ev) (simp_all add: ws_insert_def Let_def)

lemma ws_find_by_info_step:
  assumes "ws_inv s" "ws_find_by_info s i = None" "ws_insert_notifier (ws_step ev s) = ws_insert_notifier s"
  shows "ws_find_by_info (ws_step ev s) i = None"
proof (cases ev)
  case (WsInsert w)
  with assms(3) show ?thesis by (simp add: ws_insert_def Let_def)
next
  case (WsRemove uid)
  have local: "ws_is_local (fst (ws_remove s uid)) = ws_is_local s"
    by (simp add: ws_is_local_def ws_remove_def fun_eq_iff split: option.splits)
  from ws_find_by_info_iff [OF assms(1), of i] assms(2)
  have none: "\<not> (ws_find_uid s (wl_uid w) = Some w \<and> ws_is_local s (wl_node w) \<and> wi_matches i w)" for w
    by simp
  show ?thesis
  proof (rule ccontr)
    assume "ws_find_by_info (ws_step ev s) i \<noteq> None"
    then obtain w where "ws_find_by_info (fst (ws_remove s uid)) i = Some w"
      using WsRemove by auto
    with ws_find_by_info_iff [OF ws_inv_remove [OF assms(1)], of uid i] none [of w] local show False
      by (auto simp: ws_find_uid_def ws_remove_by_uid split: if_splits)
  qed
qed

lemma wait_inv:
  "wait_reach i c \<Longrightarrow> ws_inv (wt_store c) \<and> wt_seen c \<le> ws_insert_notifier (wt_store c) \<and>
     (wt_status c = Waiting \<and> wt_seen c = ws_insert_notifier (wt_store c) \<longrightarrow>
        ws_find_by_info (wt_store c) i = None)"
proof (induction rule: wait_reach.induct)
  case (Begin n evs)
  show ?case
    using ws_run_refines(1) [of n evs]
    by (simp add: wait_begin_def wait_begin_fields look_waiting split: option.splits)
next
  case (Step c c')
  from Step.hyps(2) show ?case
  proof cases
    case (Update ev)
    have "ws_insert_notifier (wt_store c) \<le> ws_insert_notifier (ws_step ev (wt_store c))"
      by (rule ws_notifier_mono)
    then show ?thesis
      using Step.IH ws_find_by_info_step [of "wt_store c" i ev] Update by (auto simp: ws_inv_step)
  next
    case Wake
    then show ?thesis
      using Step.IH by (simp add: wake_def wait_begin_fields look_waiting split: option.splits)
  qed (use Step.IH in simp)
qed



end
