(* ===== verification/Xds.thy ===== *)
theory Xds
  imports ProxyState
begin

text \<open>
  Applying xDS updates to the proxy state, \<^verbatim>\<open>src/xds.rs\<close>, with the batch helper of
  \<^verbatim>\<open>src/xds/client.rs\<close> and the requests of \<^verbatim>\<open>src/cert_fetcher.rs\<close>. The handlers hold the write lock for a
  whole response, so a response is one step on the state. Calls of the certificate fetcher are a log
  that the operations return.
\<close>

section \<open>Updates\<close>

datatype 't XdsUpdate = Update (update_name: strng) 't | Remove (update_name: strng)

datatype xds_error =
    XdsWorkloadError WorkloadError
  | XdsPolicyError policy_error
  | XdsSandboxError sandbox_error
  | UnknownAddressType

text \<open>
  \<open>handle_single_resource\<close>: every update is handled, the rejected ones are collected by name.
\<close>

fun handle_each :: "('u \<Rightarrow> 's \<Rightarrow> ('s, 'e) result) \<Rightarrow> ('u \<Rightarrow> strng) \<Rightarrow> 'u list \<Rightarrow> 's \<Rightarrow> 's \<times> (strng \<times> 'e) list" where
  "handle_each handle_one name [] s = (s, [])"
| "handle_each handle_one name (res # updates) s =
     (case handle_one res s of
        Inl e \<Rightarrow> (let (s', rejects) = handle_each handle_one name updates s in (s', (name res, e) # rejects))
      | Inr s1 \<Rightarrow> handle_each handle_one name updates s1)"

definition handle_single_resource ::
  "('u \<Rightarrow> 's \<Rightarrow> ('s, 'e) result) \<Rightarrow> ('u \<Rightarrow> strng) \<Rightarrow> 'u list \<Rightarrow> 's \<Rightarrow> 's \<times> (unit, (strng \<times> 'e) list) result"
where
  "handle_single_resource handle_one name updates s =
     (let (s', rejects) = handle_each handle_one name updates s
      in (s', if rejects = [] then Ok () else Err rejects))"

datatype cert_call = PrefetchCert Workload | ClearCert Identity

type_synonym updater = "ProxyState \<times> cert_call list"

datatype XdsAddress = XaWorkload XdsWorkload | XaService XdsService | XaUnknown

section \<open>The mutator\<close>

definition notify_policies :: "ProxyState \<Rightarrow> ProxyState" where
  "notify_policies s = s\<lparr>px_policies := policy_send (px_policies s)\<rparr>"

definition remove_service_by_name :: "ProxyState \<Rightarrow> strng \<Rightarrow> ProxyState" where
  "remove_service_by_name s xds_name =
     (case NamespacedHostname_from_str xds_name of
        Inl _ \<Rightarrow> s
      | Inr name \<Rightarrow>
          (if CHR ''/'' \<in> set (nh_hostname name) then s
           else s\<lparr>px_services := fst (ss_remove (px_services s) name)\<rparr>))"

definition remove_internal :: "strng \<Rightarrow> bool \<Rightarrow> updater \<Rightarrow> updater" where
  "remove_internal xds_name for_workload_insert u =
     (let (s, certs) = u; (workloads, removed) = ws_remove (px_workloads s) xds_name in
      case removed of
        Some prev \<Rightarrow>
          (let s1 = s\<lparr>px_workloads := workloads, px_services := remove_endpoint (px_services s) prev\<rparr>;
               certs1 =
                 (if \<not> for_workload_insert \<and>
                     was_last_identity_on_node workloads (wl_node prev) (wl_identity prev)
                  then certs @ [ClearCert (wl_identity prev)] else certs)
           in (if \<not> for_workload_insert then notify_policies s1 else s1, certs1))
      | None \<Rightarrow>
          (if for_workload_insert then (s, certs) else (remove_service_by_name s xds_name, certs)))"

definition updater_remove :: "strng \<Rightarrow> updater \<Rightarrow> updater" where
  "updater_remove xds_name = remove_internal xds_name False"

text \<open>\<open>NamespacedHostname::from_str\<close> on the key; the loop stops at the first key that does not parse.\<close>

fun insert_service_endpoints ::
  "Workload \<Rightarrow> (string, PortList) hashmap \<Rightarrow> ServiceStore \<Rightarrow> (ServiceStore, WorkloadError) result"
where
  "insert_service_endpoints workload [] st = Ok st"
| "insert_service_endpoints workload ((namespaced_host, ports) # services) st =
     and_then (map_err NamespacedHostnameParse (NamespacedHostname_from_str namespaced_host)) (\<lambda>host.
       insert_service_endpoints workload services
         (insert_endpoint st host
            \<lparr>ep_workload_uid = wl_uid workload, ep_port = port_map ports, ep_status = wl_status workload\<rparr>))"

definition insert_workload ::
  "ipnet_ops \<Rightarrow> codec_ops \<Rightarrow> XdsWorkload \<Rightarrow> updater \<Rightarrow> (updater, xds_error) result"
where
  "insert_workload N C w u =
     and_then (map_err XdsWorkloadError (Workload_try_from N C w)) (\<lambda>(workload, services).
       let policy_changed =
             (case ws_find_uid (px_workloads (fst u)) (wl_uid workload) of
                None \<Rightarrow> True
              | Some old \<Rightarrow> wl_traffic_policy_refs old \<noteq> wl_traffic_policy_refs workload);
           (s1, certs) = remove_internal (wl_uid workload) True u;
           s2 = s1\<lparr>px_workloads := ws_insert (px_workloads s1) workload\<rparr>
       in and_then (map_err XdsWorkloadError (insert_service_endpoints workload services (px_services s2)))
            (\<lambda>services'.
              let s3 = s2\<lparr>px_services := services'\<rparr>
              in Ok (if policy_changed then notify_policies s3 else s3, certs @ [PrefetchCert workload])))"

text \<open>The loop over the endpoints of the service that is being replaced.\<close>

definition carry_endpoints :: "Service \<Rightarrow> Service \<Rightarrow> Service" where
  "carry_endpoints prev service =
     fold (\<lambda>ep s. if should_include_endpoint s (ep_status ep)
                    then s\<lparr>sv_endpoints := hm_insert (ep_workload_uid ep) ep (sv_endpoints s)\<rparr> else s)
       (hm_values (sv_endpoints prev)) service"

definition insert_service :: "XdsService \<Rightarrow> updater \<Rightarrow> (updater, xds_error) result" where
  "insert_service x u =
     and_then (map_err XdsWorkloadError (Service_try_from x)) (\<lambda>service.
       let s = fst u;
           service' = (case get_by_namespaced_host (px_services s) (namespaced_hostname service) of
                         None \<Rightarrow> service | Some prev \<Rightarrow> carry_endpoints prev service)
       in Ok (s\<lparr>px_services := ss_insert (px_services s) service'\<rparr>, snd u))"

definition insert_address ::
  "ipnet_ops \<Rightarrow> codec_ops \<Rightarrow> XdsAddress \<Rightarrow> updater \<Rightarrow> (updater, xds_error) result"
where
  "insert_address N C a u =
     (case a of
        XaWorkload w \<Rightarrow> insert_workload N C w u
      | XaService s \<Rightarrow> insert_service s u
      | XaUnknown \<Rightarrow> Err UnknownAddressType)"

section \<open>The handlers\<close>

fun handle_one_address ::
  "ipnet_ops \<Rightarrow> codec_ops \<Rightarrow> XdsAddress XdsUpdate \<Rightarrow> updater \<Rightarrow> (updater, xds_error) result"
where
  "handle_one_address N C (Update _ a) u = insert_address N C a u"
| "handle_one_address N C (Remove name) u = Ok (updater_remove name u)"

fun handle_one_workload ::
  "ipnet_ops \<Rightarrow> codec_ops \<Rightarrow> XdsWorkload XdsUpdate \<Rightarrow> updater \<Rightarrow> (updater, xds_error) result"
where
  "handle_one_workload N C (Update _ w) u = insert_workload N C w u"
| "handle_one_workload N C (Remove name) u = Ok (updater_remove name u)"

definition handle_workloads ::
  "ipnet_ops \<Rightarrow> codec_ops \<Rightarrow> XdsWorkload XdsUpdate list \<Rightarrow> updater \<Rightarrow>
     updater \<times> (unit, (strng \<times> xds_error) list) result"
where
  "handle_workloads N C = handle_single_resource (handle_one_workload N C) update_name"

definition handle_addresses ::
  "ipnet_ops \<Rightarrow> codec_ops \<Rightarrow> XdsAddress XdsUpdate list \<Rightarrow> updater \<Rightarrow>
     updater \<times> (unit, (strng \<times> xds_error) list) result"
where
  "handle_addresses N C = handle_single_resource (handle_one_address N C) update_name"

fun handle_one_sandbox ::
  "ipnet_ops \<Rightarrow> XdsSandbox XdsUpdate \<Rightarrow> SandboxStore \<times> bool \<Rightarrow> (SandboxStore \<times> bool, xds_error) result"
where
  "handle_one_sandbox N (Update name resource) (sandboxes, changed) =
     and_then (map_err XdsSandboxError (sbs_update N sandboxes name resource)) (\<lambda>(s, c). Ok (s, changed \<or> c))"
| "handle_one_sandbox N (Remove name) (sandboxes, changed) =
     (let (s, c) = sbs_remove sandboxes name in Ok (s, changed \<or> c))"

definition handle_sandboxes ::
  "ipnet_ops \<Rightarrow> XdsSandbox XdsUpdate list \<Rightarrow> ProxyState \<Rightarrow> ProxyState \<times> (unit, (strng \<times> xds_error) list) result"
where
  "handle_sandboxes N updates s =
     (let ((sandboxes, changed), r) =
            handle_single_resource (handle_one_sandbox N) update_name updates (px_sandboxes s, False);
          s1 = s\<lparr>px_sandboxes := sandboxes\<rparr>
      in (if changed then notify_policies s1 else s1, r))"

fun handle_one_policy ::
  "ipnet_ops \<Rightarrow> XdsTrafficPolicy XdsUpdate \<Rightarrow> TrafficPolicyStore \<times> bool \<Rightarrow>
     (TrafficPolicyStore \<times> bool, xds_error) result"
where
  "handle_one_policy N (Update name resource) (policies, changed) =
     and_then (map_err XdsPolicyError (policy_update N policies name resource)) (\<lambda>(s, c). Ok (s, changed \<or> c))"
| "handle_one_policy N (Remove name) (policies, changed) =
     (let (s, c) = policy_remove policies name in Ok (s, changed \<or> c))"

definition handle_policies ::
  "ipnet_ops \<Rightarrow> XdsTrafficPolicy XdsUpdate list \<Rightarrow> ProxyState \<Rightarrow> ProxyState \<times> (unit, (strng \<times> xds_error) list) result"
where
  "handle_policies N updates s =
     (let ((policies, changed), r) =
            handle_single_resource (handle_one_policy N) update_name updates (px_policies s, False);
          s1 = s\<lparr>px_policies := policies\<rparr>
      in (if changed then notify_policies s1 else s1, r))"

text \<open>A response of the management server, by resource type.\<close>

datatype xds_response =
    Workloads "XdsWorkload XdsUpdate list"
  | Addresses "XdsAddress XdsUpdate list"
  | Sandboxes "XdsSandbox XdsUpdate list"
  | Policies "XdsTrafficPolicy XdsUpdate list"

fun xds_apply ::
  "ipnet_ops \<Rightarrow> codec_ops \<Rightarrow> xds_response \<Rightarrow> updater \<Rightarrow> updater \<times> (unit, (strng \<times> xds_error) list) result"
where
  "xds_apply N C (Workloads us) u = handle_workloads N C us u"
| "xds_apply N C (Addresses us) u = handle_addresses N C us u"
| "xds_apply N C (Sandboxes us) (s, certs) = (let (s', r) = handle_sandboxes N us s in ((s', certs), r))"
| "xds_apply N C (Policies us) (s, certs) = (let (s', r) = handle_policies N us s in ((s', certs), r))"

definition xds_run :: "ipnet_ops \<Rightarrow> codec_ops \<Rightarrow> strng option \<Rightarrow> xds_response list \<Rightarrow> updater" where
  "xds_run N C node rs = fold (\<lambda>r u. fst (xds_apply N C r u)) rs (px_new node, [])"

section \<open>Certificates\<close>

datatype ProxyMode = Shared | Dedicated

record CertFetcherImpl =
  cf_proxy_mode :: ProxyMode
  cf_local_node :: "strng option"

definition should_prefetch_certificate :: "CertFetcherImpl \<Rightarrow> Workload \<Rightarrow> bool" where
  "should_prefetch_certificate f w =
     (cf_proxy_mode f = Shared \<and> Some (wl_node w) = cf_local_node f \<and>
      (wl_native_tunnel w \<or> wl_protocol w = InHbone))"

datatype cert_request = FetchCert Identity | ForgetCert Identity

fun cert_requests :: "CertFetcherImpl \<Rightarrow> cert_call \<Rightarrow> cert_request list" where
  "cert_requests f (PrefetchCert w) = (if should_prefetch_certificate f w then [FetchCert (wl_identity w)] else [])"
| "cert_requests f (ClearCert i) = [ForgetCert i]"

section \<open>Specification\<close>

text \<open>
  An endpoint is sound when its workload is stored, lists the service, and has the health status of the
  endpoint. The state invariant collects those of the stores and says that every endpoint, attached or
  staged, is sound, and that attached ones are admitted by the health policy of their service.
\<close>

definition endpoint_ok :: "WorkloadStore \<Rightarrow> NamespacedHostname \<Rightarrow> strng \<Rightarrow> Endpoint \<Rightarrow> bool" where
  "endpoint_ok ws host uid ep \<longleftrightarrow>
     ep_workload_uid ep = uid \<and>
     (\<exists>w. ws_find_uid ws uid = Some w \<and> host \<in> set (wl_services w) \<and> ep_status ep = wl_status w)"

definition service_ok :: "WorkloadStore \<Rightarrow> NamespacedHostname \<Rightarrow> Service \<Rightarrow> bool" where
  "service_ok ws host svc \<longleftrightarrow>
     hm_wf (sv_endpoints svc) \<and>
     (\<forall>uid ep. hm_get (sv_endpoints svc) uid = Some ep \<longrightarrow>
        endpoint_ok ws host uid ep \<and> should_include_endpoint svc (ep_status ep))"

definition services_ok :: "WorkloadStore \<Rightarrow> ServiceStore \<Rightarrow> bool" where
  "services_ok ws st \<longleftrightarrow>
     (\<forall>host svc. get_by_namespaced_host st host = Some svc \<longrightarrow> service_ok ws host svc) \<and>
     (\<forall>host uid ep. hm_get (staged_at st host) uid = Some ep \<longrightarrow> endpoint_ok ws host uid ep)"

definition px_inv :: "ProxyState \<Rightarrow> bool" where
  "px_inv s \<longleftrightarrow>
     ws_inv (px_workloads s) \<and> ss_inv (px_services s) \<and> sbs_inv (px_sandboxes s) \<and>
     services_ok (px_workloads s) (px_services s)"

text \<open>The outcome of inserting a converted workload, up to the service store its endpoints go to.\<close>

definition workload_refs_changed :: "ProxyState \<Rightarrow> Workload \<Rightarrow> bool" where
  "workload_refs_changed s w \<longleftrightarrow>
     (case ws_find_uid (px_workloads s) (wl_uid w) of
        None \<Rightarrow> True | Some old \<Rightarrow> wl_traffic_policy_refs old \<noteq> wl_traffic_policy_refs w)"

definition workload_stored :: "Workload \<Rightarrow> ServiceStore \<Rightarrow> updater \<Rightarrow> updater" where
  "workload_stored w services' u =
     (let (s1, certs) = remove_internal (wl_uid w) True u;
          s3 = s1\<lparr>px_workloads := ws_insert (px_workloads s1) w, px_services := services'\<rparr>
      in (if workload_refs_changed (fst u) w then notify_policies s3 else s3, certs @ [PrefetchCert w]))"

text \<open>The updates a handler accepts, by the message alone.\<close>

fun address_update_valid :: "ipnet_ops \<Rightarrow> codec_ops \<Rightarrow> XdsAddress XdsUpdate \<Rightarrow> bool" where
  "address_update_valid N C (Update _ (XaWorkload w)) = workload_valid N C w"
| "address_update_valid N C (Update _ (XaService s)) = is_ok (Service_try_from s)"
| "address_update_valid N C (Update _ XaUnknown) = False"
| "address_update_valid N C (Remove _) = True"

text \<open>
  The part of a response that is accepted, and the names a rejection has to report, decided by the
  messages alone.
\<close>

fun sandbox_update_valid :: "ipnet_ops \<Rightarrow> XdsSandbox XdsUpdate \<Rightarrow> bool" where
  "sandbox_update_valid N (Update name sb) = is_ok (sbs_admit N name sb)"
| "sandbox_update_valid N (Remove _) = True"

fun policy_update_valid :: "ipnet_ops \<Rightarrow> XdsTrafficPolicy XdsUpdate \<Rightarrow> bool" where
  "policy_update_valid N (Update name p) = is_ok (policy_admit N name p)"
| "policy_update_valid N (Remove _) = True"

fun workload_update_valid :: "ipnet_ops \<Rightarrow> codec_ops \<Rightarrow> XdsWorkload XdsUpdate \<Rightarrow> bool" where
  "workload_update_valid N C (Update _ w) = workload_valid N C w"
| "workload_update_valid N C (Remove _) = True"

fun accepted_part :: "ipnet_ops \<Rightarrow> codec_ops \<Rightarrow> xds_response \<Rightarrow> xds_response" where
  "accepted_part N C (Workloads us) = Workloads (filter (workload_update_valid N C) us)"
| "accepted_part N C (Addresses us) = Addresses (filter (address_update_valid N C) us)"
| "accepted_part N C (Sandboxes us) = Sandboxes (filter (sandbox_update_valid N) us)"
| "accepted_part N C (Policies us) = Policies (filter (policy_update_valid N) us)"

fun rejected_names :: "ipnet_ops \<Rightarrow> codec_ops \<Rightarrow> xds_response \<Rightarrow> strng list" where
  "rejected_names N C (Workloads us) = map update_name (filter (\<lambda>u. \<not> workload_update_valid N C u) us)"
| "rejected_names N C (Addresses us) = map update_name (filter (\<lambda>u. \<not> address_update_valid N C u) us)"
| "rejected_names N C (Sandboxes us) = map update_name (filter (\<lambda>u. \<not> sandbox_update_valid N u) us)"
| "rejected_names N C (Policies us) = map update_name (filter (\<lambda>u. \<not> policy_update_valid N u) us)"

text \<open>What authorization reads of the state.\<close>

definition auth_view ::
  "ProxyState \<Rightarrow> (strng \<Rightarrow> strng list option option) \<times> (strng \<Rightarrow> TrafficPolicy option) \<times>
     (strng \<Rightarrow> Sandbox option) \<times> (strng \<Rightarrow> strng list)"
where
  "auth_view s =
     (\<lambda>uid. map_option wl_traffic_policy_refs (ws_find_uid (px_workloads s) uid),
      policy_get (px_policies s), sbs_get (px_sandboxes s), bound_ids (px_sandboxes s))"

definition notified :: "ProxyState \<Rightarrow> nat" where
  "notified s = ps_notified (px_policies s)"

definition auth_step :: "ProxyState \<Rightarrow> ProxyState \<Rightarrow> bool" where
  "auth_step s s' \<longleftrightarrow> notified s \<le> notified s' \<and> (notified s = notified s' \<longrightarrow> auth_view s = auth_view s')"

text \<open>A workload behind a service, as messages.\<close>

definition example_xds_workload :: XdsWorkload where
  "example_xds_workload = \<lparr>xw_uid = ''cluster//Pod/prod/web-1'', xw_name = ''web-1'', xw_namespace = ''prod'',
     xw_addresses = [[10, 0, 0, 1]], xw_hostname = '''', xw_network = '''', xw_tunnel_protocol = 1,
     xw_trust_domain = '''', xw_service_account = '''', xw_waypoint = None, xw_node = ''node1'',
     xw_canonical_name = ''web'', xw_canonical_revision = ''v1'', xw_workload_type = 0, xw_workload_name = ''web'',
     xw_native_tunnel = False, xw_application_tunnel = None,
     xw_services = [(''prod/web.prod.svc'', \<lparr>pl_ports = [\<lparr>xp_service_port = 80, xp_target_port = 8080\<rparr>]\<rparr>)],
     xw_status = 0, xw_cluster_id = ''Kubernetes'', xw_locality = None, xw_network_mode = 0, xw_extensions = [],
     xw_capacity = None\<rparr>"

definition example_xds_service :: XdsService where
  "example_xds_service = \<lparr>xsv_name = ''web'', xsv_namespace = ''prod'', xsv_hostname = ''web.prod.svc'',
     xsv_addresses = [\<lparr>xna_network = '''', xna_address = [10, 96, 0, 1]\<rparr>],
     xsv_ports = [\<lparr>xp_service_port = 80, xp_target_port = 8080\<rparr>], xsv_subject_alt_names = [],
     xsv_waypoint = None, xsv_load_balancing = None, xsv_ip_families = 0, xsv_canonical = False\<rparr>"

definition example_run :: updater where
  "example_run = xds_run cidr_ops example_codec None
     [Addresses [Update ''w'' (XaWorkload example_xds_workload), Update ''s'' (XaService example_xds_service)]]"

section \<open>Batches\<close>

text \<open>
  The contract between the batch helper and the function that handles one update: under the invariant
  an update is accepted or rejected by its message alone, and an accepted one keeps the invariant.
\<close>

locale batch =
  fixes handle_one :: "'u \<Rightarrow> 's \<Rightarrow> ('s, 'e) result" and inv :: "'s \<Rightarrow> bool" and valid :: "'u \<Rightarrow> bool"
  assumes keeps: "inv s \<Longrightarrow> handle_one u s = Inr s' \<Longrightarrow> inv s'"
    and accepts: "inv s \<Longrightarrow> is_ok (handle_one u s) = valid u"
begin

lemma batch_inv: "inv s \<Longrightarrow> inv (fst (handle_each handle_one name us s))"
  by (induction us arbitrary: s) (auto simp: keeps case_prod_unfold Let_def split: sum.splits)

lemma batch_rejects:
  "inv s \<Longrightarrow> map fst (snd (handle_each handle_one name us s)) = map name (filter (\<lambda>u. \<not> valid u) us)"
proof (induction us arbitrary: s)
  case (Cons u us)
  with accepts [of s u] keeps [of s u] show ?case
    by (cases "handle_one u s") (simp_all add: case_prod_unfold Let_def)
qed simp

lemma batch_accepted:
  "inv s \<Longrightarrow> handle_each handle_one name (filter valid us) s = (fst (handle_each handle_one name us s), [])"
proof (induction us arbitrary: s)
  case (Cons u us)
  with accepts [of s u] keeps [of s u] show ?case
    by (cases "handle_one u s") (simp_all add: case_prod_unfold Let_def)
qed simp

lemma batch_exact:
  assumes "inv s"
  shows "handle_single_resource handle_one name (filter valid us) s =
      (fst (handle_single_resource handle_one name us s), Ok ())"
    and "(case snd (handle_single_resource handle_one name us s) of Inr _ \<Rightarrow> [] | Inl rejects \<Rightarrow> map fst rejects) =
      map name (filter (\<lambda>u. \<not> valid u) us)"
    and "is_ok (snd (handle_single_resource handle_one name us s)) \<longleftrightarrow> filter (\<lambda>u. \<not> valid u) us = []"
proof -
  have "filter (\<lambda>u. \<not> valid u) us = [] \<longleftrightarrow> map name (filter (\<lambda>u. \<not> valid u) us) = []" by simp
  also have "\<dots> \<longleftrightarrow> snd (handle_each handle_one name us s) = []"
    using batch_rejects [OF assms, of name us, symmetric] by simp
  finally show "is_ok (snd (handle_single_resource handle_one name us s)) \<longleftrightarrow> filter (\<lambda>u. \<not> valid u) us = []"
    by (simp add: handle_single_resource_def case_prod_unfold Let_def)
qed (use batch_accepted [OF assms, of name us] batch_rejects [OF assms, of name us] in
    \<open>auto simp: handle_single_resource_def case_prod_unfold Let_def\<close>)

lemma batch_steps:
  assumes "\<And>s. R s s" "\<And>s t u. R s t \<Longrightarrow> R t u \<Longrightarrow> R s u"
    and step: "\<And>s u s'. inv s \<Longrightarrow> handle_one u s = Inr s' \<Longrightarrow> R s s'"
  shows "inv s \<Longrightarrow> R s (fst (handle_each handle_one name us s))"
proof (induction us arbitrary: s)
  case (Cons u us)
  then show ?case
    using assms(2) [OF step [of s u]] keeps [of s u]
    by (cases "handle_one u s") (simp_all add: case_prod_unfold Let_def)
qed (simp add: assms(1))

end

section \<open>Lemmas\<close>

subsection \<open>Endpoints and workloads\<close>

lemma endpoint_ok_cong:
  "ws_find_uid ws' uid = ws_find_uid ws uid \<Longrightarrow> endpoint_ok ws' host uid ep = endpoint_ok ws host uid ep"
  by (simp add: endpoint_ok_def)

lemma services_okD:
  assumes "services_ok ws st"
  shows "get_by_namespaced_host st host = Some svc \<Longrightarrow> hm_wf (sv_endpoints svc)"
    and "get_by_namespaced_host st host = Some svc \<Longrightarrow> hm_get (sv_endpoints svc) uid = Some ep \<Longrightarrow>
      endpoint_ok ws host uid ep \<and> should_include_endpoint svc (ep_status ep)"
    and "hm_get (staged_at st host) uid = Some ep \<Longrightarrow> endpoint_ok ws host uid ep"
  using assms by (auto simp: services_ok_def service_ok_def)

lemma services_okI:
  assumes "\<And>host svc. get_by_namespaced_host st host = Some svc \<Longrightarrow> hm_wf (sv_endpoints svc)"
    and "\<And>host svc uid ep. get_by_namespaced_host st host = Some svc \<Longrightarrow>
      hm_get (sv_endpoints svc) uid = Some ep \<Longrightarrow>
      endpoint_ok ws host uid ep \<and> should_include_endpoint svc (ep_status ep)"
    and "\<And>host uid ep. hm_get (staged_at st host) uid = Some ep \<Longrightarrow> endpoint_ok ws host uid ep"
  shows "services_ok ws st"
  using assms by (auto simp: services_ok_def service_ok_def)

lemma services_ok_detach:
  assumes ok: "services_ok ws st" and inv: "ss_inv st" "ws_inv ws" and prev: "ws_find_uid ws uid = Some prev"
  shows "services_ok (fst (ws_remove ws uid)) (remove_endpoint st prev)"
proof -
  let ?ws = "fst (ws_remove ws uid)"
  have uid: "wl_uid prev = uid" using inv(2) prev by (simp add: ws_inv_def ws_find_uid_def)
  have find: "ws_find_uid ?ws u = (if u = uid then None else ws_find_uid ws u)" for u
    by (simp add: ws_find_uid_def ws_remove_by_uid)
  have keep: "endpoint_ok ?ws host u ep" if "endpoint_ok ws host u ep" "u \<noteq> uid" for host u ep
    using that by (simp add: endpoint_ok_def find)
  have here: "host \<in> set (wl_services prev)" if "endpoint_ok ws host uid ep" for host ep
    using that prev by (simp add: endpoint_ok_def)
  note view = remove_endpoint_view [OF inv(1), of prev]
  show ?thesis
  proof (rule services_okI)
    fix host svc assume "get_by_namespaced_host (remove_endpoint st prev) host = Some svc"
    then obtain old where old: "get_by_namespaced_host st host = Some old"
        and "svc = old \<or> svc = old\<lparr>sv_endpoints := hm_remove uid (sv_endpoints old)\<rparr>"
      by (auto simp: view(2) uid split: if_splits)
    with services_okD(1) [OF ok old] show "hm_wf (sv_endpoints svc)" by (auto simp: hm.wf_del)
  next
    fix host svc u ep
    assume svc: "get_by_namespaced_host (remove_endpoint st prev) host = Some svc"
      and ep: "hm_get (sv_endpoints svc) u = Some ep"
    from svc ep obtain old where "get_by_namespaced_host st host = Some old" "hm_get (sv_endpoints old) u = Some ep"
        "should_include_endpoint svc = should_include_endpoint old" and u: "host \<in> set (wl_services prev) \<longrightarrow> u \<noteq> uid"
      by (auto simp: view(2) uid split: if_splits)
    then have old: "endpoint_ok ws host u ep" "should_include_endpoint svc (ep_status ep)"
      using services_okD(2) [OF ok] by auto
    with here [of host ep] u have "u \<noteq> uid" by auto
    with keep old show "endpoint_ok ?ws host u ep \<and> should_include_endpoint svc (ep_status ep)" by blast
  next
    fix host u ep assume "hm_get (staged_at (remove_endpoint st prev) host) u = Some ep"
    then have "hm_get (staged_at st host) u = Some ep" and u: "host \<in> set (wl_services prev) \<longrightarrow> u \<noteq> uid"
      by (auto simp: view(3) uid split: if_splits)
    then have ok: "endpoint_ok ws host u ep" using services_okD(3) [OF ok] by blast
    with here [of host ep] u have "u \<noteq> uid" by auto
    with keep ok show "endpoint_ok ?ws host u ep" by blast
  qed
qed

lemma ws_insert_find: "ws_find_uid (ws_insert ws w) u = (if u = wl_uid w then Some w else ws_find_uid ws u)"
  by (simp add: ws_insert_def ws_find_uid_def Let_def ws_remove_by_uid)

lemma services_ok_new_workload:
  assumes "services_ok ws st" "ws_find_uid ws (wl_uid w) = None"
  shows "services_ok (ws_insert ws w) st"
proof -
  have "endpoint_ok (ws_insert ws w) host u ep" if "endpoint_ok ws host u ep" for host u ep
    using that assms(2) by (auto simp: endpoint_ok_def ws_insert_find)
  then show ?thesis using assms(1) by (auto simp: services_ok_def service_ok_def)
qed

lemma services_ok_endpoint:
  assumes ok: "services_ok ws st" and inv: "ss_inv st" and ep: "endpoint_ok ws host (ep_workload_uid ep) ep"
  shows "services_ok ws (insert_endpoint st host ep)"
proof (rule services_okI)
  fix h svc assume "get_by_namespaced_host (insert_endpoint st host ep) h = Some svc"
  then obtain old where old: "get_by_namespaced_host st h = Some old"
      and "svc = old \<or> svc = old\<lparr>sv_endpoints := hm_insert (ep_workload_uid ep) ep (sv_endpoints old)\<rparr>"
    by (auto simp: insert_endpoint_view [OF inv] split: if_splits)
  with services_okD(1) [OF ok old] show "hm_wf (sv_endpoints svc)" by (auto simp: hm.wf_ins)
next
  fix h svc u e
  assume "get_by_namespaced_host (insert_endpoint st host ep) h = Some svc" "hm_get (sv_endpoints svc) u = Some e"
  then show "endpoint_ok ws h u e \<and> should_include_endpoint svc (ep_status e)"
    using services_okD(2) [OF ok] ep by (auto simp: insert_endpoint_view [OF inv] split: if_splits)
next
  fix h u e assume "hm_get (staged_at (insert_endpoint st host ep) h) u = Some e"
  then show "endpoint_ok ws h u e"
    using services_okD(3) [OF ok] ep by (auto simp: insert_endpoint_staged split: if_splits)
qed

text \<open>Adding endpoints to a service one by one, as both loops do.\<close>

lemma add_endpoints_lookup:
  assumes "hm_wf (sv_endpoints s)"
  shows "hm_wf (sv_endpoints (add_endpoints eps s)) \<and>
    (hm_get (sv_endpoints (add_endpoints eps s)) u = Some e \<longrightarrow>
       hm_get (sv_endpoints s) u = Some e \<or> (u, e) \<in> set eps \<and> should_include_endpoint s (ep_status e))"
  using assms
proof (induction eps rule: rev_induct)
  case (snoc x xs)
  obtain uid ep where x: "x = (uid, ep)" by fastforce
  show ?case using snoc by (auto simp: x add_endpoints_snoc split: if_splits)
qed simp

lemma should_include_add [simp]: "should_include_endpoint (add_endpoints eps s) = should_include_endpoint s"
  by (simp add: should_include_endpoint_def fun_eq_iff)

lemma carry_endpoints_add:
  "carry_endpoints prev s = add_endpoints (map (\<lambda>ep. (ep_workload_uid ep, ep)) (hm_values (sv_endpoints prev))) s"
  by (simp add: carry_endpoints_def add_endpoints_def fold_map comp_def)

lemma services_ok_insert:
  assumes ok: "services_ok ws st" and inv: "ss_inv st" and s: "service_ok ws (namespaced_hostname s) s"
  shows "services_ok ws (ss_insert st s)"
proof (rule services_okI)
  note add = add_endpoints_lookup [of s]
  have wf: "hm_wf (staged_at st h)" for h
    using ss_inv_staged [OF inv, of h] by (auto simp: staged_at_def split: option.splits)
  fix h svc assume svc: "get_by_namespaced_host (ss_insert st s) h = Some svc"
  then show "hm_wf (sv_endpoints svc)"
    using services_okD(1) [OF ok] s add by (auto simp: ss_insert_view [OF inv] service_ok_def split: if_splits)
  fix u e assume e: "hm_get (sv_endpoints svc) u = Some e"
  show "endpoint_ok ws h u e \<and> should_include_endpoint svc (ep_status e)"
  proof (cases "h = namespaced_hostname s")
    case True
    then have "svc = add_endpoints (staged_at st h) s" using svc by (simp add: ss_insert_view [OF inv])
    with True e s add [of "staged_at st h" u e] services_okD(3) [OF ok, of h u e] show ?thesis
      by (auto simp: service_ok_def hm.entries_get [OF wf])
  next
    case False
    with svc e services_okD(2) [OF ok, of h svc u e] show ?thesis by (simp add: ss_insert_view [OF inv])
  qed
next
  fix h u e assume "hm_get (staged_at (ss_insert st s) h) u = Some e"
  then show "endpoint_ok ws h u e"
    using services_okD(3) [OF ok] by (auto simp: ss_insert_staged [OF inv] split: if_splits)
qed

lemma services_ok_remove:
  assumes ok: "services_ok ws st" and inv: "ss_inv st"
  shows "services_ok ws (fst (ss_remove st host))"
proof (cases "get_by_namespaced_host st host")
  case None
  with ok show ?thesis by (simp add: ss_remove_absent)
next
  case (Some prev)
  note r = ss_remove_present [OF inv Some]
  show ?thesis
  proof (rule services_okI)
    fix h u e assume "hm_get (staged_at (fst (ss_remove st host)) h) u = Some e"
    then have "hm_get (staged_at st h) u = Some e"
      by (auto simp: staged_at_def r(3) split: option.splits if_splits)
    then show "endpoint_ok ws h u e" using services_okD(3) [OF ok] by blast
  qed (use services_okD(1,2) [OF ok] in \<open>auto simp: r(1) split: if_splits\<close>)
qed

subsection \<open>The operations keep the invariant\<close>

lemma px_inv_new: "px_inv (px_new n)"
  by (auto simp: px_inv_def px_new_def services_ok_def staged_at_def ss_default_def get_by_namespaced_host_def
      intro: ws_inv_new sbs_inv_default ss_inv_default [unfolded ss_default_def])

lemma px_inv_notify [simp]: "px_inv (notify_policies s) = px_inv s"
  by (simp add: px_inv_def notify_policies_def)

lemma ws_remove_None: "ws_find_uid ws uid = None \<Longrightarrow> ws_remove ws uid = (ws, None)"
  by (simp add: ws_remove_def ws_find_uid_def)

lemma ws_remove_Some: "ws_find_uid ws uid = Some prev \<Longrightarrow> ws_remove ws uid = (fst (ws_remove ws uid), Some prev)"
  by (simp add: ws_remove_def ws_find_uid_def)

lemma px_inv_remove_service:
  assumes "px_inv s"
  shows "px_inv (remove_service_by_name s name)"
  using assms
  by (auto simp: remove_service_by_name_def px_inv_def ss_inv_remove services_ok_remove split: sum.splits)

lemma remove_internal_Some:
  assumes "ws_find_uid (px_workloads s) uid = Some prev"
  shows "fst (remove_internal uid b (s, certs)) =
    (let s1 = s\<lparr>px_workloads := fst (ws_remove (px_workloads s) uid),
        px_services := remove_endpoint (px_services s) prev\<rparr>
     in if b then s1 else notify_policies s1)"
proof -
  obtain ws' where "ws_remove (px_workloads s) uid = (ws', Some prev)"
    using ws_remove_Some [OF assms] by blast
  then show ?thesis by (simp add: remove_internal_def Let_def)
qed

lemma remove_internal_None:
  "ws_find_uid (px_workloads s) uid = None \<Longrightarrow>
     remove_internal uid b (s, certs) = (if b then (s, certs) else (remove_service_by_name s uid, certs))"
  by (simp add: remove_internal_def ws_remove_None)

lemma px_inv_remove_internal:
  assumes "px_inv s"
  shows "px_inv (fst (remove_internal uid b (s, certs)))"
proof (cases "ws_find_uid (px_workloads s) uid")
  case None
  with assms show ?thesis by (simp add: remove_internal_None px_inv_remove_service)
next
  case (Some prev)
  have "px_inv (s\<lparr>px_workloads := fst (ws_remove (px_workloads s) uid),
      px_services := remove_endpoint (px_services s) prev\<rparr>)"
    using assms services_ok_detach [OF _ _ _ Some]
    by (simp add: px_inv_def ws_inv_remove remove_endpoint_view(1))
  then show ?thesis by (simp add: remove_internal_Some [OF Some] Let_def)
qed

lemma remove_internal_uid:
  "ws_find_uid (px_workloads (fst (remove_internal uid True (s, certs)))) uid = None"
proof (cases "ws_find_uid (px_workloads s) uid")
  case (Some prev)
  then show ?thesis
    by (simp add: remove_internal_Some [OF Some] ws_find_uid_def ws_remove_by_uid)
qed (simp add: remove_internal_None)

lemma service_key_from_str:
  "service_key k = map_err NamespacedHostnameParse (NamespacedHostname_from_str k)"
  by (simp add: service_key_def NamespacedHostname_from_str_def split: option.splits)

lemma Workload_try_from_services:
  assumes "Workload_try_from N C r = Inr (w, svcs)"
  shows "traverse service_key (hm_keys svcs) = Inr (wl_services w)"
  using assms by (auto simp: Workload_try_from_def and_then_Ok Let_def)

lemma insert_service_endpoints_ok:
  assumes "traverse service_key (hm_keys svcs) = Inr hosts" "set hosts \<subseteq> set (wl_services w)"
    and "ws_find_uid ws (wl_uid w) = Some w" "services_ok ws st" "ss_inv st"
  shows "\<exists>st'. insert_service_endpoints w svcs st = Inr st' \<and> services_ok ws st' \<and> ss_inv st'"
  using assms
proof (induction svcs arbitrary: hosts st)
  case (Cons kv svcs)
  obtain k ports where kv: "kv = (k, ports)" by fastforce
  from Cons.prems(1) obtain host hosts' where host: "service_key k = Inr host"
      and rest: "traverse service_key (hm_keys svcs) = Inr hosts'" "hosts = host # hosts'"
    by (auto simp: kv hm_keys_def split: sum.splits)
  let ?ep = "\<lparr>ep_workload_uid = wl_uid w, ep_port = port_map ports, ep_status = wl_status w\<rparr>"
  have "endpoint_ok ws host (wl_uid w) ?ep"
    using Cons.prems(2,3) rest(2) by (simp add: endpoint_ok_def)
  then have "services_ok ws (insert_endpoint st host ?ep)"
    using services_ok_endpoint [OF Cons.prems(4,5), of host ?ep] by simp
  moreover have "ss_inv (insert_endpoint st host ?ep)"
    using Cons.prems(5) by (rule ss_inv_insert_endpoint)
  ultimately show ?case
    using Cons.IH [OF rest(1) _ Cons.prems(3)] Cons.prems(2) rest(2) host
    by (auto simp: kv service_key_from_str [symmetric])
qed simp

lemma insert_workload_Ok:
  assumes inv: "px_inv (fst u)" and w: "Workload_try_from N C r = Inr (w, svcs)"
  obtains services' where "insert_workload N C r u = Inr (workload_stored w services' u)"
    "px_inv (fst (workload_stored w services' u))"
proof -
  obtain s certs where u: "u = (s, certs)" by fastforce
  obtain s1 certs1 where r: "remove_internal (wl_uid w) True (s, certs) = (s1, certs1)" by fastforce
  have s1: "px_inv s1" "ws_find_uid (px_workloads s1) (wl_uid w) = None"
    using px_inv_remove_internal [of s "wl_uid w" True certs] remove_internal_uid [of "wl_uid w" s certs] inv
    by (simp_all add: r u)
  then have "services_ok (ws_insert (px_workloads s1) w) (px_services s1)" "ss_inv (px_services s1)"
    by (simp_all add: px_inv_def services_ok_new_workload)
  with insert_service_endpoints_ok [OF Workload_try_from_services [OF w] subset_refl,
      of "ws_insert (px_workloads s1) w" "px_services s1"]
  obtain services' where services': "insert_service_endpoints w svcs (px_services s1) = Inr services'"
      "services_ok (ws_insert (px_workloads s1) w) services'" "ss_inv services'"
    by (auto simp: ws_insert_find)
  show ?thesis
  proof (rule that)
    show "insert_workload N C r u = Inr (workload_stored w services' u)"
      by (simp add: insert_workload_def workload_stored_def workload_refs_changed_def w r u services'(1) Let_def)
    have "px_inv (s1\<lparr>px_workloads := ws_insert (px_workloads s1) w, px_services := services'\<rparr>)"
      using s1(1) services'(2,3) by (simp add: px_inv_def ws_inv_insert)
    then show "px_inv (fst (workload_stored w services' u))"
      by (simp add: workload_stored_def r u Let_def)
  qed
qed

lemma insert_workload_accepts: "px_inv (fst u) \<Longrightarrow> is_ok (insert_workload N C r u) = is_ok (Workload_try_from N C r)"
proof (cases "Workload_try_from N C r")
  case (Inr p)
  moreover assume "px_inv (fst u)"
  ultimately show ?thesis
    using insert_workload_Ok [of u N C r "fst p" "snd p"] by (metis is_ok_simps(1) prod.collapse)
qed (simp add: insert_workload_def)

lemma insert_service_Ok:
  assumes "insert_service x (s, certs) = Inr u"
  obtains svc where "Service_try_from x = Inr svc"
    "u = (s\<lparr>px_services := ss_insert (px_services s)
        (case get_by_namespaced_host (px_services s) (namespaced_hostname svc) of
           None \<Rightarrow> svc | Some prev \<Rightarrow> carry_endpoints prev svc)\<rparr>, certs)"
  using assms by (auto simp: insert_service_def and_then_Ok Let_def)

lemma Service_try_from_fresh: "Service_try_from x = Inr svc \<Longrightarrow> sv_endpoints svc = []"
  by (auto simp: Service_try_from_def and_then_Ok Let_def)

lemma service_ok_carry:
  assumes "services_ok ws st" "get_by_namespaced_host st host = Some prev" "sv_endpoints svc = []"
  shows "service_ok ws host (carry_endpoints prev svc)"
proof -
  have wf: "hm_wf (sv_endpoints prev)" and
    ep: "hm_get (sv_endpoints prev) uid = Some e \<Longrightarrow> endpoint_ok ws host uid e" for uid e
    using services_okD [OF assms(1)] assms(2) by blast+
  have "endpoint_ok ws host (ep_workload_uid e) e" if "e \<in> set (hm_values (sv_endpoints prev))" for e
    using that ep by (auto simp: hm_values_get [OF wf] endpoint_ok_def)
  then show ?thesis
    using add_endpoints_lookup [of svc "map (\<lambda>ep. (ep_workload_uid ep, ep)) (hm_values (sv_endpoints prev))"] assms(3)
    by (fastforce simp: service_ok_def carry_endpoints_add)
qed

lemma px_inv_insert_service:
  assumes inv: "px_inv s" and ok: "insert_service x (s, certs) = Inr u"
  shows "px_inv (fst u)"
  using ok
proof (rule insert_service_Ok)
  fix svc assume svc: "Service_try_from x = Inr svc"
    and u: "u = (s\<lparr>px_services := ss_insert (px_services s)
        (case get_by_namespaced_host (px_services s) (namespaced_hostname svc) of
           None \<Rightarrow> svc | Some prev \<Rightarrow> carry_endpoints prev svc)\<rparr>, certs)"
  note fresh = Service_try_from_fresh [OF svc]
  have "service_ok (px_workloads s) (namespaced_hostname svc)
      (case get_by_namespaced_host (px_services s) (namespaced_hostname svc) of
         None \<Rightarrow> svc | Some prev \<Rightarrow> carry_endpoints prev svc)"
    using inv fresh service_ok_carry [OF _ _ fresh]
    by (auto simp: px_inv_def service_ok_def split: option.splits)
  then show ?thesis
    using inv by (auto simp: u px_inv_def carry_endpoints_add intro!: ss_inv_insert services_ok_insert split: option.splits)
qed

subsection \<open>The handlers as batches\<close>

lemma address_keeps:
  assumes "px_inv (fst u)" "handle_one_address N C x u = Inr u'"
  shows "px_inv (fst u')"
proof (cases x)
  case (Update name a)
  show ?thesis
  proof (cases a)
    case (XaWorkload r)
    with Update assms(2) have ok: "insert_workload N C r u = Inr u'" by (simp add: insert_address_def)
    then obtain w svcs where w: "Workload_try_from N C r = Inr (w, svcs)"
      by (cases "Workload_try_from N C r") (auto simp: insert_workload_def)
    from insert_workload_Ok [OF assms(1) w] ok show ?thesis by (metis Inr_inject)
  next
    case (XaService x)
    with Update assms show ?thesis
      using px_inv_insert_service [of "fst u" x "snd u" u'] by (simp add: insert_address_def)
  qed (use Update assms(2) in \<open>simp add: insert_address_def\<close>)
next
  case (Remove name)
  with assms show ?thesis
    using px_inv_remove_internal [of "fst u" name False "snd u"] by (simp add: updater_remove_def)
qed

interpretation addresses: batch "handle_one_address N C" "\<lambda>u. px_inv (fst u)" "address_update_valid N C"
proof unfold_locales
  fix u :: updater and x assume "px_inv (fst u)"
  then show "is_ok (handle_one_address N C x u) = address_update_valid N C x"
    by (cases "(N, C, x)" rule: address_update_valid.cases)
      (auto simp: insert_address_def insert_workload_accepts Workload_accepts insert_service_def Let_def)
qed (rule address_keeps)

lemma handle_one_workload_address:
  "handle_one_workload N C x = handle_one_address N C (case x of Update n w \<Rightarrow> Update n (XaWorkload w) | Remove n \<Rightarrow> Remove n)"
  by (cases x) (simp_all add: insert_address_def fun_eq_iff)

interpretation workloads: batch "handle_one_workload N C" "\<lambda>u. px_inv (fst u)" "workload_update_valid N C"
proof unfold_locales
  fix u :: updater and x assume "px_inv (fst u)"
  then show "is_ok (handle_one_workload N C x u) = workload_update_valid N C x"
    by (cases x) (auto simp: insert_workload_accepts Workload_accepts)
qed (auto simp: handle_one_workload_address intro: address_keeps)

lemma sbs_inv_pair:
  "sbs_inv s \<Longrightarrow> sbs_insert s sb = (s', c) \<Longrightarrow> sbs_inv s'"
  "sbs_inv s \<Longrightarrow> sbs_remove s k = (s', c) \<Longrightarrow> sbs_inv s'"
  using sbs_inv_insert [of s sb] sbs_inv_remove [of s k] by simp_all

interpretation sandboxes: batch "handle_one_sandbox N" "\<lambda>p. sbs_inv (fst p)" "sandbox_update_valid N"
proof unfold_locales
  fix p x p' assume "sbs_inv (fst p)" "handle_one_sandbox N x p = Inr p'"
  then show "sbs_inv (fst p')"
    by (cases p; cases x)
      (auto simp: sbs_update_def and_then_Ok Let_def dest: sbs_inv_pair split: if_splits prod.splits)
next
  fix p x show "is_ok (handle_one_sandbox N x p) = sandbox_update_valid N x"
    by (cases p; cases x) (auto simp: sbs_update_def sbs_admit_def case_prod_unfold Let_def)
qed

interpretation policies: batch "handle_one_policy N" "\<lambda>_. True" "policy_update_valid N"
proof unfold_locales
  fix p x show "is_ok (handle_one_policy N x p) = policy_update_valid N x"
    by (cases p; cases x) (auto simp: policy_update_def policy_insert_def policy_admit_def case_prod_unfold Let_def split: sum.splits)
qed simp

lemmas batch_defs = handle_workloads_def handle_addresses_def handle_sandboxes_def handle_policies_def handle_single_resource_def
  case_prod_unfold Let_def

lemma xds_apply_inv:
  assumes "px_inv (fst u)"
  shows "px_inv (fst (fst (xds_apply N C r u)))"
proof (cases r)
  case (Workloads us)
  then show ?thesis using workloads.batch_inv [OF assms] by (simp add: batch_defs)
next
  case (Addresses us)
  then show ?thesis using addresses.batch_inv [OF assms] by (simp add: batch_defs)
next
  case (Sandboxes us)
  have "sbs_inv (px_sandboxes (fst u))" using assms by (simp add: px_inv_def)
  then show ?thesis
    using sandboxes.batch_inv [of "(px_sandboxes (fst u), False)" N update_name us] assms Sandboxes
    by (cases u) (simp add: batch_defs px_inv_def notify_policies_def)
next
  case (Policies us)
  with assms show ?thesis by (cases u) (simp add: batch_defs px_inv_def notify_policies_def)
qed

lemma xds_run_inv: "px_inv (fst (xds_run N C node rs))"
proof (induction rs rule: rev_induct)
  case (snoc r rs)
  then show ?case using xds_apply_inv by (simp add: xds_run_def)
qed (simp add: xds_run_def px_inv_new)

lemma xds_apply_exact:
  assumes "px_inv (fst u)"
  shows "xds_apply N C (accepted_part N C r) u = (fst (xds_apply N C r u), Ok ()) \<and>
    (case snd (xds_apply N C r u) of Inr _ \<Rightarrow> [] | Inl rejects \<Rightarrow> map fst rejects) = rejected_names N C r \<and>
    (is_ok (snd (xds_apply N C r u)) \<longleftrightarrow> accepted_part N C r = r)"
proof -
  have none: "filter (\<lambda>x. \<not> P x) xs = [] \<longleftrightarrow> filter P xs = xs" for P and xs :: "'x list"
    by (auto simp: filter_id_conv filter_empty_conv)
  show ?thesis
  proof (cases r)
    case (Workloads us)
    then show ?thesis using workloads.batch_exact [OF assms, of N C update_name us] by (simp add: handle_workloads_def none)
  next
    case (Addresses us)
    then show ?thesis using addresses.batch_exact [OF assms, of N C update_name us] by (simp add: handle_addresses_def none)
  next
    case (Sandboxes us)
    have "sbs_inv (fst (px_sandboxes (fst u), False))" using assms by (simp add: px_inv_def)
    note b = sandboxes.batch_exact [OF this, of N update_name us]
    show ?thesis using b Sandboxes by (cases u) (simp add: handle_sandboxes_def case_prod_unfold Let_def none)
  next
    case (Policies us)
    note b = policies.batch_exact [OF TrueI, of N update_name us "(px_policies (fst u), False)"]
    show ?thesis using b Policies by (cases u) (simp add: handle_policies_def case_prod_unfold Let_def none)
  qed
qed

subsection \<open>Upstreams\<close>

lemma lb_best_usable: "lb_best s src svc port \<subseteq> lb_usable s svc port"
  by (auto simp: lb_best_def Let_def split: option.splits if_splits)

lemma load_balance_sound:
  assumes inv: "px_inv s" and R: "rand_sound R"
    and svc: "get_by_namespaced_host (px_services s) (namespaced_hostname svc) = Some svc"
    and c: "load_balance R s src svc port = Some (ep, w)"
  shows "ws_find_uid (px_workloads s) (wl_uid w) = Some w" "namespaced_hostname svc \<in> set (wl_services w)"
    "should_include_endpoint svc (wl_status w)" "0 < wl_capacity w"
proof -
  have ok: "services_ok (px_workloads s) (px_services s)" and ws: "ws_inv (px_workloads s)"
    using inv by (simp_all add: px_inv_def)
  have "(ep, w) \<in> lb_usable s svc port" and cap: "0 < wl_capacity w"
    using load_balance_choice [OF R, of s src svc port] c lb_best_usable [of s src svc port] by auto
  then have w: "ws_find_uid (px_workloads s) (ep_workload_uid ep) = Some w"
    and "\<exists>uid. hm_get (sv_endpoints svc) uid = Some ep"
    by (auto simp: lb_usable_def hm_values_get [OF services_okD(1) [OF ok svc]])
  then obtain uid where "endpoint_ok (px_workloads s) (namespaced_hostname svc) uid ep"
      "should_include_endpoint svc (ep_status ep)"
    using services_okD(2) [OF ok svc, of _ ep] by blast
  with w show "namespaced_hostname svc \<in> set (wl_services w)" "should_include_endpoint svc (wl_status w)"
    by (auto simp: endpoint_ok_def)
  show "ws_find_uid (px_workloads s) (wl_uid w) = Some w"
    using w ws by (auto simp: ws_inv_def ws_find_uid_def)
  show "0 < wl_capacity w" by (fact cap)
qed

lemma find_upstream_sound:
  assumes inv: "px_inv s" and R: "rand_sound R" and up: "find_upstream R s network src addr = Some (UpstreamParts w port svc)"
  shows "ws_find_uid (px_workloads s) (wl_uid w) = Some w \<and>
    (case svc of
       None \<Rightarrow> network_addr network (sock_ip addr) \<in> set (wl_addrs w) \<and> port = sock_port addr
     | Some v \<Rightarrow>
         network_addr network (sock_ip addr) \<in> set (sv_vips v) \<and>
         get_by_namespaced_host (px_services s) (namespaced_hostname v) = Some v \<and>
         namespaced_hostname v \<in> set (wl_services w) \<and>
         should_include_endpoint v (wl_status w) \<and> 0 < wl_capacity w)"
proof (cases "get_by_vip (px_services s) (network_addr network (sock_ip addr))")
  case None
  with up have "ws_find_address (px_workloads s) (network_addr network (sock_ip addr)) = Some w"
      "port = sock_port addr" "svc = None"
    by (auto simp: find_upstream_def split: option.splits)
  then show ?thesis
    using ws_find_address_iff [of "px_workloads s" "network_addr network (sock_ip addr)"] inv
    by (simp add: px_inv_def)
next
  case (Some v)
  with up have up': "find_upstream_from_service R s src (sock_port addr) v = Some (UpstreamParts w port svc)"
    by (simp add: find_upstream_def split: if_splits)
  then obtain ep where c: "load_balance R s src v (sock_port addr) = Some (ep, w)" "svc = Some v"
    by (auto simp: find_upstream_from_service_def Let_def split: option.splits if_splits prod.splits)
  have "network_addr network (sock_ip addr) \<in> set (sv_vips v)"
      "get_by_namespaced_host (px_services s) (namespaced_hostname v) = Some v"
    using inv Some by (auto simp: px_inv_def ss_inv_def)
  then show ?thesis using load_balance_sound [OF inv R _ c(1)] c(2) by simp
qed

subsection \<open>Notifications\<close>

lemma sandboxes_by_workload_view: "sandboxes_by_workload s w = List.map_filter (sbs_get s) (bound_ids s w)"
proof -
  have "hm_get (sbs_resources s) = sbs_get s" by (simp add: sbs_get_def fun_eq_iff)
  then show ?thesis by (simp add: sandboxes_by_workload_def bound_ids_def)
qed

lemma assert_rbac_view:
  assumes view: "auth_view s = auth_view s'" and inv: "ws_inv (px_workloads s)" "ws_inv (px_workloads s')"
  shows "assert_rbac N s ctx = assert_rbac N s' ctx"
proof -
  let ?uid = "wl_uid (rc_workload ctx)"
  have refs: "map_option wl_traffic_policy_refs (ws_find_uid (px_workloads s) ?uid) =
      map_option wl_traffic_policy_refs (ws_find_uid (px_workloads s') ?uid)"
    using view by (auto simp: auth_view_def dest: fun_cong)
  have same: "policy_get (px_policies s) = policy_get (px_policies s')"
      "sbs_get (px_sandboxes s) = sbs_get (px_sandboxes s')" "bound_ids (px_sandboxes s) = bound_ids (px_sandboxes s')"
    using view by (simp_all add: auth_view_def)
  have sel: "select_sandbox s ctx w = select_sandbox s' ctx w'" if "wl_uid w = wl_uid w'" for w w'
    using that same
    by (cases "rc_sandbox ctx")
      (simp_all add: select_sandbox_def fetch_sandbox_def sandboxes_by_workload_view get_for_workload_def)
  show ?thesis
  proof (cases "ws_find_uid (px_workloads s) ?uid")
    case None
    with refs show ?thesis by (simp add: assert_rbac_def)
  next
    case (Some w)
    with refs obtain w' where w': "ws_find_uid (px_workloads s') ?uid = Some w'"
        "wl_traffic_policy_refs w' = wl_traffic_policy_refs w"
      by (cases "ws_find_uid (px_workloads s') ?uid") auto
    have "wl_uid w = ?uid" "wl_uid w' = ?uid"
      using inv Some w'(1) by (auto simp: ws_inv_def ws_find_uid_def)
    then have "select_sandbox s ctx w = select_sandbox s' ctx w'" by (intro sel) simp
    moreover have "traffic_policies w (px_policies s) = traffic_policies w' (px_policies s')"
      using w'(2) same(1) by (cases "wl_traffic_policy_refs w") (simp_all add: traffic_policies_def)
    ultimately show ?thesis using Some w'(1) by (simp add: assert_rbac_def)
  qed
qed

lemma auth_step_refl [simp]: "auth_step s s"
  by (simp add: auth_step_def)

lemma auth_step_trans: "auth_step s t \<Longrightarrow> auth_step t u \<Longrightarrow> auth_step s u"
  by (auto simp: auth_step_def)

lemma auth_step_notify: "notified s = notified t \<Longrightarrow> auth_step s (notify_policies t)"
  by (simp add: auth_step_def notified_def notify_policies_def policy_send_def)

lemma auth_step_services [simp]: "auth_step s (s\<lparr>px_services := x\<rparr>)"
  by (simp add: auth_step_def notified_def auth_view_def)

lemma notified_updates [simp]:
  "notified (s\<lparr>px_workloads := w\<rparr>) = notified s" "notified (s\<lparr>px_services := v\<rparr>) = notified s"
  "notified (s\<lparr>px_sandboxes := b\<rparr>) = notified s"
  by (simp_all add: notified_def)

lemma remove_service_auth: "auth_step s (remove_service_by_name s name)"
  by (simp add: remove_service_by_name_def split: sum.splits)

lemma remove_internal_auth: "auth_step s (fst (remove_internal name False (s, certs)))"
proof (cases "ws_find_uid (px_workloads s) name")
  case None
  then show ?thesis by (simp add: remove_internal_None remove_service_auth)
next
  case (Some prev)
  then show ?thesis by (simp add: remove_internal_Some Let_def auth_step_notify)
qed

lemma remove_internal_for_insert:
  "remove_internal uid True (s, certs) =
     (s\<lparr>px_workloads := fst (ws_remove (px_workloads s) uid),
        px_services := (case ws_find_uid (px_workloads s) uid of
          None \<Rightarrow> px_services s | Some prev \<Rightarrow> remove_endpoint (px_services s) prev)\<rparr>, certs)"
proof (cases "ws_find_uid (px_workloads s) uid")
  case (Some prev)
  then obtain ws' where "ws_remove (px_workloads s) uid = (ws', Some prev)" using ws_remove_Some by metis
  with Some show ?thesis by (simp add: remove_internal_def Let_def)
qed (simp add: remove_internal_None ws_remove_None)

lemma workload_stored_auth:
  "auth_step s (fst (workload_stored w services' (s, certs)))"
proof (cases "workload_refs_changed s w")
  case True
  then show ?thesis
    by (simp add: workload_stored_def remove_internal_for_insert auth_step_notify)
next
  case False
  then obtain old where "ws_find_uid (px_workloads s) (wl_uid w) = Some old"
      "wl_traffic_policy_refs old = wl_traffic_policy_refs w"
    by (auto simp: workload_refs_changed_def split: option.splits)
  moreover have "ws_find_uid (fst (ws_remove (px_workloads s) (wl_uid w))) u =
      (if u = wl_uid w then None else ws_find_uid (px_workloads s) u)" for u
    by (simp add: ws_find_uid_def ws_remove_by_uid)
  ultimately show ?thesis
    using False
    by (auto simp: workload_stored_def remove_internal_for_insert auth_step_def auth_view_def fun_eq_iff ws_insert_find)
qed

lemma address_auth:
  assumes "px_inv (fst u)" "handle_one_address N C x u = Inr u'"
  shows "auth_step (fst u) (fst u')"
proof (cases x)
  case (Update name a)
  show ?thesis
  proof (cases a)
    case (XaWorkload r)
    with Update assms(2) have ok: "insert_workload N C r u = Inr u'" by (simp add: insert_address_def)
    then obtain w svcs where w: "Workload_try_from N C r = Inr (w, svcs)"
      by (cases "Workload_try_from N C r") (auto simp: insert_workload_def)
    from insert_workload_Ok [OF assms(1) w] obtain services' where "u' = workload_stored w services' u"
      using ok by (metis Inr_inject)
    then show ?thesis using workload_stored_auth [of "fst u" w services' "snd u"] by simp
  next
    case (XaService x)
    with Update assms show ?thesis
      by (cases u) (auto simp: insert_address_def elim: insert_service_Ok)
  qed (use Update assms(2) in \<open>simp add: insert_address_def\<close>)
next
  case (Remove name)
  with assms show ?thesis
    using remove_internal_auth [of "fst u" name "snd u"] by (simp add: updater_remove_def)
qed

lemma sandbox_unchanged:
  assumes "sbs_inv (fst p)" "handle_one_sandbox N x p = Inr p'"
  shows "\<not> snd p' \<longrightarrow> \<not> snd p \<and> sbs_get (fst p') = sbs_get (fst p) \<and> bound_ids (fst p') = bound_ids (fst p)"
proof (cases x)
  case (Update name r)
  with assms(2) obtain sb where "p' = (fst (sbs_insert (fst p) sb), snd p \<or> snd (sbs_insert (fst p) sb))"
    by (cases p; cases "Sandbox_try_from N r") (auto simp: sbs_update_def case_prod_unfold split: if_splits)
  then show ?thesis
    using assms(1) sbs_insert_changed [OF assms(1), of sb]
    by (auto simp: sbs_insert_get sbs_insert_bound rebind_def fun_eq_iff sbs_inv_def)
next
  case (Remove name)
  with assms(2) have p': "p' = (fst (sbs_remove (fst p) name), snd p \<or> snd (sbs_remove (fst p) name))"
    by (cases p) (auto simp: case_prod_unfold Let_def)
  show ?thesis
    unfolding p' by (auto simp: sbs_remove_def Let_def split: option.splits)
qed

lemma policy_unchanged:
  assumes "handle_one_policy N x p = Inr p'"
  shows "ps_notified (fst p') = ps_notified (fst p) \<and>
    (\<not> snd p' \<longrightarrow> \<not> snd p \<and> policy_get (fst p') = policy_get (fst p))"
proof (cases x)
  case (Update name r)
  with assms show ?thesis
    by (cases p) (auto simp: policy_update_def policy_insert_def and_then_Ok split: sum.splits if_splits)
next
  case (Remove name)
  with assms show ?thesis
    by (cases p) (auto simp: policy_remove_def policy_get_def hm_contains_def fun_eq_iff Let_def)
qed

lemma handle_sandboxes_auth:
  assumes "sbs_inv (px_sandboxes s)"
  shows "auth_step s (fst (handle_sandboxes N us s))"
proof -
  let ?R = "\<lambda>p p'. \<not> snd p' \<longrightarrow> \<not> snd p \<and> sbs_get (fst p') = sbs_get (fst p) \<and> bound_ids (fst p') = bound_ids (fst p)"
  have "?R (px_sandboxes s, False) (fst (handle_each (handle_one_sandbox N) update_name us (px_sandboxes s, False)))"
    by (rule sandboxes.batch_steps [where R = ?R]) (use assms sandbox_unchanged in \<open>auto\<close>)
  then show ?thesis
    by (auto simp: batch_defs auth_step_notify) (simp add: auth_step_def auth_view_def)
qed

lemma handle_policies_auth: "auth_step s (fst (handle_policies N us s))"
proof -
  let ?R = "\<lambda>p p'. ps_notified (fst p') = ps_notified (fst p) \<and>
    (\<not> snd p' \<longrightarrow> \<not> snd p \<and> policy_get (fst p') = policy_get (fst p))"
  have "?R (px_policies s, False) (fst (handle_each (handle_one_policy N) update_name us (px_policies s, False)))"
    by (rule policies.batch_steps [where R = ?R]) (use policy_unchanged in \<open>auto\<close>)
  then show ?thesis
    by (auto simp: batch_defs intro!: auth_step_notify) (simp_all add: notified_def auth_step_def auth_view_def)
qed

lemma xds_apply_auth:
  assumes "px_inv (fst u)"
  shows "auth_step (fst u) (fst (fst (xds_apply N C r u)))"
proof (cases r)
  case (Workloads us)
  have "auth_step (fst u) (fst (fst (handle_each (handle_one_workload N C) update_name us u)))"
    by (rule workloads.batch_steps [where R = "\<lambda>u u'. auth_step (fst u) (fst u')"])
      (use assms address_auth in \<open>auto simp: handle_one_workload_address intro: auth_step_trans\<close>)
  then show ?thesis using Workloads by (simp add: batch_defs)
next
  case (Addresses us)
  have "auth_step (fst u) (fst (fst (handle_each (handle_one_address N C) update_name us u)))"
    by (rule addresses.batch_steps [where R = "\<lambda>u u'. auth_step (fst u) (fst u')"])
      (use assms address_auth in \<open>auto intro: auth_step_trans\<close>)
  then show ?thesis using Addresses by (simp add: batch_defs)
next
  case (Sandboxes us)
  with assms handle_sandboxes_auth [of "fst u" N us] show ?thesis
    by (cases u) (simp add: px_inv_def case_prod_unfold Let_def)
next
  case (Policies us)
  with handle_policies_auth [of "fst u" N us] show ?thesis
    by (cases u) (simp add: case_prod_unfold Let_def)
qed

subsection \<open>Certificates\<close>

lemma updater_remove_certs:
  assumes "px_inv s"
  shows "snd (updater_remove name (s, certs)) =
    certs @ (case ws_find_uid (px_workloads s) name of
       None \<Rightarrow> []
     | Some w \<Rightarrow>
         (if ws_is_local (px_workloads s) (wl_node w) \<and>
             \<not> (\<exists>v. ws_find_uid (px_workloads s) (wl_uid v) = Some v \<and> wl_uid v \<noteq> name \<and>
                   ws_is_local (px_workloads s) (wl_node v) \<and> wl_namespace v = wl_namespace w \<and>
                   wl_service_account v = wl_service_account w)
          then [ClearCert (wl_identity w)] else []))"
proof (cases "ws_find_uid (px_workloads s) name")
  case None
  then show ?thesis by (simp add: updater_remove_def remove_internal_None)
next
  case (Some w)
  obtain ws where r: "ws_remove (px_workloads s) name = (ws, Some w)" using ws_remove_Some [OF Some] by blast
  then have ws: "ws = fst (ws_remove (px_workloads s) name)" by simp
  have inv: "ws_inv ws" using assms by (simp add: ws px_inv_def ws_inv_remove)
  have loc: "ws_is_local ws n = ws_is_local (px_workloads s) n" for n
    by (simp add: ws ws_is_local_def ws_remove_def split: option.splits)
  have find: "ws_find_uid ws u = (if u = name then None else ws_find_uid (px_workloads s) u)" for u
    by (simp add: ws ws_find_uid_def ws_remove_by_uid)
  have "snd (updater_remove name (s, certs)) =
      certs @ (if was_last_identity_on_node ws (wl_node w) (wl_identity w) then [ClearCert (wl_identity w)] else [])"
    by (simp add: updater_remove_def remove_internal_def r Let_def)
  moreover have "id_namespace (wl_identity w) = wl_namespace w" "id_service_account (wl_identity w) = wl_service_account w"
    by (simp_all add: wl_identity_def)
  ultimately show ?thesis
    using Some by (auto simp: was_last_identity_iff [OF inv] loc find)
qed

section \<open>Properties\<close>

text \<open>
  C16. The state the proxy works from is consistent after any sequence of xDS responses, valid or not:
  the indexes of the three stores are what their contents imply, and every endpoint, attached to a
  service or waiting for it, belongs to a stored workload that lists the service and has the endpoint's
  health status, and attached endpoints are admitted by the health policy of their service.
\<close>

theorem xds_state_inv: "px_inv (fst (xds_run N C node rs))"
  by (rule xds_run_inv)


text \<open>
  C18. No silent change of authorization. If handling a response of any type changes the decision, or
  the reported reason, for any connection, then the channel that makes the proxy re-examine open
  connections is notified.
\<close>

theorem authorization_change_notified:
  fixes N C node rs
  defines "u \<equiv> xds_run N C node rs"
  shows "assert_rbac N (fst (fst (xds_apply N C r u))) ctx = assert_rbac N (fst u) ctx \<or>
    ps_notified (px_policies (fst u)) < ps_notified (px_policies (fst (fst (xds_apply N C r u))))"
proof -
  have inv: "px_inv (fst u)" "px_inv (fst (fst (xds_apply N C r u)))"
    unfolding u_def by (intro xds_apply_inv xds_run_inv)+
  with xds_apply_auth [OF inv(1), of N C r] show ?thesis
    using assert_rbac_view [of "fst u" "fst (fst (xds_apply N C r u))" N ctx]
    by (auto simp: auth_step_def notified_def px_inv_def)
qed

text \<open>
  C19. Upstreams are sound. In any reachable state, with a random source that keeps its documentation,
  the upstream found for an address is a stored workload; found by its own address it has that address
  and keeps the port; found through a service the address is a current VIP of that service, and the
  workload lists the service, is admitted by its health policy and has capacity.
\<close>

theorem upstream_sound:
  fixes N C node rs
  assumes R: "rand_sound R"
    and up: "find_upstream R (fst (xds_run N C node rs)) network src addr = Some (UpstreamParts w port svc)"
  defines "s \<equiv> fst (xds_run N C node rs)"
  shows "ws_find_uid (px_workloads s) (wl_uid w) = Some w \<and>
    (case svc of
       None \<Rightarrow> network_addr network (sock_ip addr) \<in> set (wl_addrs w) \<and> port = sock_port addr
     | Some v \<Rightarrow>
         network_addr network (sock_ip addr) \<in> set (sv_vips v) \<and>
         get_by_namespaced_host (px_services s) (namespaced_hostname v) = Some v \<and>
         namespaced_hostname v \<in> set (wl_services w) \<and>
         should_include_endpoint v (wl_status w) \<and> 0 < wl_capacity w)"
  unfolding s_def by (rule find_upstream_sound [OF xds_run_inv R up])

theorem upstream_sound_witness:
  "\<exists>w v. rand_sound first_choice \<and>
     find_upstream first_choice (fst example_run) '''' example_workload (socket_addr (V4 0x0A600001) 80) =
       Some (UpstreamParts w 8080 (Some v)) \<and>
     network_addr '''' (V4 0x0A600001) \<in> set (sv_vips v) \<and> namespaced_hostname v \<in> set (wl_services w)"
proof -
  have "case find_upstream first_choice (fst example_run) '''' example_workload (socket_addr (V4 0x0A600001) 80) of
      Some (UpstreamParts w port (Some v)) \<Rightarrow> port = 8080 | _ \<Rightarrow> False"
    by code_simp
  then obtain w v where up: "find_upstream first_choice (fst example_run) '''' example_workload
      (socket_addr (V4 0x0A600001) 80) = Some (UpstreamParts w 8080 (Some v))"
    by (auto split: option.splits UpstreamDestination.splits)
  from up upstream_sound [OF first_choice_sound up [unfolded example_run_def]] first_choice_sound show ?thesis
    by (auto simp: socket_addr_def)
qed

text \<open>
  A certificate is dropped exactly when it is no longer needed: withdrawing a resource asks for the
  certificate of an identity to be cleared if and only if the resource was a stored workload of this
  node and no other stored workload of this node has its namespace and service account.
\<close>

theorem clear_cert_exact:
  fixes N C node rs
  defines "s \<equiv> fst (xds_run N C node rs)"
  shows "snd (updater_remove name (s, certs)) =
    certs @ (case ws_find_uid (px_workloads s) name of
       None \<Rightarrow> []
     | Some w \<Rightarrow>
         (if ws_is_local (px_workloads s) (wl_node w) \<and>
             \<not> (\<exists>v. ws_find_uid (px_workloads s) (wl_uid v) = Some v \<and> wl_uid v \<noteq> name \<and>
                   ws_is_local (px_workloads s) (wl_node v) \<and> wl_namespace v = wl_namespace w \<and>
                   wl_service_account v = wl_service_account w)
          then [ClearCert (wl_identity w)] else []))"
  unfolding s_def by (rule updater_remove_certs [OF xds_run_inv])

end
