(* ===== verification/XdsClient.thy ===== *)
theory XdsClient
  imports Xds
begin

text \<open>
  The delta xDS client, \<^verbatim>\<open>src/xds/client.rs\<close>: decoding a response and passing it to the handler of its
  type, the bookkeeping of known and demanded resources, acknowledgement, readiness, reconnection and
  its backoff, and the configuration \<^verbatim>\<open>src/state.rs\<close> builds. The protobuf decoders, the rendering of
  error values as text and the transport are parameters: the transport appears as the outcome of each
  send and of each connection. A oneshot sender is a number; \<open>xs_woken\<close> records which of them were used
  (\<open>True\<close>) and which were dropped unused (\<open>False\<close>), both of which end the wait on the receiving side.
\<close>

section \<open>Messages and state\<close>

record ResourceKey =
  rk_name :: strng
  rk_type_url :: strng

record ProtoResource =
  pr_name :: string
  pr_resource :: "u8 list option"

record DeltaDiscoveryResponse =
  dr_type_url :: string
  dr_resources :: "ProtoResource list"
  dr_removed_resources :: "string list"
  dr_nonce :: string

record DeltaDiscoveryRequest =
  rq_type_url :: string
  rq_resource_names_subscribe :: "string list"
  rq_resource_names_unsubscribe :: "string list"
  rq_initial_resource_versions :: "(string, string) hashmap"
  rq_response_nonce :: string
  rq_error_detail :: "string option"

definition DeltaDiscoveryRequest_default :: DeltaDiscoveryRequest where
  "DeltaDiscoveryRequest_default = \<lparr>rq_type_url = '''', rq_resource_names_subscribe = [],
     rq_resource_names_unsubscribe = [], rq_initial_resource_versions = [], rq_response_nonce = '''',
     rq_error_detail = None\<rparr>"

datatype AdsError = MissingResource | Decode string

datatype reject_reason = RejectDecode AdsError | RejectHandler xds_error

type_synonym RejectedConfig = "strng \<times> reject_reason"

record XdsState =
  xs_known_resources :: "(strng, strng list) hashmap"
  xs_pending :: "(ResourceKey, nat) hashmap"
  xs_subscriptions :: "(strng, strng list) hashmap"
  xs_woken :: "(nat \<times> bool) list"

definition notify_on_demand :: "ResourceKey \<Rightarrow> XdsState \<Rightarrow> XdsState" where
  "notify_on_demand key st =
     (case hm_get (xs_pending st) key of
        None \<Rightarrow> st
      | Some send \<Rightarrow> st\<lparr>xs_pending := hm_remove key (xs_pending st), xs_woken := xs_woken st @ [(send, True)]\<rparr>)"

definition entry_names :: "(strng, strng list) hashmap \<Rightarrow> strng \<Rightarrow> strng list" where
  "entry_names m type_url = (case hm_get m type_url of None \<Rightarrow> [] | Some names \<Rightarrow> names)"

definition add_resource :: "strng \<Rightarrow> strng \<Rightarrow> XdsState \<Rightarrow> XdsState" where
  "add_resource type_url name st =
     st\<lparr>xs_known_resources :=
       hm_insert type_url (hs_insert name (entry_names (xs_known_resources st) type_url)) (xs_known_resources st)\<rparr>"

definition forget_resource :: "strng \<Rightarrow> strng \<Rightarrow> XdsState \<Rightarrow> XdsState" where
  "forget_resource type_url name st =
     (case hm_get (xs_known_resources st) type_url of
        None \<Rightarrow> st
      | Some rm \<Rightarrow> st\<lparr>xs_known_resources := hm_insert type_url (hs_remove name rm) (xs_known_resources st)\<rparr>)"

section \<open>Handlers\<close>

definition decode_proto ::
  "(u8 list \<Rightarrow> ('t, string) result) \<Rightarrow> ProtoResource \<Rightarrow> ('t XdsUpdate, AdsError) result"
where
  "decode_proto decode resource =
     and_then (and_then (ok_or (pr_resource resource) MissingResource) (\<lambda>v. map_err Decode (decode v)))
       (\<lambda>r. Ok (Update (pr_name resource) r))"

definition decoded_updates ::
  "(u8 list \<Rightarrow> ('t, string) result) \<Rightarrow> DeltaDiscoveryResponse \<Rightarrow> 't XdsUpdate list"
where
  "decoded_updates decode res =
     List.map_filter (\<lambda>raw. case decode_proto decode raw of Inl _ \<Rightarrow> None | Inr u \<Rightarrow> Some u) (dr_resources res) @
     map Remove (dr_removed_resources res)"

definition decode_failures ::
  "(u8 list \<Rightarrow> ('t, string) result) \<Rightarrow> DeltaDiscoveryResponse \<Rightarrow> RejectedConfig list"
where
  "decode_failures decode res =
     List.map_filter (\<lambda>raw. case decode_proto decode raw of
         Inl e \<Rightarrow> Some (pr_name raw, RejectDecode e) | Inr _ \<Rightarrow> None) (dr_resources res)"

text \<open>The bookkeeping after the handler has run: removals first, then the delivered resources.\<close>

definition record_removed :: "strng \<Rightarrow> strng \<Rightarrow> XdsState \<Rightarrow> XdsState" where
  "record_removed type_url name st =
     notify_on_demand \<lparr>rk_name = name, rk_type_url = type_url\<rparr> (forget_resource type_url name st)"

definition record_delivered :: "strng \<Rightarrow> strng \<Rightarrow> XdsState \<Rightarrow> XdsState" where
  "record_delivered type_url name st =
     add_resource type_url name (notify_on_demand \<lparr>rk_name = name, rk_type_url = type_url\<rparr> st)"

definition record_response :: "DeltaDiscoveryResponse \<Rightarrow> XdsState \<Rightarrow> XdsState" where
  "record_response res st =
     fold (record_delivered (dr_type_url res)) (map pr_name (dr_resources res))
       (fold (record_removed (dr_type_url res)) (dr_removed_resources res) st)"

type_synonym 't handler = "'t XdsUpdate list \<Rightarrow> updater \<Rightarrow> updater \<times> (unit, (strng \<times> xds_error) list) result"

type_synonym RawHandler =
  "XdsState \<Rightarrow> DeltaDiscoveryResponse \<Rightarrow> updater \<Rightarrow> XdsState \<times> updater \<times> (unit, RejectedConfig list) result"

definition merge_results ::
  "(unit, RejectedConfig list) result \<Rightarrow> RejectedConfig list \<Rightarrow> (unit, RejectedConfig list) result"
where
  "merge_results r failures =
     (case (r, failures = []) of
        (Inr _, True) \<Rightarrow> Ok ()
      | (Inr _, False) \<Rightarrow> Err failures
      | (Inl rejects, True) \<Rightarrow> Err rejects
      | (Inl rejects, False) \<Rightarrow> Err (rejects @ failures))"

definition HandlerWrapper_handle ::
  "(u8 list \<Rightarrow> ('t, string) result) \<Rightarrow> 't handler \<Rightarrow> RawHandler"
where
  "HandlerWrapper_handle decode h state res u =
     (let (u', result) = h (decoded_updates decode res) u
      in (record_response res state, u',
          merge_results (map_err (map (map_prod (\<lambda>n. n) RejectHandler)) result) (decode_failures decode res)))"

section \<open>Configuration\<close>

record XdsConfig =
  xc_handlers :: "(strng, RawHandler) hashmap"
  xc_initial_requests :: "DeltaDiscoveryRequest list"
  xc_on_demand :: bool
  xc_optional_types :: "strng list"

definition XdsConfig_new :: "bool \<Rightarrow> XdsConfig" where
  "XdsConfig_new on_demand =
     \<lparr>xc_handlers = [], xc_initial_requests = [], xc_on_demand = on_demand, xc_optional_types = []\<rparr>"

definition construct_initial_request :: "XdsConfig \<Rightarrow> strng \<Rightarrow> bool \<Rightarrow> DeltaDiscoveryRequest" where
  "construct_initial_request c request_type no_on_demand =
     (let (sub, unsub) = (if \<not> no_on_demand \<and> xc_on_demand c then ([''*''], [''*'']) else ([], []))
      in DeltaDiscoveryRequest_default\<lparr>rq_type_url := request_type, rq_resource_names_subscribe := sub,
           rq_resource_names_unsubscribe := unsub\<rparr>)"

definition with_handler :: "strng \<Rightarrow> RawHandler \<Rightarrow> XdsConfig \<Rightarrow> XdsConfig" where
  "with_handler type_url h c = c\<lparr>xc_handlers := hm_insert type_url h (xc_handlers c)\<rparr>"

definition watch :: "strng \<Rightarrow> bool \<Rightarrow> XdsConfig \<Rightarrow> XdsConfig" where
  "watch type_url no_on_demand c =
     c\<lparr>xc_initial_requests := xc_initial_requests c @ [construct_initial_request c type_url no_on_demand]\<rparr>"

definition with_watched_handler :: "strng \<Rightarrow> bool \<Rightarrow> RawHandler \<Rightarrow> XdsConfig \<Rightarrow> XdsConfig" where
  "with_watched_handler type_url no_on_demand h c = watch type_url no_on_demand (with_handler type_url h c)"

definition with_on_demand_handler :: "strng \<Rightarrow> RawHandler \<Rightarrow> XdsConfig \<Rightarrow> XdsConfig" where
  "with_on_demand_handler type_url h c =
     (let request = (construct_initial_request c type_url False)
            \<lparr>rq_resource_names_subscribe := [''*''], rq_resource_names_unsubscribe := [''*'']\<rparr>
      in with_handler type_url h (c\<lparr>xc_initial_requests := xc_initial_requests c @ [request]\<rparr>))"

definition with_optional_watched_handler :: "strng \<Rightarrow> bool \<Rightarrow> RawHandler \<Rightarrow> XdsConfig \<Rightarrow> XdsConfig" where
  "with_optional_watched_handler type_url no_on_demand h c =
     with_watched_handler type_url no_on_demand h (c\<lparr>xc_optional_types := hs_insert type_url (xc_optional_types c)\<rparr>)"

definition ADDRESS_TYPE :: strng where
  "ADDRESS_TYPE = ''type.googleapis.com/istio.workload.Address''"

definition SANDBOX_TYPE :: strng where
  "SANDBOX_TYPE = ''type.googleapis.com/agentio.sandbox.Sandbox''"

text \<open>The decoders of the three message types, and the third-party operations the handlers use.\<close>

record xds_env =
  xe_net :: ipnet_ops
  xe_codec :: codec_ops
  xe_decode_address :: "u8 list \<Rightarrow> (XdsAddress, string) result"
  xe_decode_policy :: "u8 list \<Rightarrow> (XdsTrafficPolicy, string) result"
  xe_decode_sandbox :: "u8 list \<Rightarrow> (XdsSandbox, string) result"

definition on_state :: "('t XdsUpdate list \<Rightarrow> ProxyState \<Rightarrow> ProxyState \<times> 'r) \<Rightarrow> 't XdsUpdate list \<Rightarrow> updater \<Rightarrow> updater \<times> 'r" where
  "on_state h updates u = (let (s', r) = h updates (fst u) in ((s', snd u), r))"

definition address_handler :: "xds_env \<Rightarrow> RawHandler" where
  "address_handler E = HandlerWrapper_handle (xe_decode_address E) (handle_addresses (xe_net E) (xe_codec E))"

definition policy_handler :: "xds_env \<Rightarrow> RawHandler" where
  "policy_handler E = HandlerWrapper_handle (xe_decode_policy E) (on_state (handle_policies (xe_net E)))"

definition sandbox_handler :: "xds_env \<Rightarrow> RawHandler" where
  "sandbox_handler E = HandlerWrapper_handle (xe_decode_sandbox E) (on_state (handle_sandboxes (xe_net E)))"

text \<open>The configuration \<open>ProxyStateManager::new\<close> builds from its three settings.\<close>

definition manager_config :: "xds_env \<Rightarrow> bool \<Rightarrow> bool \<Rightarrow> bool \<Rightarrow> XdsConfig" where
  "manager_config E xds_on_demand enable_sandbox_manager sandbox_mode =
     (let builder =
            with_watched_handler TRAFFIC_POLICY_TYPE True (policy_handler E)
              (with_watched_handler ADDRESS_TYPE False (address_handler E) (XdsConfig_new xds_on_demand))
      in if enable_sandbox_manager \<or> sandbox_mode
         then (if enable_sandbox_manager
               then with_on_demand_handler SANDBOX_TYPE (sandbox_handler E) builder
               else with_watched_handler SANDBOX_TYPE True (sandbox_handler E) builder)
         else builder)"

section \<open>The client\<close>

record AdsClient =
  ac_config :: XdsConfig
  ac_state :: XdsState
  ac_block_ready :: bool
  ac_types_to_expect :: "strng list"

datatype XdsSignal = Ack | Nack

definition is_initial_request_on_demand :: "DeltaDiscoveryRequest \<Rightarrow> bool" where
  "is_initial_request_on_demand r = (rq_resource_names_subscribe r \<noteq> [])"

definition XdsState_new :: XdsState where
  "XdsState_new = \<lparr>xs_known_resources = [], xs_pending = [], xs_subscriptions = [], xs_woken = []\<rparr>"

definition AdsClient_new :: "XdsConfig \<Rightarrow> AdsClient" where
  "AdsClient_new config =
     \<lparr>ac_config = config, ac_state = XdsState_new, ac_block_ready = True,
      ac_types_to_expect = remdups (map rq_type_url
        (filter (\<lambda>e. rq_type_url e \<notin> set (xc_optional_types config))
          (filter (\<lambda>e. \<not> is_initial_request_on_demand e) (xc_initial_requests config))))\<rparr>"

definition on_demand_types :: "XdsConfig \<Rightarrow> strng list" where
  "on_demand_types config =
     remdups (map rq_type_url (filter is_initial_request_on_demand (xc_initial_requests config)))"

definition demander :: "AdsClient \<Rightarrow> strng list option" where
  "demander c = (let types = on_demand_types (ac_config c) in if types = [] then None else Some types)"

definition supports :: "AdsClient \<Rightarrow> strng \<Rightarrow> bool" where
  "supports c type_url = (case demander c of None \<Rightarrow> False | Some types \<Rightarrow> type_url \<in> set types)"

definition initial_request :: "XdsState \<Rightarrow> DeltaDiscoveryRequest \<Rightarrow> DeltaDiscoveryRequest" where
  "initial_request st e =
     (let names = entry_names (xs_subscriptions st) (rq_type_url e);
          req = (if is_initial_request_on_demand e \<and> names \<noteq> []
                 then e\<lparr>rq_resource_names_subscribe := names, rq_resource_names_unsubscribe := []\<rparr> else e)
      in req\<lparr>rq_initial_resource_versions := map (\<lambda>n. (n, '''')) (entry_names (xs_known_resources st) (rq_type_url e))\<rparr>)"

definition initial_requests :: "AdsClient \<Rightarrow> DeltaDiscoveryRequest list" where
  "initial_requests c = map (initial_request (ac_state c)) (xc_initial_requests (ac_config c))"

definition RejectedConfig_display :: "(reject_reason \<Rightarrow> string) \<Rightarrow> RejectedConfig \<Rightarrow> string" where
  "RejectedConfig_display render r = fst r @ '': '' @ render (snd r)"

text \<open>The request is what is put on the outbound channel.\<close>

definition handle_stream_event ::
  "(reject_reason \<Rightarrow> string) \<Rightarrow> DeltaDiscoveryResponse \<Rightarrow> AdsClient \<times> updater \<Rightarrow>
     (AdsClient \<times> updater) \<times> DeltaDiscoveryRequest \<times> XdsSignal"
where
  "handle_stream_event render response p =
     (let (c, u) = p;
          (st', u', handler_response) =
            (case hm_get (xc_handlers (ac_config c)) (dr_type_url response) of
               Some h \<Rightarrow> h (ac_state c) response u
             | None \<Rightarrow> (ac_state c, u, Ok ()));
          (response_type, error) =
            (case handler_response of
               Inl rejects \<Rightarrow> (Nack, Some (join ''; '' (map (RejectedConfig_display render) rejects)))
             | Inr _ \<Rightarrow> (Ack, None))
      in ((c\<lparr>ac_state := st'\<rparr>, u'),
          DeltaDiscoveryRequest_default\<lparr>rq_type_url := dr_type_url response,
            rq_response_nonce := dr_nonce response, rq_error_detail := error\<rparr>,
          response_type))"

text \<open>\<open>pending.insert\<close> drops the sender it replaces.\<close>

definition insert_pending :: "ResourceKey \<Rightarrow> nat \<Rightarrow> XdsState \<Rightarrow> XdsState" where
  "insert_pending key tx st =
     st\<lparr>xs_pending := hm_insert key tx (xs_pending st),
        xs_woken := xs_woken st @ (case hm_get (xs_pending st) key of None \<Rightarrow> [] | Some old \<Rightarrow> [(old, False)])\<rparr>"

definition handle_demand_event :: "nat \<times> ResourceKey \<Rightarrow> AdsClient \<Rightarrow> AdsClient \<times> DeltaDiscoveryRequest" where
  "handle_demand_event ev c =
     (let (tx, key) = ev;
          st = insert_pending key tx (ac_state c);
          st' = st\<lparr>xs_subscriptions := hm_insert (rk_type_url key)
            (hs_insert (rk_name key) (entry_names (xs_subscriptions st) (rk_type_url key))) (xs_subscriptions st)\<rparr>
      in (c\<lparr>ac_state := st'\<rparr>,
          DeltaDiscoveryRequest_default\<lparr>rq_type_url := rk_type_url key, rq_resource_names_subscribe := [rk_name key]\<rparr>))"

definition drop_block_ready :: "AdsClient \<Rightarrow> AdsClient" where
  "drop_block_ready c = c\<lparr>ac_block_ready := False\<rparr>"

text \<open>The branch of the loop that has received a message, after the reply was put on the channel.\<close>

definition note_signal :: "bool \<Rightarrow> string \<Rightarrow> XdsSignal \<Rightarrow> AdsClient \<Rightarrow> AdsClient" where
  "note_signal expecting received_type signal c =
     (if signal = Ack \<and> expecting
      then (let c' = c\<lparr>ac_types_to_expect := hs_remove received_type (ac_types_to_expect c)\<rparr>
            in if ac_types_to_expect c' = [] then drop_block_ready c' else c')
      else c)"

section \<open>Connections\<close>

datatype RpcCode = CodeUnknown | CodeCancelled | CodeDeadlineExceeded | CodeUnavailable | CodeOther

datatype run_outcome = ConnectionError | GrpcStatus RpcCode string | OtherError | Complete

text \<open>Durations in milliseconds.\<close>

definition INITIAL_BACKOFF :: nat where
  "INITIAL_BACKOFF = 10"

definition MAX_BACKOFF :: nat where
  "MAX_BACKOFF = 15000"

fun run_loop :: "run_outcome \<Rightarrow> nat \<Rightarrow> nat" where
  "run_loop ConnectionError backoff = min MAX_BACKOFF (backoff * 2)"
| "run_loop (GrpcStatus code message) backoff =
     (if code = CodeUnknown \<or> code = CodeCancelled \<or> code = CodeDeadlineExceeded \<or>
         (code = CodeUnavailable \<and> contains_str message ''transport is closing'') \<or>
         (code = CodeUnavailable \<and> contains_str message ''received prior goaway'')
      then INITIAL_BACKOFF else min MAX_BACKOFF (backoff * 2))"
| "run_loop OtherError backoff = INITIAL_BACKOFF"
| "run_loop Complete backoff = INITIAL_BACKOFF"

text \<open>
  The client with its surroundings: whether a stream is established, what was put on its outbound
  channel, the backoff, and the history of demands, of responses that reached a handler and of
  acknowledged types.
\<close>

record Ads =
  ads_client :: AdsClient
  ads_updater :: updater
  ads_connected :: bool
  ads_sent :: "DeltaDiscoveryRequest list"
  ads_backoff :: nat
  ads_demanded :: "(nat \<times> ResourceKey) list"
  ads_handled :: "DeltaDiscoveryResponse list"
  ads_acked :: "string list"

definition ads_new :: "XdsConfig \<Rightarrow> strng option \<Rightarrow> Ads" where
  "ads_new config node =
     \<lparr>ads_client = AdsClient_new config, ads_updater = (px_new node, []), ads_connected = False, ads_sent = [],
      ads_backoff = INITIAL_BACKOFF, ads_demanded = [], ads_handled = [], ads_acked = []\<rparr>"

definition establish :: "Ads \<Rightarrow> Ads" where
  "establish s =
     s\<lparr>ads_connected := True, ads_sent := initial_requests (ads_client s),
       ads_client := (if ac_types_to_expect (ads_client s) = [] then drop_block_ready (ads_client s) else ads_client s)\<rparr>"

definition lose :: "run_outcome \<Rightarrow> Ads \<Rightarrow> Ads" where
  "lose outcome s = s\<lparr>ads_connected := False, ads_sent := [], ads_backoff := run_loop outcome (ads_backoff s)\<rparr>"

definition on_demand_event :: "nat \<times> ResourceKey \<Rightarrow> Ads \<Rightarrow> Ads" where
  "on_demand_event ev s =
     (let (c', req) = handle_demand_event ev (ads_client s)
      in s\<lparr>ads_client := c', ads_sent := ads_sent s @ [req], ads_demanded := ads_demanded s @ [ev]\<rparr>)"

definition has_handler :: "AdsClient \<Rightarrow> DeltaDiscoveryResponse \<Rightarrow> bool" where
  "has_handler c res = hm_contains (xc_handlers (ac_config c)) (dr_type_url res)"

text \<open>A message up to the point where the reply has to be sent, and what follows when it was.\<close>

definition on_message :: "(reject_reason \<Rightarrow> string) \<Rightarrow> DeltaDiscoveryResponse \<Rightarrow> Ads \<Rightarrow> Ads" where
  "on_message render res s =
     (let ((c', u'), req, signal) = handle_stream_event render res (ads_client s, ads_updater s)
      in s\<lparr>ads_client := c', ads_updater := u',
           ads_handled := (if has_handler (ads_client s) res then ads_handled s @ [res] else ads_handled s)\<rparr>)"

definition on_reply :: "(reject_reason \<Rightarrow> string) \<Rightarrow> DeltaDiscoveryResponse \<Rightarrow> Ads \<Rightarrow> Ads" where
  "on_reply render res s =
     (let (_, req, signal) = handle_stream_event render res (ads_client s, ads_updater s);
          s' = on_message render res s
      in s'\<lparr>ads_client := note_signal (ac_types_to_expect (ads_client s) \<noteq> []) (dr_type_url res) signal (ads_client s'),
            ads_sent := ads_sent s' @ [req],
            ads_acked := (if signal = Ack then ads_acked s' @ [dr_type_url res] else ads_acked s')\<rparr>)"

inductive ads_step :: "(reject_reason \<Rightarrow> string) \<Rightarrow> Ads \<Rightarrow> Ads \<Rightarrow> bool" for render where
  Establish: "\<not> ads_connected s \<Longrightarrow> ads_step render s (establish s)"
| Fail: "ads_step render s (lose outcome s)"
| Demand: "ads_connected s \<Longrightarrow> supports (ads_client s) (rk_type_url key) \<Longrightarrow> tx \<notin> fst ` set (ads_demanded s) \<Longrightarrow>
    ads_step render s (on_demand_event (tx, key) s)"
| DemandLost: "ads_connected s \<Longrightarrow> supports (ads_client s) (rk_type_url key) \<Longrightarrow> tx \<notin> fst ` set (ads_demanded s) \<Longrightarrow>
    ads_step render s (lose OtherError (on_demand_event (tx, key) s))"
| Message: "ads_connected s \<Longrightarrow> ads_step render s (on_reply render res s)"
| MessageLost: "ads_connected s \<Longrightarrow> ads_step render s (lose OtherError (on_message render res s))"

inductive ads_reach :: "(reject_reason \<Rightarrow> string) \<Rightarrow> XdsConfig \<Rightarrow> strng option \<Rightarrow> Ads \<Rightarrow> bool"
  for render config node where
  Start: "ads_reach render config node (ads_new config node)"
| Step: "ads_reach render config node s \<Longrightarrow> ads_step render s s' \<Longrightarrow> ads_reach render config node s'"

inductive_cases ads_step_cases: "ads_step render s s'"

section \<open>Specification\<close>

text \<open>The names a server has delivered and not removed, from the responses alone.\<close>

definition after_response :: "string \<Rightarrow> DeltaDiscoveryResponse \<Rightarrow> string set \<Rightarrow> string set" where
  "after_response ty r K =
     (if dr_type_url r = ty then (K - set (dr_removed_resources r)) \<union> set (map pr_name (dr_resources r)) else K)"

definition delivered :: "DeltaDiscoveryResponse list \<Rightarrow> string \<Rightarrow> string set" where
  "delivered rs ty = fold (after_response ty) rs {}"

definition names_key :: "ResourceKey \<Rightarrow> DeltaDiscoveryResponse \<Rightarrow> bool" where
  "names_key key r \<longleftrightarrow>
     dr_type_url r = rk_type_url key \<and>
     (rk_name key \<in> set (map pr_name (dr_resources r)) \<or> rk_name key \<in> set (dr_removed_resources r))"

definition waiters_ok :: "XdsState \<Rightarrow> (nat \<times> ResourceKey) list \<Rightarrow> DeltaDiscoveryResponse list \<Rightarrow> bool" where
  "waiters_ok st demanded handled \<longleftrightarrow>
     distinct (map fst demanded) \<and>
     (\<forall>key tx. hm_get (xs_pending st) key = Some tx \<longrightarrow> (tx, key) \<in> set demanded) \<and>
     (\<forall>tx key. (tx, key) \<in> set demanded \<longrightarrow>
        hm_get (xs_pending st) key = Some tx \<or> tx \<in> fst ` set (xs_woken st)) \<and>
     (\<forall>tx. (tx, True) \<in> set (xs_woken st) \<longrightarrow>
        (\<exists>key. (tx, key) \<in> set demanded \<and> (\<exists>r \<in> set handled. names_key key r))) \<and>
     (\<forall>tx. (tx, False) \<in> set (xs_woken st) \<longrightarrow>
        (\<exists>key tx'. (tx, key) \<in> set demanded \<and> (tx', key) \<in> set demanded \<and> tx' \<noteq> tx))"

definition subscribed :: "string \<Rightarrow> string \<Rightarrow> DeltaDiscoveryRequest list \<Rightarrow> bool" where
  "subscribed ty name reqs \<longleftrightarrow> (\<exists>r \<in> set reqs. rq_type_url r = ty \<and> name \<in> set (rq_resource_names_subscribe r))"

definition ads_inv :: "XdsConfig \<Rightarrow> Ads \<Rightarrow> bool" where
  "ads_inv config s \<longleftrightarrow>
     ac_config (ads_client s) = config \<and>
     px_inv (fst (ads_updater s)) \<and>
     (\<forall>ty. set (entry_names (xs_known_resources (ac_state (ads_client s))) ty) = delivered (ads_handled s) ty) \<and>
     (\<forall>tx key. (tx, key) \<in> set (ads_demanded s) \<longrightarrow>
        rk_type_url key \<in> set (on_demand_types config) \<and>
        rk_name key \<in> set (entry_names (xs_subscriptions (ac_state (ads_client s))) (rk_type_url key))) \<and>
     (ads_connected s \<longrightarrow> (\<forall>ty name. ty \<in> set (on_demand_types config) \<longrightarrow>
        name \<in> set (entry_names (xs_subscriptions (ac_state (ads_client s))) ty) \<longrightarrow> subscribed ty name (ads_sent s))) \<and>
     waiters_ok (ac_state (ads_client s)) (ads_demanded s) (ads_handled s)"

definition ready_inv :: "XdsConfig \<Rightarrow> Ads \<Rightarrow> bool" where
  "ready_inv config s \<longleftrightarrow>
     set (ac_types_to_expect (ads_client s)) = set (ac_types_to_expect (AdsClient_new config)) - set (ads_acked s) \<and>
     (\<not> ac_block_ready (ads_client s) \<longrightarrow> ac_types_to_expect (ads_client s) = []) \<and>
     (ads_connected s \<longrightarrow> ac_types_to_expect (ads_client s) = [] \<longrightarrow> \<not> ac_block_ready (ads_client s))"

definition resource_ok :: "xds_env \<Rightarrow> string \<Rightarrow> ProtoResource \<Rightarrow> bool" where
  "resource_ok E ty raw =
     (if ty = ADDRESS_TYPE
      then (case decode_proto (xe_decode_address E) raw of Inl _ \<Rightarrow> False
            | Inr u \<Rightarrow> address_update_valid (xe_net E) (xe_codec E) u)
      else if ty = TRAFFIC_POLICY_TYPE
      then (case decode_proto (xe_decode_policy E) raw of Inl _ \<Rightarrow> False | Inr u \<Rightarrow> policy_update_valid (xe_net E) u)
      else (case decode_proto (xe_decode_sandbox E) raw of Inl _ \<Rightarrow> False | Inr u \<Rightarrow> sandbox_update_valid (xe_net E) u))"

text \<open>
  What the client relies on of a handler: it records the response, keeps the state consistent, and
  accepts exactly when every resource decodes and is valid.
\<close>

definition handler_ok :: "RawHandler \<Rightarrow> (ProtoResource \<Rightarrow> bool) \<Rightarrow> bool" where
  "handler_ok h good \<longleftrightarrow>
     (\<forall>st res u. px_inv (fst u) \<longrightarrow>
        (case h st res u of (st', u', r) \<Rightarrow>
           st' = record_response res st \<and> px_inv (fst u') \<and>
           (is_ok r \<longleftrightarrow> (\<forall>raw \<in> set (dr_resources res). good raw))))"

text \<open>A client that discovers addresses on demand and has one address demanded.\<close>

definition example_env :: xds_env where
  "example_env = \<lparr>xe_net = cidr_ops, xe_codec = example_codec, xe_decode_address = (\<lambda>_. Inl ''truncated''),
     xe_decode_policy = (\<lambda>_. Inl ''truncated''), xe_decode_sandbox = (\<lambda>_. Inl ''truncated'')\<rparr>"

definition example_config :: XdsConfig where
  "example_config = manager_config example_env True False False"

definition example_key :: ResourceKey where
  "example_key = \<lparr>rk_name = ''/10.0.0.1'', rk_type_url = ADDRESS_TYPE\<rparr>"

definition example_ads :: Ads where
  "example_ads = on_demand_event (7, example_key) (establish (ads_new example_config None))"

definition example_policies :: DeltaDiscoveryResponse where
  "example_policies = \<lparr>dr_type_url = TRAFFIC_POLICY_TYPE, dr_resources = [], dr_removed_resources = [], dr_nonce = ''1''\<rparr>"

definition example_broken :: DeltaDiscoveryResponse where
  "example_broken = \<lparr>dr_type_url = ADDRESS_TYPE, dr_resources = [\<lparr>pr_name = ''x'', pr_resource = None\<rparr>],
     dr_removed_resources = [], dr_nonce = ''2''\<rparr>"

section \<open>Lemmas\<close>

lemma run_loop_bounds:
  "INITIAL_BACKOFF \<le> b \<Longrightarrow> b \<le> MAX_BACKOFF \<Longrightarrow> INITIAL_BACKOFF \<le> run_loop r b \<and> run_loop r b \<le> MAX_BACKOFF"
  by (cases r) (auto simp: INITIAL_BACKOFF_def MAX_BACKOFF_def)

lemma entry_names_insert [simp]:
  "entry_names (hm_insert ty ns m) ty' = (if ty' = ty then ns else entry_names m ty')"
  by (simp add: entry_names_def)

subsection \<open>Bookkeeping of a response\<close>

lemma notify_fields [simp]:
  "xs_known_resources (notify_on_demand k st) = xs_known_resources st"
  "xs_subscriptions (notify_on_demand k st) = xs_subscriptions st"
  by (simp_all add: notify_on_demand_def split: option.splits)

lemma forget_fields [simp]:
  "xs_pending (forget_resource ty n st) = xs_pending st" "xs_woken (forget_resource ty n st) = xs_woken st"
  "xs_subscriptions (forget_resource ty n st) = xs_subscriptions st"
  by (simp_all add: forget_resource_def split: option.splits)

lemma add_fields [simp]:
  "xs_pending (add_resource ty n st) = xs_pending st" "xs_woken (add_resource ty n st) = xs_woken st"
  "xs_subscriptions (add_resource ty n st) = xs_subscriptions st"
  by (simp_all add: add_resource_def)

lemma known_forget:
  "set (entry_names (xs_known_resources (forget_resource ty n st)) ty') =
     set (entry_names (xs_known_resources st) ty') - (if ty' = ty then {n} else {})"
  by (auto simp: forget_resource_def entry_names_def hs_remove_def split: option.splits)

lemma known_add:
  "set (entry_names (xs_known_resources (add_resource ty n st)) ty') =
     set (entry_names (xs_known_resources st) ty') \<union> (if ty' = ty then {n} else {})"
  by (auto simp: add_resource_def)

lemma known_removed:
  "set (entry_names (xs_known_resources (fold (record_removed ty) ns st)) ty') =
     set (entry_names (xs_known_resources st) ty') - (if ty' = ty then set ns else {})"
  by (induction ns arbitrary: st) (auto simp: record_removed_def known_forget)

lemma known_delivered:
  "set (entry_names (xs_known_resources (fold (record_delivered ty) ns st)) ty') =
     set (entry_names (xs_known_resources st) ty') \<union> (if ty' = ty then set ns else {})"
  by (induction ns arbitrary: st) (auto simp: record_delivered_def known_add)

lemma known_response:
  "set (entry_names (xs_known_resources (record_response res st)) ty) =
     after_response ty res (set (entry_names (xs_known_resources st) ty))"
  by (simp add: record_response_def known_removed known_delivered after_response_def)

lemma subs_response [simp]: "xs_subscriptions (record_response res st) = xs_subscriptions st"
proof -
  have "xs_subscriptions (fold (record_removed ty) ns st) = xs_subscriptions st" for ty ns st
    by (induction ns arbitrary: st) (simp_all add: record_removed_def)
  moreover have "xs_subscriptions (fold (record_delivered ty) ns st) = xs_subscriptions st" for ty ns st
    by (induction ns arbitrary: st) (simp_all add: record_delivered_def)
  ultimately show ?thesis by (simp add: record_response_def)
qed

subsection \<open>Waiters\<close>

lemma waiters_notify:
  assumes "waiters_ok st demanded handled" "\<exists>r \<in> set handled. names_key key r"
  shows "waiters_ok (notify_on_demand key st) demanded handled"
proof (cases "hm_get (xs_pending st) key")
  case None
  with assms(1) show ?thesis by (simp add: notify_on_demand_def)
next
  case (Some tx)
  with assms(1) have "(tx, key) \<in> set demanded" by (simp add: waiters_ok_def)
  with Some assms show ?thesis
    by (simp add: notify_on_demand_def waiters_ok_def) (metis option.inject)
qed

lemma waiters_known [simp]:
  "waiters_ok (forget_resource ty n st) demanded handled = waiters_ok st demanded handled"
  "waiters_ok (add_resource ty n st) demanded handled = waiters_ok st demanded handled"
  "waiters_ok (st\<lparr>xs_subscriptions := m\<rparr>) demanded handled = waiters_ok st demanded handled"
  by (simp_all add: waiters_ok_def)

lemma waiters_removed:
  assumes "waiters_ok st demanded handled" "r \<in> set handled" "dr_type_url r = ty" "set ns \<subseteq> set (dr_removed_resources r)"
  shows "waiters_ok (fold (record_removed ty) ns st) demanded handled"
  using assms
proof (induction ns arbitrary: st)
  case (Cons n ns)
  have "waiters_ok (record_removed ty n st) demanded handled"
    unfolding record_removed_def using Cons.prems
    by (intro waiters_notify) (auto simp: names_key_def)
  with Cons show ?case by simp
qed simp

lemma waiters_delivered:
  assumes "waiters_ok st demanded handled" "r \<in> set handled" "dr_type_url r = ty"
    "set ns \<subseteq> set (map pr_name (dr_resources r))"
  shows "waiters_ok (fold (record_delivered ty) ns st) demanded handled"
  using assms
proof (induction ns arbitrary: st)
  case (Cons n ns)
  have "waiters_ok (notify_on_demand \<lparr>rk_name = n, rk_type_url = ty\<rparr> st) demanded handled"
    using Cons.prems by (intro waiters_notify) (auto simp: names_key_def)
  then have "waiters_ok (record_delivered ty n st) demanded handled"
    unfolding record_delivered_def by simp
  with Cons show ?case by simp
qed simp

lemma waiters_more: "waiters_ok st demanded handled \<Longrightarrow> waiters_ok st demanded (handled @ [r])"
  by (fastforce simp: waiters_ok_def)

lemma waiters_response:
  assumes "waiters_ok st demanded handled"
  shows "waiters_ok (record_response r st) demanded (handled @ [r])"
  unfolding record_response_def
  by (intro waiters_delivered waiters_removed waiters_more assms) auto

lemma waiters_demand:
  assumes "waiters_ok st demanded handled" "tx \<notin> fst ` set demanded"
  shows "waiters_ok (insert_pending key tx st) (demanded @ [(tx, key)]) handled"
proof -
  have old: "(v, key) \<in> set demanded \<and> tx \<noteq> v" if "hm_get (xs_pending st) key = Some v" for v
    using assms that by (force simp: waiters_ok_def)
  let ?st = "insert_pending key tx st"
  have pending: "hm_get (xs_pending ?st) k = (if k = key then Some tx else hm_get (xs_pending st) k)" for k
    by (simp add: insert_pending_def)
  have woken: "set (xs_woken ?st) = set (xs_woken st) \<union> {(v, False) |v. hm_get (xs_pending st) key = Some v}"
    by (auto simp: insert_pending_def split: option.splits)
  have img: "fst ` {(v, False) |v. hm_get (xs_pending st) key = Some v} = {v. hm_get (xs_pending st) key = Some v}"
    by force
  note w = assms(1) [unfolded waiters_ok_def]
  show ?thesis
    unfolding waiters_ok_def pending woken
  proof (intro conjI allI impI)
    show "distinct (map fst (demanded @ [(tx, key)]))" using w assms(2) by simp
    show "(t, k) \<in> set (demanded @ [(tx, key)])"
      if "(if k = key then Some tx else hm_get (xs_pending st) k) = Some t" for t k
      using that w by (auto split: if_splits)
    show "(if k = key then Some tx else hm_get (xs_pending st) k) = Some t \<or>
        t \<in> fst ` (set (xs_woken st) \<union> {(v, False) |v. hm_get (xs_pending st) key = Some v})"
      if "(t, k) \<in> set (demanded @ [(tx, key)])" for t k
      using that w by (auto simp: image_Un img)
    show "\<exists>k. (t, k) \<in> set (demanded @ [(tx, key)]) \<and> (\<exists>r \<in> set handled. names_key k r)"
      if "(t, True) \<in> set (xs_woken st) \<union> {(v, False) |v. hm_get (xs_pending st) key = Some v}" for t
      using that w by simp blast
    show "\<exists>k t'. (t, k) \<in> set (demanded @ [(tx, key)]) \<and> (t', k) \<in> set (demanded @ [(tx, key)]) \<and> t' \<noteq> t"
      if "(t, False) \<in> set (xs_woken st) \<union> {(v, False) |v. hm_get (xs_pending st) key = Some v}" for t
    proof (cases "hm_get (xs_pending st) key = Some t")
      case True
      with old show ?thesis by force
    next
      case False
      with that have "(t, False) \<in> set (xs_woken st)" by simp
      with w obtain k t' where "(t, k) \<in> set demanded" "(t', k) \<in> set demanded" "t' \<noteq> t" by blast
      then show ?thesis by (intro exI [of _ k] exI [of _ t']) simp
    qed
  qed
qed

subsection \<open>The handlers of the proxy\<close>

lemma merge_results_ok: "is_ok (merge_results r fs) \<longleftrightarrow> is_ok r \<and> fs = []"
  by (cases r; cases "fs = []") (simp_all add: merge_results_def)

lemma decode_failures_Nil:
  "decode_failures decode res = [] \<longleftrightarrow> (\<forall>raw \<in> set (dr_resources res). is_ok (decode_proto decode raw))"
proof -
  have "decode_failures decode res = [] \<longleftrightarrow> set (decode_failures decode res) = {}" by simp
  also have "\<dots> \<longleftrightarrow> (\<forall>raw \<in> set (dr_resources res). is_ok (decode_proto decode raw))"
    unfolding decode_failures_def set_map_filter by (force simp: is_ok_def split: sum.splits)
  finally show ?thesis .
qed

lemma ok_part_Some: "(case r of Inl _ \<Rightarrow> None | Inr v \<Rightarrow> Some v) = Some u \<longleftrightarrow> r = Inr u"
  by (cases r) auto

lemma decoded_member:
  "u \<in> set (decoded_updates decode res) \<longleftrightarrow>
     (\<exists>raw \<in> set (dr_resources res). decode_proto decode raw = Inr u) \<or> u \<in> Remove ` set (dr_removed_resources res)"
  unfolding decoded_updates_def set_append set_map_filter ok_part_Some by simp

lemma decoded_all_valid:
  assumes "\<And>n. valid (Remove n)"
  shows "(filter (\<lambda>u. \<not> valid u) (decoded_updates decode res) = [] \<and> decode_failures decode res = []) \<longleftrightarrow>
    (\<forall>raw \<in> set (dr_resources res). case decode_proto decode raw of Inl _ \<Rightarrow> False | Inr u \<Rightarrow> valid u)"
proof -
  have "filter (\<lambda>u. \<not> valid u) (decoded_updates decode res) = [] \<longleftrightarrow>
      (\<forall>raw \<in> set (dr_resources res). \<forall>u. decode_proto decode raw = Inr u \<longrightarrow> valid u)"
    using assms by (auto simp: filter_empty_conv decoded_member)
  then show ?thesis
    unfolding decode_failures_Nil by (auto simp: is_ok_def split: sum.splits)
qed

lemma HandlerWrapper_ok:
  assumes inv: "\<And>us u. px_inv (fst u) \<Longrightarrow> px_inv (fst (fst (h us u)))"
    and acc: "\<And>us u. px_inv (fst u) \<Longrightarrow> is_ok (snd (h us u)) \<longleftrightarrow> filter (\<lambda>x. \<not> valid x) us = []"
    and rem: "\<And>n. valid (Remove n)"
  shows "handler_ok (HandlerWrapper_handle decode h)
    (\<lambda>raw. case decode_proto decode raw of Inl _ \<Rightarrow> False | Inr u \<Rightarrow> valid u)"
  unfolding handler_ok_def HandlerWrapper_handle_def
  by (simp add: case_prod_unfold Let_def inv merge_results_ok acc decoded_all_valid [where valid = valid, OF rem])

lemma address_handler_ok: "handler_ok (address_handler E) (resource_ok E ADDRESS_TYPE)"
  unfolding address_handler_def resource_ok_def if_P [OF refl]
proof (rule HandlerWrapper_ok)
  fix us and u :: updater assume u: "px_inv (fst u)"
  show "px_inv (fst (fst (handle_addresses (xe_net E) (xe_codec E) us u)))"
    using xds_apply_inv [OF u, of "xe_net E" "xe_codec E" "Addresses us"] by simp
  show "is_ok (snd (handle_addresses (xe_net E) (xe_codec E) us u)) \<longleftrightarrow>
      filter (\<lambda>x. \<not> address_update_valid (xe_net E) (xe_codec E) x) us = []"
    unfolding handle_addresses_def by (rule addresses.batch_exact(3) [OF u])
qed simp

lemma type_urls [simp]: "TRAFFIC_POLICY_TYPE \<noteq> ADDRESS_TYPE" "SANDBOX_TYPE \<noteq> ADDRESS_TYPE"
  "SANDBOX_TYPE \<noteq> TRAFFIC_POLICY_TYPE" "ADDRESS_TYPE \<noteq> TRAFFIC_POLICY_TYPE" "ADDRESS_TYPE \<noteq> SANDBOX_TYPE"
  "TRAFFIC_POLICY_TYPE \<noteq> SANDBOX_TYPE"
  by (simp_all add: TRAFFIC_POLICY_TYPE_def ADDRESS_TYPE_def SANDBOX_TYPE_def)

lemma policy_handler_ok: "handler_ok (policy_handler E) (resource_ok E TRAFFIC_POLICY_TYPE)"
proof -
  have "handler_ok (policy_handler E)
      (\<lambda>raw. case decode_proto (xe_decode_policy E) raw of Inl _ \<Rightarrow> False | Inr u \<Rightarrow> policy_update_valid (xe_net E) u)"
    unfolding policy_handler_def
  proof (rule HandlerWrapper_ok)
    fix us and u :: updater assume u: "px_inv (fst u)"
    show "px_inv (fst (fst (on_state (handle_policies (xe_net E)) us u)))"
      using xds_apply_inv [OF u, of "xe_net E" "xe_codec E" "Policies us"]
      by (cases u) (simp add: on_state_def)
    show "is_ok (snd (on_state (handle_policies (xe_net E)) us u)) \<longleftrightarrow>
        filter (\<lambda>x. \<not> policy_update_valid (xe_net E) x) us = []"
      using policies.batch_exact(3) [OF TrueI, of "xe_net E" update_name us "(px_policies (fst u), False)"]
      by (simp add: on_state_def handle_policies_def case_prod_unfold Let_def)
  qed simp
  moreover have "resource_ok E TRAFFIC_POLICY_TYPE =
      (\<lambda>raw. case decode_proto (xe_decode_policy E) raw of Inl _ \<Rightarrow> False | Inr u \<Rightarrow> policy_update_valid (xe_net E) u)"
    by (simp add: resource_ok_def fun_eq_iff)
  ultimately show ?thesis by simp
qed

lemma sandbox_handler_ok: "handler_ok (sandbox_handler E) (resource_ok E SANDBOX_TYPE)"
proof -
  have "handler_ok (sandbox_handler E)
      (\<lambda>raw. case decode_proto (xe_decode_sandbox E) raw of Inl _ \<Rightarrow> False | Inr u \<Rightarrow> sandbox_update_valid (xe_net E) u)"
    unfolding sandbox_handler_def
  proof (rule HandlerWrapper_ok)
    fix us and u :: updater assume u: "px_inv (fst u)"
    show "px_inv (fst (fst (on_state (handle_sandboxes (xe_net E)) us u)))"
      using xds_apply_inv [OF u, of "xe_net E" "xe_codec E" "Sandboxes us"]
      by (cases u) (simp add: on_state_def)
    have "sbs_inv (fst (px_sandboxes (fst u), False))" using u by (simp add: px_inv_def)
    note b = sandboxes.batch_exact(3) [OF this, of "xe_net E" update_name us]
    show "is_ok (snd (on_state (handle_sandboxes (xe_net E)) us u)) \<longleftrightarrow>
        filter (\<lambda>x. \<not> sandbox_update_valid (xe_net E) x) us = []"
      using b by (simp add: on_state_def handle_sandboxes_def case_prod_unfold Let_def)
  qed simp
  moreover have "resource_ok E SANDBOX_TYPE =
      (\<lambda>raw. case decode_proto (xe_decode_sandbox E) raw of Inl _ \<Rightarrow> False | Inr u \<Rightarrow> sandbox_update_valid (xe_net E) u)"
    by (simp add: resource_ok_def fun_eq_iff)
  ultimately show ?thesis by simp
qed

lemma manager_handlers:
  "hm_get (xc_handlers (manager_config E od sm md)) ty = Some h \<Longrightarrow> handler_ok h (resource_ok E ty)"
  using address_handler_ok [of E] policy_handler_ok [of E] sandbox_handler_ok [of E]
  by (auto simp: manager_config_def with_watched_handler_def with_on_demand_handler_def with_handler_def watch_def
      XdsConfig_new_def Let_def split: if_splits)

subsection \<open>The invariants\<close>

lemma stream_event:
  assumes h: "\<And>ty h. hm_get (xc_handlers (ac_config c)) ty = Some h \<Longrightarrow> handler_ok h (good ty)"
    and u: "px_inv (fst u)"
  shows "\<exists>st' u' req signal. handle_stream_event render res (c, u) = ((c\<lparr>ac_state := st'\<rparr>, u'), req, signal) \<and>
    st' = (if has_handler c res then record_response res (ac_state c) else ac_state c) \<and> px_inv (fst u') \<and>
    rq_type_url req = dr_type_url res \<and> rq_response_nonce req = dr_nonce res \<and>
    rq_resource_names_subscribe req = [] \<and>
    (signal = Ack \<longleftrightarrow> (has_handler c res \<longrightarrow> (\<forall>raw \<in> set (dr_resources res). good (dr_type_url res) raw))) \<and>
    (rq_error_detail req = None \<longleftrightarrow> signal = Ack)"
proof (cases "hm_get (xc_handlers (ac_config c)) (dr_type_url res)")
  case None
  then show ?thesis
    using u by (simp add: handle_stream_event_def has_handler_def hm_contains_def DeltaDiscoveryRequest_default_def)
next
  case (Some raw_h)
  obtain st' u' r where run: "raw_h (ac_state c) res u = (st', u', r)" by (cases "raw_h (ac_state c) res u") auto
  have "case raw_h (ac_state c) res u of (st', u', r) \<Rightarrow>
      st' = record_response res (ac_state c) \<and> px_inv (fst u') \<and>
      (is_ok r \<longleftrightarrow> (\<forall>raw \<in> set (dr_resources res). good (dr_type_url res) raw))"
    using h [OF Some, unfolded handler_ok_def, THEN spec [of _ "ac_state c"], THEN spec [of _ res], THEN spec [of _ u], THEN mp, OF u] .
  then have spec: "st' = record_response res (ac_state c)" "px_inv (fst u')"
      "is_ok r \<longleftrightarrow> (\<forall>raw \<in> set (dr_resources res). good (dr_type_url res) raw)"
    by (simp_all add: run)
  show ?thesis
  proof (cases r)
    case (Inl rejects)
    with Some run spec show ?thesis
      by (simp add: handle_stream_event_def has_handler_def hm_contains_def DeltaDiscoveryRequest_default_def)
  next
    case (Inr x)
    with Some run spec show ?thesis
      by (simp add: handle_stream_event_def has_handler_def hm_contains_def DeltaDiscoveryRequest_default_def)
  qed
qed

lemma lose_inv: "ads_inv config s \<Longrightarrow> ads_inv config (lose out s)"
  by (simp add: ads_inv_def lose_def)

lemma note_signal_fields [simp]:
  "ac_config (note_signal b ty g c) = ac_config c" "ac_state (note_signal b ty g c) = ac_state c"
  by (simp_all add: note_signal_def drop_block_ready_def Let_def)

lemma initial_request_fields [simp]:
  "rq_type_url (initial_request st e) = rq_type_url e"
  "rq_initial_resource_versions (initial_request st e) =
     map (\<lambda>n. (n, '''')) (entry_names (xs_known_resources st) (rq_type_url e))"
  by (simp_all add: initial_request_def Let_def)

lemma initial_subscribed:
  assumes "ty \<in> set (on_demand_types (ac_config c))" "name \<in> set (entry_names (xs_subscriptions (ac_state c)) ty)"
  shows "subscribed ty name (initial_requests c)"
proof -
  from assms(1) obtain e where e: "e \<in> set (xc_initial_requests (ac_config c))" "is_initial_request_on_demand e"
      "rq_type_url e = ty"
    by (auto simp: on_demand_types_def)
  have "name \<in> set (rq_resource_names_subscribe (initial_request (ac_state c) e))"
    using assms(2) e(2,3) by (auto simp: initial_request_def Let_def)
  then show ?thesis using e(1,3) by (auto simp: subscribed_def initial_requests_def)
qed

lemma establish_inv:
  assumes "ads_inv config s"
  shows "ads_inv config (establish s)"
  using assms initial_subscribed [of _ "ads_client s"]
  by (auto simp: ads_inv_def establish_def drop_block_ready_def)

lemma demand_event:
  "on_demand_event (tx, key) s =
     s\<lparr>ads_client := (ads_client s)\<lparr>ac_state := (insert_pending key tx (ac_state (ads_client s)))
           \<lparr>xs_subscriptions := hm_insert (rk_type_url key)
              (hs_insert (rk_name key) (entry_names (xs_subscriptions (ac_state (ads_client s))) (rk_type_url key)))
              (xs_subscriptions (ac_state (ads_client s)))\<rparr>\<rparr>,
       ads_sent := ads_sent s @ [DeltaDiscoveryRequest_default
         \<lparr>rq_type_url := rk_type_url key, rq_resource_names_subscribe := [rk_name key]\<rparr>],
       ads_demanded := ads_demanded s @ [(tx, key)]\<rparr>"
  by (simp add: on_demand_event_def handle_demand_event_def insert_pending_def Let_def)

lemma insert_pending_fields [simp]:
  "xs_known_resources (insert_pending key tx st) = xs_known_resources st"
  "xs_subscriptions (insert_pending key tx st) = xs_subscriptions st"
  by (simp_all add: insert_pending_def)

lemma subscribed_append: "subscribed ty name (xs @ ys) \<longleftrightarrow> subscribed ty name xs \<or> subscribed ty name ys"
  by (auto simp: subscribed_def)

lemma demand_inv:
  assumes inv: "ads_inv config s" and sup: "supports (ads_client s) (rk_type_url key)"
    and new: "tx \<notin> fst ` set (ads_demanded s)"
  shows "ads_inv config (on_demand_event (tx, key) s)"
proof -
  have conf: "ac_config (ads_client s) = config" using inv by (simp add: ads_inv_def)
  have ty: "rk_type_url key \<in> set (on_demand_types config)"
    using sup by (simp add: supports_def demander_def conf Let_def split: if_splits)
  have "waiters_ok (insert_pending key tx (ac_state (ads_client s))) (ads_demanded s @ [(tx, key)]) (ads_handled s)"
    using inv new by (intro waiters_demand) (auto simp: ads_inv_def)
  moreover have "subscribed (rk_type_url key) (rk_name key) [DeltaDiscoveryRequest_default
      \<lparr>rq_type_url := rk_type_url key, rq_resource_names_subscribe := [rk_name key]\<rparr>]"
    by (simp add: subscribed_def)
  ultimately show ?thesis
    using inv ty unfolding demand_event ads_inv_def by (auto simp: subscribed_append) metis+
qed

lemma message_inv:
  assumes inv: "ads_inv config s" and config: "config = manager_config E od sm md"
  shows "ads_inv config (on_message render res s)"
proof -
  have conf: "ac_config (ads_client s) = config" and u: "px_inv (fst (ads_updater s))"
    using inv by (simp_all add: ads_inv_def)
  have hs: "hm_get (xc_handlers (ac_config (ads_client s))) ty = Some h \<Longrightarrow> handler_ok h (resource_ok E ty)" for ty h
    unfolding conf config by (rule manager_handlers)
  obtain st' u' req signal where ev: "handle_stream_event render res (ads_client s, ads_updater s) =
        (((ads_client s)\<lparr>ac_state := st'\<rparr>, u'), req, signal)"
      "st' = (if has_handler (ads_client s) res then record_response res (ac_state (ads_client s))
              else ac_state (ads_client s))" "px_inv (fst u')"
    using stream_event [where c = "ads_client s" and good = "resource_ok E" and render = render and res = res, OF hs u]
    by blast
  then have msg: "on_message render res s = s\<lparr>ads_client := (ads_client s)\<lparr>ac_state := st'\<rparr>, ads_updater := u',
      ads_handled := (if has_handler (ads_client s) res then ads_handled s @ [res] else ads_handled s)\<rparr>"
    by (simp add: on_message_def)
  show ?thesis
  proof (cases "has_handler (ads_client s) res")
    case True
    have "waiters_ok (record_response res (ac_state (ads_client s))) (ads_demanded s) (ads_handled s @ [res])"
      using inv by (intro waiters_response) (simp add: ads_inv_def)
    then show ?thesis
      using inv True ev(2,3) unfolding msg ads_inv_def
      by (simp add: known_response delivered_def)
  next
    case False
    then show ?thesis using inv ev(2,3) unfolding msg ads_inv_def by simp
  qed
qed

lemma reply_inv:
  assumes "ads_inv config s" "config = manager_config E od sm md"
  shows "ads_inv config (on_reply render res s)"
  using message_inv [OF assms, of render res]
  by (auto simp: on_reply_def case_prod_unfold Let_def ads_inv_def subscribed_append)

lemma ads_reach_inv:
  assumes "ads_reach render config node s" "config = manager_config E od sm md"
  shows "ads_inv config s"
  using assms
proof induction
  case Start
  then show ?case
    by (simp add: ads_inv_def ads_new_def AdsClient_new_def XdsState_new_def px_inv_new entry_names_def
        delivered_def waiters_ok_def)
next
  case (Step s s')
  from Step.hyps(2) Step.IH [OF Step.prems] Step.prems show ?case
    by (cases rule: ads_step.cases)
      (auto intro!: lose_inv establish_inv demand_inv message_inv reply_inv)
qed

lemma note_signal_ready:
  "ac_types_to_expect (note_signal b ty g c) =
     (if g = Ack \<and> b then hs_remove ty (ac_types_to_expect c) else ac_types_to_expect c)"
  "ac_block_ready (note_signal b ty g c) =
     (ac_block_ready c \<and> \<not> (g = Ack \<and> b \<and> hs_remove ty (ac_types_to_expect c) = []))"
  by (auto simp: note_signal_def drop_block_ready_def Let_def)

lemma stream_event_ready:
  assumes "handle_stream_event render res (c, u) = ((c', u'), req, signal)"
  shows "ac_types_to_expect c' = ac_types_to_expect c" "ac_block_ready c' = ac_block_ready c"
  using assms by (auto simp: handle_stream_event_def case_prod_unfold Let_def)

lemma hs_remove_Nil [simp]: "hs_remove x [] = []"
  by (simp add: hs_remove_def)

lemma ready_keep:
  assumes "ready_inv config s" "ac_types_to_expect (ads_client s') = ac_types_to_expect (ads_client s)"
    "ac_block_ready (ads_client s') = ac_block_ready (ads_client s)" "ads_acked s' = ads_acked s"
    "ads_connected s' \<longrightarrow> ads_connected s"
  shows "ready_inv config s'"
  using assms unfolding ready_inv_def by metis

lemma ready_reach:
  assumes "ads_reach render config node s"
  shows "ready_inv config s"
  using assms
proof induction
  case (Step s s')
  from Step.hyps(2) show ?case
  proof cases
    case Establish
    with Step.IH show ?thesis by (auto simp: ready_inv_def establish_def drop_block_ready_def)
  next
    case (Message res)
    obtain c' u' req signal where ev: "handle_stream_event render res (ads_client s, ads_updater s) = ((c', u'), req, signal)"
      by (metis prod.collapse)
    note same = stream_event_ready [OF ev]
    let ?b = "ac_types_to_expect (ads_client s) \<noteq> []"
    have "ads_client s' = note_signal ?b (dr_type_url res) signal c'" "ads_connected s' = ads_connected s"
        "ads_acked s' = (if signal = Ack then ads_acked s @ [dr_type_url res] else ads_acked s)"
      using ev by (simp_all add: Message(1) on_reply_def on_message_def Let_def)
    then have types: "ac_types_to_expect (ads_client s') =
          (if signal = Ack \<and> ?b then hs_remove (dr_type_url res) (ac_types_to_expect (ads_client s))
           else ac_types_to_expect (ads_client s))"
        and block: "ac_block_ready (ads_client s') = (ac_block_ready (ads_client s) \<and> \<not> (signal = Ack \<and> ?b \<and>
          hs_remove (dr_type_url res) (ac_types_to_expect (ads_client s)) = []))"
        and conn: "ads_connected s' = ads_connected s"
        and acked: "set (ads_acked s') = set (ads_acked s) \<union> (if signal = Ack then {dr_type_url res} else {})"
      by (simp_all add: note_signal_ready same)
    have "set (ac_types_to_expect (ads_client s')) =
        set (ac_types_to_expect (ads_client s)) - (if signal = Ack then {dr_type_url res} else {})"
      unfolding types by simp
    also have "\<dots> = set (ac_types_to_expect (AdsClient_new config)) - set (ads_acked s')"
      using Step.IH unfolding ready_inv_def acked by blast
    finally have expect: "set (ac_types_to_expect (ads_client s')) =
        set (ac_types_to_expect (AdsClient_new config)) - set (ads_acked s')" .
    have "\<not> ac_block_ready (ads_client s) \<longrightarrow> ac_types_to_expect (ads_client s) = []"
        "ads_connected s \<longrightarrow> ac_types_to_expect (ads_client s) = [] \<longrightarrow> \<not> ac_block_ready (ads_client s)"
      using Step.IH unfolding ready_inv_def by blast+
    then have "\<not> ac_block_ready (ads_client s') \<longrightarrow> ac_types_to_expect (ads_client s') = []"
        "ads_connected s' \<longrightarrow> ac_types_to_expect (ads_client s') = [] \<longrightarrow> \<not> ac_block_ready (ads_client s')"
      unfolding block conn types
      by (cases "ac_block_ready (ads_client s)"; cases "ac_types_to_expect (ads_client s) = []"; auto)+
    with expect show ?thesis unfolding ready_inv_def by blast
  next
    case (MessageLost res)
    obtain c' u' req signal where ev: "handle_stream_event render res (ads_client s, ads_updater s) = ((c', u'), req, signal)"
      by (metis prod.collapse)
    with stream_event_ready [OF ev] show ?thesis
      by (intro ready_keep [OF Step.IH]) (simp_all add: MessageLost(1) on_message_def lose_def)
  qed (auto intro!: ready_keep [OF Step.IH] simp: lose_def demand_event)
qed (simp add: ready_inv_def ads_new_def AdsClient_new_def)

lemma backoff_bounds: "INITIAL_BACKOFF \<le> fold run_loop outs INITIAL_BACKOFF \<and> fold run_loop outs INITIAL_BACKOFF \<le> MAX_BACKOFF"
proof (induction outs rule: rev_induct)
  case (snoc r outs)
  then show ?case using run_loop_bounds by simp
qed (simp add: INITIAL_BACKOFF_def MAX_BACKOFF_def)

lemma backoff_doubles: "fold run_loop (replicate n ConnectionError) b = (if n = 0 then b else min MAX_BACKOFF (b * 2 ^ n))"
proof (induction n arbitrary: b)
  case (Suc n)
  have "MAX_BACKOFF \<le> b * (2 * 2 ^ n)" if "MAX_BACKOFF \<le> b * 2"
    using that by (rule order_trans) simp
  with Suc show ?case by (cases "n = 0") (auto simp: min_def mult.assoc)
qed simp

lemma example_ads_reach: "ads_reach (\<lambda>_. '''') (manager_config example_env True False False) None example_ads"
proof -
  have "ads_step (\<lambda>_. '''') (ads_new example_config None) (establish (ads_new example_config None))"
    by (rule ads_step.Establish) (simp add: ads_new_def)
  moreover have "ads_step (\<lambda>_. '''') (establish (ads_new example_config None)) example_ads"
    unfolding example_ads_def
  proof (rule ads_step.Demand)
    show "supports (ads_client (establish (ads_new example_config None))) (rk_type_url example_key)"
      by code_simp
  qed (simp_all add: establish_def ads_new_def)
  ultimately show ?thesis
    unfolding example_config_def [symmetric] by (blast intro: ads_reach.intros)
qed

text \<open>
  Demanding a resource that is already being waited for releases the first waiter at once: its sender is
  replaced in \<open>pending\<close> and dropped.
\<close>

theorem second_demand_releases_first:
  "hm_get (xs_pending (ac_state c)) key = Some tx \<Longrightarrow>
     (tx, False) \<in> set (xs_woken (ac_state (fst (handle_demand_event (tx', key) c))))"
  by (simp add: handle_demand_event_def insert_pending_def Let_def)

section \<open>Properties\<close>

text \<open>
  C20. Nothing is forgotten across reconnections. In every reachable state of the client, a resource that
  was ever demanded is subscribed on the current stream, and will be subscribed by the first requests of
  the next one; and the requests that open a stream tell the server exactly the resources that it has
  delivered and not removed, so that removals during a disconnection are not lost.
\<close>

theorem client_reconnect:
  assumes "ads_reach render (manager_config E od sm md) node s"
  shows "(\<forall>tx key. (tx, key) \<in> set (ads_demanded s) \<longrightarrow>
      (ads_connected s \<longrightarrow> subscribed (rk_type_url key) (rk_name key) (ads_sent s)) \<and>
      subscribed (rk_type_url key) (rk_name key) (initial_requests (ads_client s))) \<and>
    (\<forall>req \<in> set (initial_requests (ads_client s)).
      fst ` set (rq_initial_resource_versions req) = delivered (ads_handled s) (rq_type_url req))"
proof -
  note inv = ads_reach_inv [OF assms refl, unfolded ads_inv_def]
  have "subscribed (rk_type_url key) (rk_name key) (initial_requests (ads_client s))"
    if "(tx, key) \<in> set (ads_demanded s)" for tx key
    using that inv by (intro initial_subscribed) auto
  moreover have "fst ` set (rq_initial_resource_versions req) = delivered (ads_handled s) (rq_type_url req)"
    if "req \<in> set (initial_requests (ads_client s))" for req
    using that inv by (auto simp: initial_requests_def image_image)
  ultimately show ?thesis using inv by blast
qed

theorem client_reconnect_witness:
  "ads_reach (\<lambda>_. '''') (manager_config example_env True False False) None example_ads \<and>
   subscribed ADDRESS_TYPE ''/10.0.0.1'' (initial_requests (ads_client example_ads))"
proof -
  have "(7, example_key) \<in> set (ads_demanded example_ads)"
    by (simp add: example_ads_def demand_event)
  with client_reconnect [OF example_ads_reach] example_ads_reach show ?thesis
    by (force simp: example_key_def)
qed



text \<open>
  C22. The proxy reports ready exactly when it has its configuration: readiness is released only when
  every type that is pushed and not optional has had an acknowledged response, and on an established
  stream it is released as soon as that is so.
\<close>

theorem client_ready:
  assumes "ads_reach render config node s"
  shows "(\<not> ac_block_ready (ads_client s) \<longrightarrow>
      (\<forall>e \<in> set (xc_initial_requests config).
         is_initial_request_on_demand e \<or> rq_type_url e \<in> set (xc_optional_types config) \<or>
         rq_type_url e \<in> set (ads_acked s))) \<and>
    (ads_connected s \<longrightarrow>
      (\<forall>e \<in> set (xc_initial_requests config).
         is_initial_request_on_demand e \<or> rq_type_url e \<in> set (xc_optional_types config) \<or>
         rq_type_url e \<in> set (ads_acked s)) \<longrightarrow> \<not> ac_block_ready (ads_client s))"
proof -
  let ?all = "\<forall>e \<in> set (xc_initial_requests config).
      is_initial_request_on_demand e \<or> rq_type_url e \<in> set (xc_optional_types config) \<or>
      rq_type_url e \<in> set (ads_acked s)"
  have "?all \<longleftrightarrow> set (ac_types_to_expect (AdsClient_new config)) - set (ads_acked s) = {}"
    by (auto simp: AdsClient_new_def)
  then show ?thesis using ready_reach [OF assms] unfolding ready_inv_def by (metis set_empty)
qed

theorem client_ready_witness:
  "\<not> ac_block_ready (ads_client (on_reply (\<lambda>_. '''') example_policies example_ads))"
proof -
  let ?s = "on_reply (\<lambda>_. '''') example_policies example_ads"
  have "ads_connected example_ads"
    by (simp add: example_ads_def demand_event establish_def)
  then have "ads_reach (\<lambda>_. '''') example_config None ?s"
    using example_ads_reach unfolding example_config_def by (blast intro: ads_reach.intros ads_step.intros)
  moreover have "ads_connected ?s" "list_all (\<lambda>e. is_initial_request_on_demand e \<or>
      rq_type_url e \<in> set (ads_acked ?s)) (xc_initial_requests example_config)"
    by code_simp+
  ultimately show ?thesis using client_ready [of _ example_config None ?s] by (auto simp: list_all_iff)
qed




end
