(* ===== verification/FileStore.thy ===== *)
theory FileStore
  imports Extensions
begin

text \<open>
  The directory snapshot behind the sandbox credential, \<^verbatim>\<open>src/watcher/watcher.rs\<close>: a scan of a
  directory into an ordered map, its publication, and the reads that load on demand. The file system is
  an input: a scan sees the entries of the directory walk in the order of the walk, each with what
  reading it gives.
\<close>

section \<open>Ordered maps\<close>

text \<open>A \<open>BTreeMap<K, V>\<close> is its list of entries in key order.\<close>

type_synonym ('k, 'v) btreemap = "('k \<times> 'v) list"

definition bt_get :: "('k, 'v) btreemap \<Rightarrow> 'k \<Rightarrow> 'v option" where
  "bt_get m k = map_of m k"

fun bt_insert :: "'k::linorder \<Rightarrow> 'v \<Rightarrow> ('k, 'v) btreemap \<Rightarrow> ('k, 'v) btreemap" where
  "bt_insert k v [] = [(k, v)]"
| "bt_insert k v ((k', v') # m) =
     (if k < k' then (k, v) # (k', v') # m
      else if k = k' then (k, v) # m
      else (k', v') # bt_insert k v m)"

definition bt_remove :: "'k \<Rightarrow> ('k, 'v) btreemap \<Rightarrow> ('k, 'v) btreemap" where
  "bt_remove k m = filter (\<lambda>(k', _). k' \<noteq> k) m"

definition bt_wf :: "('k::linorder, 'v) btreemap \<Rightarrow> bool" where
  "bt_wf m = sorted_wrt (<) (map fst m)"

text \<open>\<open>first_key_value\<close> and \<open>extend\<close>.\<close>

definition bt_first :: "('k, 'v) btreemap \<Rightarrow> 'v option" where
  "bt_first m = (case m of [] \<Rightarrow> None | (_, v) # _ \<Rightarrow> Some v)"

definition bt_extend :: "('k::linorder, 'v) btreemap \<Rightarrow> ('k, 'v) btreemap \<Rightarrow> ('k, 'v) btreemap" where
  "bt_extend m other = fold (\<lambda>(k, v). bt_insert k v) other m"

section \<open>The file store\<close>

datatype file_read = Content string | ReadNotFound | ReadFailed

datatype walk_entry = WalkNotFound | WalkFailed | NotAFile string | RegularFile string file_read

datatype scan_error = WalkError | ReadingError string | TransformError string

fun scan_loop ::
  "(string \<Rightarrow> 'v option) \<Rightarrow> (string \<Rightarrow> 'k::linorder option) \<Rightarrow> walk_entry list \<Rightarrow> ('k, 'v) btreemap \<Rightarrow>
     (('k, 'v) btreemap, scan_error) result"
where
  "scan_loop transform key_func [] snapshot = Ok snapshot"
| "scan_loop transform key_func (entry # es) snapshot =
     (case entry of
        WalkNotFound \<Rightarrow> scan_loop transform key_func es snapshot
      | WalkFailed \<Rightarrow> Err WalkError
      | NotAFile _ \<Rightarrow> scan_loop transform key_func es snapshot
      | RegularFile path r \<Rightarrow>
          (case key_func path of
             None \<Rightarrow> scan_loop transform key_func es snapshot
           | Some key \<Rightarrow>
               (case r of
                  ReadNotFound \<Rightarrow> scan_loop transform key_func es snapshot
                | ReadFailed \<Rightarrow> Err (ReadingError path)
                | Content content \<Rightarrow>
                    (case transform content of
                       None \<Rightarrow> Err (TransformError path)
                     | Some v \<Rightarrow>
                         scan_loop transform key_func es
                           (if bt_get snapshot key = None then bt_insert key v snapshot else snapshot)))))"

definition scan ::
  "(string \<Rightarrow> 'v option) \<Rightarrow> (string \<Rightarrow> 'k::linorder option) \<Rightarrow> walk_entry list \<Rightarrow> (('k, 'v) btreemap, scan_error) result"
where
  "scan transform key_func entries = scan_loop transform key_func entries []"

text \<open>
  \<open>load\<close>: a failed scan keeps the published snapshot; the result is the snapshot published then.
  \<open>get_or_load\<close> looks twice, before and after it has the lock, hence the two snapshots.
\<close>

definition load ::
  "(string \<Rightarrow> 'v option) \<Rightarrow> (string \<Rightarrow> 'k::linorder option) \<Rightarrow> walk_entry list \<Rightarrow> ('k, 'v) btreemap \<Rightarrow>
     ('k, 'v) btreemap \<times> (unit, scan_error) result"
where
  "load transform key_func entries snapshot =
     (case scan transform key_func entries of Inl e \<Rightarrow> (snapshot, Err e) | Inr m \<Rightarrow> (m, Ok ()))"

definition first_ready :: "('v \<Rightarrow> bool) \<Rightarrow> ('k, 'v) btreemap \<Rightarrow> 'v option" where
  "first_ready is_ready m = Option.bind (bt_first m) (\<lambda>v. if is_ready v then Some v else None)"

definition get_or_load ::
  "(string \<Rightarrow> 'v option) \<Rightarrow> (string \<Rightarrow> 'k::linorder option) \<Rightarrow> ('v \<Rightarrow> bool) \<Rightarrow> walk_entry list \<Rightarrow>
     ('k, 'v) btreemap \<Rightarrow> ('k, 'v) btreemap \<Rightarrow> ('k, 'v) btreemap \<times> ('v option, scan_error) result"
where
  "get_or_load transform key_func is_ready entries before locked =
     (case first_ready is_ready before of
        Some v \<Rightarrow> (before, Ok (Some v))
      | None \<Rightarrow>
          (case first_ready is_ready locked of
             Some v \<Rightarrow> (locked, Ok (Some v))
           | None \<Rightarrow>
               (let (m, r) = load transform key_func entries locked
                in (m, and_then r (\<lambda>_. Ok (bt_first m))))))"

section \<open>Specification\<close>

text \<open>The keyed files of a walk, in its order, and when a walk is readable.\<close>

definition keyed_files :: "(string \<Rightarrow> 'k option) \<Rightarrow> walk_entry list \<Rightarrow> ('k \<times> string) list" where
  "keyed_files key_func entries =
     List.map_filter (\<lambda>e. case e of
         RegularFile path (Content c) \<Rightarrow> map_option (\<lambda>k. (k, c)) (key_func path) | _ \<Rightarrow> None) entries"

definition entry_readable :: "(string \<Rightarrow> 'v option) \<Rightarrow> (string \<Rightarrow> 'k option) \<Rightarrow> walk_entry \<Rightarrow> bool" where
  "entry_readable transform key_func e =
     (case e of
        WalkFailed \<Rightarrow> False
      | RegularFile path r \<Rightarrow>
          key_func path = None \<or>
          (case r of ReadFailed \<Rightarrow> False | ReadNotFound \<Rightarrow> True | Content c \<Rightarrow> transform c \<noteq> None)
      | _ \<Rightarrow> True)"

section \<open>Lemmas\<close>

lemma bt_get_insert: "bt_get (bt_insert k v m) k' = (if k' = k then Some v else bt_get m k')"
  unfolding bt_get_def by (induction k v m rule: bt_insert.induct) auto

lemma bt_insert_keys: "fst ` set (bt_insert k v m) = insert k (fst ` set m)"
  by (induction k v m rule: bt_insert.induct) auto

interpretation bt: hash_map bt_get bt_insert bt_remove bt_wf "\<lambda>m. m"
proof unfold_locales
  fix k k' :: "'a::linorder" and v :: 'b and m :: "('a, 'b) btreemap"
  show "bt_get (bt_insert k v m) k' = (if k' = k then Some v else bt_get m k')" by (rule bt_get_insert)
  show "bt_get (bt_remove k m) k' = (if k' = k then None else bt_get m k')"
    unfolding bt_get_def bt_remove_def by (induction m) auto
  show "bt_wf m \<Longrightarrow> bt_wf (bt_remove k m)"
    by (induction m) (auto simp: bt_wf_def bt_remove_def)
  show "bt_wf m \<Longrightarrow> bt_wf (bt_insert k v m)"
  proof (induction k v m rule: bt_insert.induct)
    case (2 k v k' v' m)
    then show ?case using bt_insert_keys [of k v m] by (fastforce simp: bt_wf_def)
  qed (simp add: bt_wf_def)
  show "bt_wf m \<Longrightarrow> ((k, v) \<in> set m) = (bt_get m k = Some v)"
    unfolding bt_wf_def bt_get_def by (metis map_of_eq_Some_iff strict_sorted_iff strict_sorted_imp_sorted)
qed

lemma keyed_files_simps [simp]:
  "keyed_files kf [] = []"
  "keyed_files kf (e # es) =
     (case e of RegularFile path (Content c) \<Rightarrow> (case kf path of None \<Rightarrow> [] | Some k \<Rightarrow> [(k, c)]) | _ \<Rightarrow> []) @
     keyed_files kf es"
  by (auto simp: keyed_files_def map_filter_simps split: walk_entry.splits file_read.splits option.splits)

lemma scan_loop_spec:
  "case scan_loop t kf es m of
     Inl _ \<Rightarrow> \<not> list_all (entry_readable t kf) es
   | Inr m' \<Rightarrow> list_all (entry_readable t kf) es \<and> (bt_wf m \<longrightarrow> bt_wf m') \<and>
       (\<forall>k. bt_get m' k = (case bt_get m k of Some v \<Rightarrow> Some v | None \<Rightarrow> Option.bind (map_of (keyed_files kf es) k) t))"
proof (induction es arbitrary: m)
  case (Cons e es)
  show ?case
  proof (cases "entry_readable t kf e")
    case False
    then show ?thesis
      by (auto simp: entry_readable_def split: walk_entry.splits file_read.splits option.splits)
  next
    case True
    show ?thesis
    proof (cases "\<exists>path c k v. e = RegularFile path (Content c) \<and> kf path = Some k \<and> t c = Some v")
      case hit: True
      then obtain path c k v where e: "e = RegularFile path (Content c)" "kf path = Some k" "t c = Some v" by blast
      define n where "n = (if bt_get m k = None then bt_insert k v m else m)"
      have step: "scan_loop t kf (e # es) m = scan_loop t kf es n" by (simp add: e n_def)
      have "bt_wf m \<longrightarrow> bt_wf n" by (simp add: n_def bt.wf_ins)
      moreover have "bt_get n k' = (case bt_get m k' of Some v \<Rightarrow> Some v | None \<Rightarrow> if k' = k then Some v else None)" for k'
        by (auto simp: n_def bt_get_insert split: option.splits)
      ultimately show ?thesis
        using Cons.IH [of n] True e unfolding step
        by (cases "scan_loop t kf es n") (auto split: option.splits)
    next
      case skip: False
      then have step: "scan_loop t kf (e # es) m = scan_loop t kf es m" "keyed_files kf (e # es) = keyed_files kf es"
        using True by (auto simp: entry_readable_def split: walk_entry.splits file_read.splits option.splits)
      show ?thesis using Cons.IH [of m] True unfolding step by (auto split: sum.splits)
    qed
  qed
qed (simp split: option.splits)

text \<open>
  A scan succeeds exactly when every keyed file is readable and valid; the snapshot then holds, for each
  key, the value of the first file of the walk with that key.
\<close>

lemma scan_spec:
  "case scan t kf es of
     Inl _ \<Rightarrow> \<not> list_all (entry_readable t kf) es
   | Inr m \<Rightarrow> list_all (entry_readable t kf) es \<and> bt_wf m \<and>
       (\<forall>k. bt_get m k = Option.bind (map_of (keyed_files kf es) k) t)"
  using scan_loop_spec [of t kf es "[]"] by (auto simp: scan_def bt_wf_def bt_get_def split: sum.splits)

lemma bt_first_least:
  assumes "bt_wf m" "bt_first m = Some v"
  shows "\<exists>k. bt_get m k = Some v \<and> (\<forall>k' v'. bt_get m k' = Some v' \<longrightarrow> k \<le> k')"
proof -
  obtain k m' where m: "m = (k, v) # m'" using assms(2) by (auto simp: bt_first_def split: list.splits)
  have "k \<le> k'" if "bt_get m k' = Some v'" for k' v'
    using that assms(1) m bt.entries_get [OF assms(1), of k' v'] by (auto simp: bt_wf_def)
  then show ?thesis using m by (auto simp: bt_get_def)
qed

end
