(* ===== verification/AddrText.thy ===== *)
theory AddrText
  imports Net
begin

text \<open>
  The text of socket addresses, as \<open>std::net\<close> prints and parses it (\<open>Display\<close> and \<open>FromStr\<close> of
  \<open>SocketAddr\<close>): the form in which an HBONE target travels in the authority of a CONNECT request. A
  parser takes the input and returns what it read with the rest of the input. Flow information and
  scope identifiers are not part of the model's socket addresses: the parser accepts a scope and drops it.
\<close>

section \<open>Printing\<close>

definition hex_char :: "nat \<Rightarrow> char" where
  "hex_char d = (if d < 10 then char_of (48 + d) else char_of (87 + d))"

fun show_hex :: "nat \<Rightarrow> string" where
  "show_hex n = (if n < 16 then [hex_char n] else show_hex (n div 16) @ [hex_char (n mod 16)])"

declare show_hex.simps [simp del]

definition ipv4_display :: "u32 \<Rightarrow> string" where
  "ipv4_display x = join ''.'' [octet 3 x, octet 2 x, octet 1 x, octet 0 x]"

definition segments :: "u128 \<Rightarrow> u16 list" where
  "segments x = map (\<lambda>k. ucast (drop_bit (16 * k) x)) [7, 6, 5, 4, 3, 2, 1, 0]"

definition from_segments :: "u16 list \<Rightarrow> u128" where
  "from_segments gs = foldl (\<lambda>acc g. push_bit 16 acc OR ucast g) 0 gs"

definition show_groups :: "u16 list \<Rightarrow> string" where
  "show_groups gs = join '':'' (map (\<lambda>g. show_hex (unat g)) gs)"

text \<open>The first of the longest runs of zero segments: start and length.\<close>

fun zero_run :: "nat \<Rightarrow> nat \<times> nat \<Rightarrow> nat \<times> nat \<Rightarrow> u16 list \<Rightarrow> nat \<times> nat" where
  "zero_run i current longest [] = longest"
| "zero_run i current longest (g # gs) =
     (if g = 0 then
        (let cur = (if snd current = 0 then (i, 1) else (fst current, Suc (snd current)))
         in zero_run (Suc i) cur (if snd cur > snd longest then cur else longest) gs)
      else zero_run (Suc i) (0, 0) longest gs)"

definition ipv6_display :: "u128 \<Rightarrow> string" where
  "ipv6_display x =
     (if take 6 (segments x) = [0, 0, 0, 0, 0, 0xFFFF] then ''::ffff:'' @ ipv4_display (ucast x)
      else let (start, len) = zero_run 0 (0, 0) (0, 0) (segments x) in
        if len > 1
        then show_groups (take start (segments x)) @ ''::'' @ show_groups (drop (start + len) (segments x))
        else show_groups (segments x))"

definition sock_display :: "SocketAddr \<Rightarrow> string" where
  "sock_display a =
     (case sock_ip a of V4 x \<Rightarrow> ipv4_display x | V6 x \<Rightarrow> ''['' @ ipv6_display x @ '']'') @ '':'' @
       show_nat (unat (sock_port a))"

section \<open>Parsing\<close>

definition char_digit :: "int \<Rightarrow> char \<Rightarrow> int option" where
  "char_digit radix c =
     (let n = of_char c :: int;
          d = (if 48 \<le> n \<and> n \<le> 57 then Some (n - 48)
               else if 97 \<le> n \<and> n \<le> 122 then Some (n - 87)
               else if 65 \<le> n \<and> n \<le> 90 then Some (n - 55) else None)
      in Option.bind d (\<lambda>k. if k < radix then Some k else None))"

fun digits_value :: "int \<Rightarrow> int \<Rightarrow> string \<Rightarrow> int" where
  "digits_value radix acc [] = acc"
| "digits_value radix acc (c # cs) = digits_value radix (radix * acc + (case char_digit radix c of None \<Rightarrow> 0 | Some d \<Rightarrow> d)) cs"

text \<open>\<open>Parser::read_number\<close>: all digits that follow, within the digit count and below the bound.\<close>

definition read_number :: "int \<Rightarrow> nat option \<Rightarrow> bool \<Rightarrow> int \<Rightarrow> string \<Rightarrow> (int \<times> string) option" where
  "read_number radix max_digits allow_zero_prefix bound s =
     (let ds = takeWhile (\<lambda>c. char_digit radix c \<noteq> None) s; v = digits_value radix 0 ds in
      if ds = [] \<or> (case max_digits of None \<Rightarrow> False | Some m \<Rightarrow> length ds > m) \<or>
         (\<not> allow_zero_prefix \<and> hd ds = CHR ''0'' \<and> length ds > 1) \<or> v \<ge> bound
      then None else Some (v, dropWhile (\<lambda>c. char_digit radix c \<noteq> None) s))"

fun read_given_char :: "char \<Rightarrow> string \<Rightarrow> string option" where
  "read_given_char c [] = None"
| "read_given_char c (x # xs) = (if x = c then Some xs else None)"

definition read_separator :: "char \<Rightarrow> nat \<Rightarrow> (string \<Rightarrow> ('a \<times> string) option) \<Rightarrow> string \<Rightarrow> ('a \<times> string) option" where
  "read_separator sep index inner s = (if index > 0 then Option.bind (read_given_char sep s) inner else inner s)"

fun read_octets :: "nat \<Rightarrow> nat \<Rightarrow> string \<Rightarrow> (int list \<times> string) option" where
  "read_octets 0 i s = Some ([], s)"
| "read_octets (Suc k) i s =
     (case read_separator (CHR ''.'') i (read_number 10 (Some 3) False 256) s of
        None \<Rightarrow> None
      | Some (v, r) \<Rightarrow> map_option (\<lambda>(vs, r'). (v # vs, r')) (read_octets k (Suc i) r))"

definition read_ipv4 :: "string \<Rightarrow> (u32 \<times> string) option" where
  "read_ipv4 s =
     map_option (\<lambda>(vs, r). (foldl (\<lambda>acc v. push_bit 8 acc OR of_int v) 0 vs, r)) (read_octets 4 0 s)"

text \<open>\<open>read_groups\<close> with the number of groups still wanted; an IPv4 part needs two of them.\<close>

fun read_groups :: "nat \<Rightarrow> nat \<Rightarrow> string \<Rightarrow> u16 list \<times> bool \<times> string" where
  "read_groups 0 i s = ([], False, s)"
| "read_groups (Suc k) i s =
     (case (if k > 0 then read_separator (CHR '':'') i read_ipv4 s else None) of
        Some (v4, r) \<Rightarrow> ([ucast (drop_bit 16 v4), ucast v4], True, r)
      | None \<Rightarrow>
          (case read_separator (CHR '':'') i (read_number 16 (Some 4) True 65536) s of
             None \<Rightarrow> ([], False, s)
           | Some (g, r) \<Rightarrow> (let (gs, v4, r') = read_groups k (Suc i) r in (of_int g # gs, v4, r'))))"

definition read_ipv6 :: "string \<Rightarrow> (u128 \<times> string) option" where
  "read_ipv6 s =
     (let (front, front_v4, r) = read_groups 8 0 s in
      if length front = 8 then Some (from_segments front, r)
      else if front_v4 then None
      else Option.bind (read_given_char (CHR '':'') r) (\<lambda>r1.
        Option.bind (read_given_char (CHR '':'') r1) (\<lambda>r2.
          let (back, _, r3) = read_groups (8 - (length front + 1)) 0 r2
          in Some (from_segments (front @ replicate (8 - length front - length back) 0 @ back), r3))))"

definition read_port :: "string \<Rightarrow> (u16 \<times> string) option" where
  "read_port s = Option.bind (read_given_char (CHR '':'') s)
     (\<lambda>r. map_option (\<lambda>(v, r'). (of_int v, r')) (read_number 10 None True 65536 r))"

definition skip_scope_id :: "string \<Rightarrow> string" where
  "skip_scope_id s =
     (case Option.bind (read_given_char (CHR ''%'') s) (read_number 10 None True (2 ^ 32)) of
        None \<Rightarrow> s | Some (_, r) \<Rightarrow> r)"

definition read_sock_v4 :: "string \<Rightarrow> (SocketAddr \<times> string) option" where
  "read_sock_v4 s = Option.bind (read_ipv4 s) (\<lambda>(x, r).
     map_option (\<lambda>(p, r'). (socket_addr (V4 x) p, r')) (read_port r))"

definition read_sock_v6 :: "string \<Rightarrow> (SocketAddr \<times> string) option" where
  "read_sock_v6 s = Option.bind (read_given_char (CHR ''['') s) (\<lambda>r. Option.bind (read_ipv6 r) (\<lambda>(x, r1).
     Option.bind (read_given_char (CHR '']'') (skip_scope_id r1)) (\<lambda>r2.
       map_option (\<lambda>(p, r3). (socket_addr (V6 x) p, r3)) (read_port r2))))"

definition parse_sock :: "string \<Rightarrow> SocketAddr option" where
  "parse_sock s =
     (case (case read_sock_v4 s of None \<Rightarrow> read_sock_v6 s | r \<Rightarrow> r) of
        Some (a, []) \<Rightarrow> Some a | _ \<Rightarrow> None)"

definition ends_number :: "int \<Rightarrow> string \<Rightarrow> bool" where
  "ends_number radix rest = (rest = [] \<or> char_digit radix (hd rest) = None)"

text \<open>The groups from position \<open>i\<close> on, each after its separator, and what may follow them.\<close>

fun sep_groups :: "nat \<Rightarrow> u16 list \<Rightarrow> string" where
  "sep_groups i [] = []"
| "sep_groups i (g # gs) = (if i > 0 then '':'' else []) @ show_hex (unat g) @ sep_groups (Suc i) gs"

definition ends_groups :: "string \<Rightarrow> bool" where
  "ends_groups rest = (rest = [] \<or> hd rest = CHR '']'' \<or> prefix ''::'' rest)"

definition zeros_at :: "u16 list \<Rightarrow> nat \<times> nat \<Rightarrow> bool" where
  "zeros_at gs run = (fst run + snd run \<le> length gs \<and> (\<forall>j < snd run. gs ! (fst run + j) = 0))"

section \<open>Lemmas\<close>

subsection \<open>Numbers\<close>

lemma of_char_char_of: "(of_char (char_of (n::nat)) :: int) = int (n mod 256)"
  by (metis of_char_of of_nat_of_char)

lemma char_digit_hex: "d < 16 \<Longrightarrow> char_digit 16 (hex_char d) = Some (int d)"
  by (auto simp: hex_char_def char_digit_def of_char_char_of Let_def)

lemma char_digit_dec: "d < 10 \<Longrightarrow> char_digit 10 (digit_char d) = Some (int d)"
  by (auto simp: digit_char_def char_digit_def of_char_char_of Let_def)

lemma char_digit_punct [simp]:
  "c \<in> {CHR ''.'', CHR '':'', CHR ''['', CHR '']'', CHR ''%'', CHR ''-''} \<Longrightarrow> char_digit 16 c = None"
  "c \<in> {CHR ''.'', CHR '':'', CHR ''['', CHR '']'', CHR ''%'', CHR ''-''} \<Longrightarrow> char_digit 10 c = None"
  by (auto simp: char_digit_def)

lemma digits_value_append:
  "digits_value r acc (xs @ ys) = digits_value r (digits_value r acc xs) ys"
  by (induction xs arbitrary: acc) simp_all

lemma show_hex_digits: "c \<in> set (show_hex n) \<Longrightarrow> char_digit 16 c \<noteq> None"
proof (induction n rule: show_hex.induct)
  case (1 n)
  then show ?case by (cases "n < 16") (auto simp: show_hex.simps [of n] char_digit_hex)
qed

lemma show_hex_value: "digits_value 16 0 (show_hex n) = int n"
proof (induction n rule: show_hex.induct)
  case (1 n)
  show ?case
  proof (cases "n < 16")
    case False
    then show ?thesis using 1
      by (subst show_hex.simps) (simp add: digits_value_append char_digit_hex zdiv_int zmod_int)
  qed (simp add: show_hex.simps [of n] char_digit_hex)
qed

lemma show_hex_length: "n < 16 ^ k \<Longrightarrow> k > 0 \<Longrightarrow> length (show_hex n) \<le> k"
proof (induction n arbitrary: k rule: show_hex.induct)
  case (1 n)
  show ?case
  proof (cases "n < 16")
    case False
    obtain j where "k = Suc j" using 1(3) by (cases k) auto
    moreover from this have "j > 0" using 1(2) False by (cases j) auto
    ultimately show ?thesis
      using 1(1) [OF False, of j] 1(2) by (subst show_hex.simps) (auto simp: less_mult_imp_div_less)
  qed (use 1(3) in \<open>simp add: show_hex.simps [of n]\<close>)
qed

lemma show_hex_not_Nil [simp]: "show_hex n \<noteq> []"
  by (subst show_hex.simps) simp

lemma show_nat_digit_chars: "c \<in> set (show_nat n) \<Longrightarrow> char_digit 10 c \<noteq> None"
  using show_nat_digits [of n] char_digit_dec by auto

lemma show_nat_value: "digits_value 10 0 (show_nat n) = int n"
proof (induction n rule: show_nat.induct)
  case (1 n)
  show ?case
  proof (cases "n < 10")
    case False
    then show ?thesis using 1
      by (subst show_nat.simps) (simp add: digits_value_append char_digit_dec zdiv_int zmod_int)
  qed (simp add: show_nat.simps [of n] char_digit_dec)
qed

lemma show_nat_length: "n < 10 ^ k \<Longrightarrow> k > 0 \<Longrightarrow> length (show_nat n) \<le> k"
proof (induction n arbitrary: k rule: show_nat.induct)
  case (1 n)
  show ?case
  proof (cases "n < 10")
    case False
    obtain j where "k = Suc j" using 1(3) by (cases k) auto
    moreover from this have "j > 0" using 1(2) False by (cases j) auto
    ultimately show ?thesis
      using 1(1) [OF False, of j] 1(2) by (subst show_nat.simps) (auto simp: less_mult_imp_div_less)
  qed (use 1(3) in \<open>simp add: show_nat.simps [of n]\<close>)
qed

lemma show_nat_no_zero_prefix: "n > 0 \<Longrightarrow> hd (show_nat n) \<noteq> CHR ''0''"
proof (induction n rule: show_nat.induct)
  case (1 n)
  show ?case
  proof (cases "n < 10")
    case True
    have "char_digit 10 (CHR ''0'') = Some 0" by (simp add: char_digit_def)
    with True 1(2) char_digit_dec [of n] show ?thesis by (auto simp: show_nat.simps [of n])
  next
    case False
    with 1 show ?thesis by (subst show_nat.simps) (simp add: hd_append)
  qed
qed

lemma takeWhile_dropWhile_prefix:
  assumes "\<forall>c \<in> set xs. P c" "ys = [] \<or> \<not> P (hd ys)"
  shows "takeWhile P (xs @ ys) = xs" "dropWhile P (xs @ ys) = ys"
proof -
  have "takeWhile P ys = []" "dropWhile P ys = ys" using assms(2) by (cases ys; simp)+
  with assms(1) show "takeWhile P (xs @ ys) = xs" "dropWhile P (xs @ ys) = ys" by simp_all
qed

lemma read_number_digits:
  assumes "\<forall>c \<in> set ds. char_digit r c \<noteq> None" "ends_number r rest" "ds \<noteq> []"
  shows "read_number r m z b (ds @ rest) =
    (if (case m of None \<Rightarrow> False | Some k \<Rightarrow> length ds > k) \<or> (\<not> z \<and> hd ds = CHR ''0'' \<and> length ds > 1) \<or>
        digits_value r 0 ds \<ge> b
     then None else Some (digits_value r 0 ds, rest))"
proof -
  note split = takeWhile_dropWhile_prefix [where P = "\<lambda>c. char_digit r c \<noteq> None" and xs = ds and ys = rest]
  have "takeWhile (\<lambda>c. char_digit r c \<noteq> None) (ds @ rest) = ds"
      "dropWhile (\<lambda>c. char_digit r c \<noteq> None) (ds @ rest) = rest"
    using split assms(1,2) by (auto simp: ends_number_def)
  with assms(3) show ?thesis unfolding read_number_def Let_def by presburger
qed

lemma read_octet:
  assumes "n < 256" "ends_number 10 rest"
  shows "read_number 10 (Some 3) False 256 (show_nat n @ rest) = Some (int n, rest)"
proof -
  have "length (show_nat n) \<le> 3" using assms(1) by (intro show_nat_length) auto
  moreover have "hd (show_nat n) = CHR ''0'' \<Longrightarrow> length (show_nat n) = 1"
    using show_nat_no_zero_prefix [of n] by (cases "n = 0") (auto simp: show_nat.simps)
  ultimately show ?thesis
    using assms show_nat_digit_chars by (subst read_number_digits) (auto simp: show_nat_value)
qed

lemma read_group:
  assumes "n < 65536" "ends_number 16 rest"
  shows "read_number 16 (Some 4) True 65536 (show_hex n @ rest) = Some (int n, rest)"
proof -
  have "length (show_hex n) \<le> 4" using assms(1) by (intro show_hex_length) auto
  then show ?thesis
    using assms show_hex_digits by (subst read_number_digits) (auto simp: show_hex_value)
qed

lemma read_port_display: "read_port (CHR '':'' # show_nat (unat (p::u16))) = Some (p, [])"
proof -
  have "uint p < 65536" using uint_bounded [of p] by simp
  then have "read_number 10 None True 65536 (show_nat (unat p) @ []) = Some (int (unat p), [])"
    using show_nat_digit_chars
    by (subst read_number_digits) (auto simp: show_nat_value ends_number_def)
  then show ?thesis by (simp add: read_port_def)
qed

subsection \<open>IPv4 addresses\<close>

lemma ends_number_punct [simp]:
  "ends_number r []"
  "ends_number 10 (CHR ''.'' # s)" "ends_number 10 (CHR '':'' # s)" "ends_number 10 (CHR '']'' # s)"
  "ends_number 16 (CHR ''.'' # s)" "ends_number 16 (CHR '':'' # s)" "ends_number 16 (CHR '']'' # s)"
  by (simp_all add: ends_number_def)

lemma octets_word:
  "push_bit 8 (push_bit 8 (push_bit 8 (take_bit 8 (drop_bit 24 x)) OR take_bit 8 (drop_bit 16 x)) OR
     take_bit 8 (drop_bit 8 x)) OR take_bit 8 (x::u32) = x"
proof (rule bit_word_eqI)
  fix n assume "n < LENGTH(32)"
  then consider "n < 8" | "8 \<le> n" "n < 16" | "16 \<le> n" "n < 24" | "24 \<le> n" "n < 32" by fastforce
  then show "bit (push_bit 8 (push_bit 8 (push_bit 8 (take_bit 8 (drop_bit 24 x)) OR take_bit 8 (drop_bit 16 x)) OR
     take_bit 8 (drop_bit 8 x)) OR take_bit 8 x) n = bit x n"
    by cases (simp_all add: bit_simps less_diff_conv2)
qed

lemma read_octets_4:
  "read_octets 4 i s = read_octets (Suc (Suc (Suc (Suc 0)))) i s" "read_octets 3 i s = read_octets (Suc (Suc (Suc 0))) i s"
  by (simp_all add: numeral_eq_Suc)

lemma read_ipv4_display:
  assumes "ends_number 10 rest"
  shows "read_ipv4 (ipv4_display x @ rest) = Some (x, rest)"
proof -
  let ?o = "\<lambda>k. take_bit 8 (drop_bit k x)"
  have lt: "unat (?o k) < 256" for k
    using take_bit_nat_less_exp [of 8 "unat (drop_bit k x)"] by (simp add: unsigned_take_bit_eq)
  have "read_octets 4 0 (ipv4_display x @ rest) =
      Some ([int (unat (?o 24)), int (unat (?o 16)), int (unat (?o 8)), int (unat (?o 0))], rest)"
    using assms unfolding read_octets_4
    by (simp add: read_separator_def ipv4_display_def octet_def read_octet lt del: of_nat_unat) (simp add: read_octet [OF lt [of 0, simplified]])
  then show ?thesis
    using octets_word [of x] by (simp add: read_ipv4_def)
qed

lemma read_ipv4_SomeD:
  assumes "read_ipv4 s = Some y"
  shows "\<exists>ds r. s = ds @ CHR ''.'' # r \<and> (\<forall>c \<in> set ds. char_digit 10 c \<noteq> None)"
proof -
  let ?P = "\<lambda>c. char_digit 10 c \<noteq> None"
  obtain v r where one: "read_number 10 (Some 3) False 256 s = Some (v, r)" and two: "read_octets 3 (Suc 0) r \<noteq> None"
    using assms unfolding read_ipv4_def read_octets_4 by (auto simp: read_separator_def split: option.splits)
  from one have r: "r = dropWhile ?P s" by (auto simp: read_number_def Let_def split: if_splits)
  from two obtain r' where "r = CHR ''.'' # r'"
    unfolding read_octets_4 by (cases r) (auto simp: read_separator_def split: if_splits)
  with r have "s = takeWhile ?P s @ CHR ''.'' # r'" by (metis takeWhile_dropWhile_id)
  moreover have "\<forall>c \<in> set (takeWhile ?P s). ?P c" by (auto dest: set_takeWhileD)
  ultimately show ?thesis by blast
qed

subsection \<open>IPv6 addresses\<close>

lemma show_groups_sep: "show_groups gs = sep_groups 0 gs"
proof -
  have *: "sep_groups (Suc i) gs = concat (map (\<lambda>g. CHR '':'' # show_hex (unat g)) gs)" for i gs
    by (induction gs arbitrary: i) simp_all
  have "join '':'' (x # xs) = x @ concat (map (\<lambda>y. CHR '':'' # y) xs)" for x xs
    by (induction xs arbitrary: x) simp_all
  then show ?thesis
    by (cases gs) (simp_all add: show_groups_def * comp_def)
qed

lemma ends_groups_number: "ends_groups rest \<Longrightarrow> ends_number 16 rest"
  by (cases rest) (auto simp: ends_groups_def ends_number_def)

lemma no_digits:
  assumes "s = [] \<or> char_digit r (hd s) = None"
  shows "read_number r m z b s = None"
  using assms by (cases s) (auto simp: read_number_def)

lemma char_digit_10_16: "char_digit 10 c \<noteq> None \<Longrightarrow> char_digit 16 c \<noteq> None"
  by (auto simp: char_digit_def Let_def split: if_splits)

lemma read_ipv4_none:
  assumes "s = [] \<or> char_digit 10 (hd s) = None"
  shows "read_ipv4 s = None"
  using no_digits [OF assms] unfolding read_ipv4_def read_octets_4 by (simp add: read_separator_def)

lemma read_ipv4_group:
  assumes "ends_number 16 rest" "rest = [] \<or> hd rest \<noteq> CHR ''.''"
  shows "read_ipv4 (show_hex n @ rest) = None"
proof (rule ccontr)
  let ?P = "\<lambda>c. char_digit 16 c \<noteq> None"
  assume "read_ipv4 (show_hex n @ rest) \<noteq> None"
  then obtain ds r where eq: "show_hex n @ rest = ds @ CHR ''.'' # r" and ds: "\<forall>c \<in> set ds. char_digit 10 c \<noteq> None"
    using read_ipv4_SomeD by blast
  have "dropWhile ?P (show_hex n @ rest) = rest"
    by (rule takeWhile_dropWhile_prefix) (use assms(1) show_hex_digits in \<open>auto simp: ends_number_def\<close>)
  moreover have "dropWhile ?P (ds @ CHR ''.'' # r) = CHR ''.'' # r"
    by (rule takeWhile_dropWhile_prefix) (use ds char_digit_10_16 in auto)
  ultimately show False using assms(2) eq by auto
qed

lemma sep_groups_ends:
  assumes "ends_groups rest"
  shows "ends_number 16 (sep_groups (Suc i) gs @ rest)"
    "sep_groups (Suc i) gs @ rest = [] \<or> hd (sep_groups (Suc i) gs @ rest) \<noteq> CHR ''.''"
  using assms by (cases gs; cases rest; auto simp: ends_groups_def ends_number_def)+

lemma read_groups_stop:
  assumes "ends_groups rest"
  shows "read_groups k i rest = ([], False, rest)"
proof -
  have "read_separator (CHR '':'') i read_ipv4 rest = None"
    "read_separator (CHR '':'') i (read_number 16 (Some 4) True 65536) rest = None"
    using assms by (auto simp: read_separator_def ends_groups_def prefix_def intro!: read_ipv4_none no_digits)
      (cases rest; auto intro!: read_ipv4_none no_digits)+
  then show ?thesis by (cases k) auto
qed

lemma read_groups_sep:
  assumes "ends_groups rest" "length gs \<le> k"
  shows "read_groups k i (sep_groups i gs @ rest) = (gs, False, rest)"
  using assms(2)
proof (induction gs arbitrary: k i)
  case Nil
  then show ?case using read_groups_stop [OF assms(1)] by simp
next
  case (Cons g gs)
  then obtain k' where k: "k = Suc k'" "length gs \<le> k'" by (cases k) auto
  let ?rest = "sep_groups (Suc i) gs @ rest"
  note ends = sep_groups_ends [OF assms(1), of i gs]
  have "unat g < 65536" using unsigned_less [of g, where 'a = nat] by simp
  then have one: "read_number 16 (Some 4) True 65536 (show_hex (unat g) @ ?rest) = Some (int (unat g), ?rest)"
    by (rule read_group [OF _ ends(1)])
  have "read_separator (CHR '':'') i read_ipv4 (sep_groups i (g # gs) @ rest) = None"
      "read_separator (CHR '':'') i (read_number 16 (Some 4) True 65536) (sep_groups i (g # gs) @ rest) =
       Some (int (unat g), ?rest)"
    using read_ipv4_group [OF ends] one by (auto simp: read_separator_def)
  with Cons.IH [OF k(2)] k(1) show ?case by (auto simp del: sep_groups.simps(2))
qed

lemma zero_run_zeros:
  assumes "zeros_at (pre @ gs) longest" "zeros_at (pre @ gs) current"
    "snd current > 0 \<Longrightarrow> fst current + snd current = length pre"
  shows "zeros_at (pre @ gs) (zero_run (length pre) current longest gs)"
  using assms
proof (induction gs arbitrary: pre current longest)
  case (Cons g gs)
  have pre: "pre @ g # gs = (pre @ [g]) @ gs" "Suc (length pre) = length (pre @ [g])" by simp_all
  show ?case
  proof (cases "g = 0")
    case True
    let ?cur = "if snd current = 0 then (length pre, 1) else (fst current, Suc (snd current))"
    have cur: "zeros_at (pre @ g # gs) ?cur" "fst ?cur + snd ?cur = Suc (length pre)"
      using Cons.prems(2,3) True by (auto simp: zeros_at_def less_Suc_eq)
    then show ?thesis
      using Cons.IH [of "pre @ [g]" "if snd ?cur > snd longest then ?cur else longest" ?cur] Cons.prems(1) True
      by (auto simp: Let_def)
  next
    case False
    then show ?thesis
      using Cons.IH [of "pre @ [g]" longest "(0, 0)"] Cons.prems(1) by (auto simp: zeros_at_def)
  qed
qed simp

lemma zeros_rebuild:
  assumes "zeros_at gs (start, len)"
  shows "take start gs @ replicate (length gs - start - (length gs - (start + len))) 0 @ drop (start + len) gs = gs"
proof (rule nth_equalityI)
  fix i assume "i < length (take start gs @ replicate (length gs - start - (length gs - (start + len))) 0 @ drop (start + len) gs)"
  then have i: "i < length gs" using assms by (auto simp: zeros_at_def)
  then have "i < start \<or> (\<exists>j < len. i = start + j) \<or> (\<exists>j. i = start + len + j)"
    by (metis add.assoc le_add_diff_inverse linorder_not_less nat_add_left_cancel_less)
  then show "(take start gs @ replicate (length gs - start - (length gs - (start + len))) 0 @ drop (start + len) gs) ! i = gs ! i"
    using assms i by (auto simp: zeros_at_def nth_append)
qed (use assms in \<open>auto simp: zeros_at_def\<close>)

lemma segments_length [simp]: "length (segments x) = 8"
  by (simp add: segments_def)

lemma from_segments_bit:
  "bit (from_segments gs) n \<longleftrightarrow> n < 128 \<and> n div 16 < length gs \<and> bit (rev gs ! (n div 16)) (n mod 16)"
proof (induction gs arbitrary: n rule: rev_induct)
  case (snoc g gs)
  have "from_segments (gs @ [g]) = push_bit 16 (from_segments gs) OR ucast g" by (simp add: from_segments_def)
  then have "bit (from_segments (gs @ [g])) n \<longleftrightarrow>
      (16 \<le> n \<and> n < 128 \<and> bit (from_segments gs) (n - 16)) \<or> (n < 16 \<and> bit g n)"
    by (auto simp: bit_simps dest: bit_imp_le_length)
  also have "\<dots> \<longleftrightarrow> n < 128 \<and> n div 16 < length (gs @ [g]) \<and> bit (rev (gs @ [g]) ! (n div 16)) (n mod 16)"
    using snoc [of "n - 16"] by (cases "n < 16") (auto simp: le_div_geq le_mod_geq)
  finally show ?case .
qed (simp add: from_segments_def)

lemma from_segments_segments [simp]: "from_segments (segments x) = x"
proof (rule bit_word_eqI)
  fix n assume "n < LENGTH(128)"
  then have n: "n div 16 < 8" "n < 128" by auto
  have seg: "rev (segments x) ! k = ucast (drop_bit (16 * k) x)" if "k < 8" for k
  proof -
    have "rev (segments x) = map (\<lambda>k. ucast (drop_bit (16 * k) x)) [0..<8]"
      by (simp add: segments_def upt_rec)
    with that show ?thesis by simp
  qed
  show "bit (from_segments (segments x)) n = bit x n"
    using n by (simp add: from_segments_bit seg bit_simps)
qed

lemma read_ipv6_full:
  assumes "ends_groups rest"
  shows "read_ipv6 (show_groups (segments x) @ rest) = Some (x, rest)"
  unfolding read_ipv6_def show_groups_sep using read_groups_sep [OF assms, of "segments x" 8 0] by simp

lemma read_ipv6_compressed:
  assumes rest: "ends_groups rest" and run: "zeros_at (segments x) (start, len)" and len: "len > 1"
  shows "read_ipv6 (show_groups (take start (segments x)) @ ''::'' @ show_groups (drop (start + len) (segments x)) @ rest) =
    Some (x, rest)"
proof -
  let ?front = "take start (segments x)" and ?rebuilt = "drop (start + len) (segments x)"
  have le: "start + len \<le> 8" using run by (simp add: zeros_at_def)
  have "ends_groups (''::'' @ show_groups ?rebuilt @ rest)" by (simp add: ends_groups_def)
  from read_groups_sep [OF this, of ?front 8 0]
  have one: "read_groups 8 0 (sep_groups 0 ?front @ ''::'' @ show_groups ?rebuilt @ rest) =
      (?front, False, ''::'' @ show_groups ?rebuilt @ rest)"
    using le by simp
  have two: "read_groups (8 - (length ?front + 1)) 0 (show_groups ?rebuilt @ rest) = (?rebuilt, False, rest)"
    unfolding show_groups_sep by (rule read_groups_sep [OF rest]) (use le len in auto)
  have "length ?front \<noteq> 8" using le len by simp
  moreover have "?front @ replicate (8 - length ?front - length ?rebuilt) 0 @ ?rebuilt = segments x"
    using zeros_rebuild [OF run] le by (simp add: min_def)
  ultimately show ?thesis
    unfolding read_ipv6_def show_groups_sep [of ?front] one using two by (simp add: Let_def)
qed

lemma read_ipv6_mapped:
  assumes seg: "take 6 (segments x) = [0, 0, 0, 0, 0, 0xFFFF]" and rest: "ends_number 10 rest"
  shows "read_ipv6 (''::ffff:'' @ ipv4_display (ucast x) @ rest) = Some (x, rest)"
proof -
  let ?v4 = "ipv4_display (ucast x)"
  have one: "read_groups 8 0 (''::ffff:'' @ ?v4 @ rest) = ([], False, ''::ffff:'' @ ?v4 @ rest)"
    by (rule read_groups_stop) (simp add: ends_groups_def)
  have hex: "show_hex 65535 = ''ffff''" by (simp add: show_hex.simps hex_char_def char_of_def drop_bit_eq_div bit_0)
  have group: "read_number 16 (Some 4) True 65536 (''ffff:'' @ ?v4 @ rest) = Some (65535, CHR '':'' # ?v4 @ rest)"
    using read_group [of 65535 "CHR '':'' # ?v4 @ rest"] by (simp add: hex)
  have none: "read_ipv4 (''ffff:'' @ ?v4 @ rest) = None"
    by (rule read_ipv4_none) (simp add: char_digit_def)
  have six: "read_groups 6 (Suc 0) (CHR '':'' # ?v4 @ rest) =
      ([ucast (drop_bit 16 (ucast x :: u32)), ucast (ucast x :: u32)], True, rest)"
    using read_groups.simps(2) [of 5 "Suc 0" "CHR '':'' # ?v4 @ rest"] read_ipv4_display [OF rest, of "ucast x"]
    by (simp add: read_separator_def)
  then have two: "read_groups 7 0 (''ffff:'' @ ?v4 @ rest) =
      ([0xFFFF, ucast (drop_bit 16 (ucast x :: u32)), ucast (ucast x :: u32)], True, rest)"
    using read_groups.simps(2) [of 6 0 "''ffff:'' @ ?v4 @ rest"] group none by (simp add: read_separator_def)
  have "drop 6 (segments x) = [ucast (drop_bit 16 (ucast x :: u32)), ucast (ucast x :: u32)]"
    by (auto simp: segments_def intro!: bit_word_eqI simp: bit_simps)
  then have "segments x = [0, 0, 0, 0, 0, 0xFFFF, ucast (drop_bit 16 (ucast x :: u32)), ucast (ucast x :: u32)]"
    using seg append_take_drop_id [of 6 "segments x"] by simp
  also have "\<dots> = replicate 5 0 @ [0xFFFF, ucast (drop_bit 16 (ucast x :: u32)), ucast (ucast x :: u32)]"
    by (simp add: numeral_eq_Suc)
  finally have "from_segments (replicate 5 0 @ [0xFFFF, ucast (drop_bit 16 (ucast x :: u32)), ucast (ucast x :: u32)]) = x"
    by (metis from_segments_segments)
  with one two show ?thesis by (simp add: read_ipv6_def)
qed

lemma read_ipv6_display: "read_ipv6 (ipv6_display x @ CHR '']'' # rest) = Some (x, CHR '']'' # rest)"
proof -
  have rest: "ends_groups (CHR '']'' # rest)" by (simp add: ends_groups_def)
  have "zeros_at (segments x) (zero_run 0 (0, 0) (0, 0) (segments x))"
    using zero_run_zeros [of "[]" "segments x" "(0, 0)" "(0, 0)"] by (simp add: zeros_at_def)
  then show ?thesis
    using read_ipv6_mapped read_ipv6_compressed [OF rest] read_ipv6_full [OF rest]
    by (auto simp: ipv6_display_def split: prod.splits)
qed

text \<open>The text of a socket address reads back as the address, whatever form the IPv6 text takes.\<close>

lemma parse_sock_display: "parse_sock (sock_display a) = Some a"
proof (cases "sock_ip a")
  case (V4 x)
  have "read_sock_v4 (sock_display a) = Some (a, [])"
    using V4 read_port_display [of "sock_port a"]
    by (simp add: read_sock_v4_def sock_display_def read_ipv4_display socket_addr_def)
  then show ?thesis by (simp add: parse_sock_def)
next
  case (V6 x)
  have "read_ipv4 (sock_display a) = None"
    by (rule read_ipv4_none) (simp add: V6 sock_display_def)
  then have none: "read_sock_v4 (sock_display a) = None" by (simp add: read_sock_v4_def)
  have "read_sock_v6 (sock_display a) = Some (a, [])"
    using V6 read_port_display [of "sock_port a"]
    by (simp add: read_sock_v6_def sock_display_def read_ipv6_display skip_scope_id_def socket_addr_def)
  with none show ?thesis by (simp add: parse_sock_def)
qed

end
