(* ===== verification/ConnManager.thy ===== *)
theory ConnManager
  imports Xds AddrText
begin

text \<open>
  Tracking of open connections and their termination after a policy change,
  \<^verbatim>\<open>src/proxy/connection_manager.rs\<close> with \<^verbatim>\<open>src/drain.rs\<close>. A drain channel is an index of \<open>cm_channels\<close>; it has ended when
  its trigger was fired or dropped, so that \<open>wait_for_drain\<close> returns. Every operation runs
  under the lock of the manager and is one step; a connection goes through registration, authorization
  and the race between its own end and the drain, interleaved with updates of the proxy state and the
  steps of the policy watcher.
\<close>

section \<open>Drain channels\<close>

datatype DrainMode = Immediate | Graceful

text \<open>\<open>wait_for_drain\<close>: the signalled mode, or \<open>Immediate\<close> when the trigger was dropped without a signal.\<close>

datatype signal_state = NotSignalled | Signalled DrainMode | TriggerDropped

definition wait_for_drain :: "signal_state \<Rightarrow> DrainMode option" where
  "wait_for_drain st =
     (case st of NotSignalled \<Rightarrow> None | Signalled mode \<Rightarrow> Some mode | TriggerDropped \<Rightarrow> Some Immediate)"

section \<open>The connection manager\<close>

record OutboundAttributes =
  oa_actual_dst :: SocketAddr
  oa_protocol :: OutboundProtocol

record InboundAttributes =
  ia_dest_service :: "string option"

datatype ConnectionAttributes = InboundAttrs InboundAttributes | OutboundAttrs OutboundAttributes

record ConnectionContext =
  cc_rbac_ctx :: ProxyRbacContext
  cc_attributes :: ConnectionAttributes

record ConnectionDrain =
  cd_channel :: nat
  cd_count :: nat

record ConnectionManager =
  cm_drains :: "(ConnectionContext, ConnectionDrain) hashmap"
  cm_channels :: "signal_state list"

definition cm_default :: ConnectionManager where
  "cm_default = \<lparr>cm_drains = [], cm_channels = []\<rparr>"

text \<open>\<open>drain::new\<close>: the next channel.\<close>

definition ConnectionDrain_new :: "ConnectionManager \<Rightarrow> ConnectionManager \<times> ConnectionDrain" where
  "ConnectionDrain_new m =
     (m\<lparr>cm_channels := cm_channels m @ [NotSignalled]\<rparr>, \<lparr>cd_channel = length (cm_channels m), cd_count = 1\<rparr>)"

definition ended :: "ConnectionManager \<Rightarrow> nat \<Rightarrow> bool" where
  "ended m ch = (wait_for_drain (cm_channels m ! ch) \<noteq> None)"

text \<open>Dropping a trigger that was not fired, and firing it.\<close>

definition drop_trigger :: "nat \<Rightarrow> ConnectionManager \<Rightarrow> ConnectionManager" where
  "drop_trigger ch m =
     (if cm_channels m ! ch = NotSignalled then m\<lparr>cm_channels := (cm_channels m)[ch := TriggerDropped]\<rparr> else m)"

definition start_drain :: "DrainMode \<Rightarrow> nat \<Rightarrow> ConnectionManager \<Rightarrow> ConnectionManager" where
  "start_drain mode ch m = m\<lparr>cm_channels := (cm_channels m)[ch := Signalled mode]\<rparr>"

definition register :: "ConnectionContext \<Rightarrow> ConnectionManager \<Rightarrow> ConnectionManager \<times> nat" where
  "register c m =
     (case hm_get (cm_drains m) c of
        Some cd \<Rightarrow>
          (m\<lparr>cm_drains := hm_insert c (cd\<lparr>cd_count := Suc (cd_count cd)\<rparr>) (cm_drains m)\<rparr>, cd_channel cd)
      | None \<Rightarrow>
          (let (m1, drain) = ConnectionDrain_new m
           in (m1\<lparr>cm_drains := hm_insert c drain (cm_drains m1)\<rparr>, cd_channel drain)))"

definition release :: "ConnectionContext \<Rightarrow> ConnectionManager \<Rightarrow> ConnectionManager" where
  "release c m =
     (case hm_get (cm_drains m) c of
        None \<Rightarrow> m
      | Some v \<Rightarrow>
          (let m1 = m\<lparr>cm_drains := hm_remove c (cm_drains m)\<rparr> in
           if cd_count v > 1
           then m1\<lparr>cm_drains := hm_insert c (v\<lparr>cd_count := cd_count v - 1\<rparr>) (cm_drains m1)\<rparr>
           else drop_trigger (cd_channel v) m1))"

text \<open>\<open>close\<close> up to the wait for the watchers; the channel to wait for is returned.\<close>

definition close :: "ConnectionContext \<Rightarrow> ConnectionManager \<Rightarrow> ConnectionManager \<times> nat option" where
  "close c m =
     (case hm_get (cm_drains m) c of
        None \<Rightarrow> (m, None)
      | Some cd \<Rightarrow>
          (start_drain Immediate (cd_channel cd) (m\<lparr>cm_drains := hm_remove c (cm_drains m)\<rparr>), Some (cd_channel cd)))"

definition connections :: "ConnectionManager \<Rightarrow> ConnectionContext list" where
  "connections m = hm_keys (cm_drains m)"

record ConnectionDump =
  dump_src :: SocketAddr
  dump_original_dst :: "string option"
  dump_actual_dst :: SocketAddr
  dump_protocol :: InboundProtocol

text \<open>The two lists of the serialized form.\<close>

definition dump_one :: "ConnectionContext \<Rightarrow> string option \<Rightarrow> ConnectionDump" where
  "dump_one c original_dst =
     \<lparr>dump_src = conn_src (rc_conn (cc_rbac_ctx c)), dump_original_dst = original_dst,
      dump_actual_dst = conn_dst (rc_conn (cc_rbac_ctx c)),
      dump_protocol = (if conn_src_identity (rc_conn (cc_rbac_ctx c)) \<noteq> None then InHbone else InTcp)\<rparr>"

definition dump :: "ConnectionManager \<Rightarrow> ConnectionDump list \<times> ConnectionDump list" where
  "dump m =
     (List.map_filter (\<lambda>c. case cc_attributes c of
          InboundAttrs a \<Rightarrow> Some (dump_one c (ia_dest_service a)) | OutboundAttrs _ \<Rightarrow> None) (connections m),
      List.map_filter (\<lambda>c. case cc_attributes c of
          OutboundAttrs a \<Rightarrow> Some (dump_one c (Some (sock_display (oa_actual_dst a)))) | InboundAttrs _ \<Rightarrow> None)
        (connections m))"

section \<open>Connections, updates and the watcher\<close>

datatype cm_error = ConnectionTrackingFailed | AuthorizationPolicyRejection AuthorizationRejectionError

text \<open>\<open>assert_rbac\<close> when nothing runs in between: a guard is the context and its channel.\<close>

definition cm_assert_rbac ::
  "ipnet_ops \<Rightarrow> ProxyState \<Rightarrow> ConnectionContext \<Rightarrow> ConnectionManager \<Rightarrow>
     ConnectionManager \<times> (ConnectionContext \<times> nat, cm_error) result"
where
  "cm_assert_rbac N s ctx m =
     (let (m1, watch) = register ctx m in
      case assert_rbac N s (cc_rbac_ctx ctx) of
        Inl err \<Rightarrow> (release ctx m1, Err (AuthorizationPolicyRejection err))
      | Inr _ \<Rightarrow> (m1, Ok (ctx, watch)))"

datatype conn_phase = Registered | Granted

record LiveConn =
  lc_id :: nat
  lc_ctx :: ConnectionContext
  lc_channel :: nat
  lc_phase :: conn_phase

datatype watch_status = WatchIdle | Scanning "ConnectionContext list" | Draining nat "ConnectionContext list" | Stopped

record CmSystem =
  sys_state :: ProxyState
  sys_cm :: ConnectionManager
  sys_conns :: "LiveConn list"
  sys_watch :: watch_status
  sys_seen :: nat

definition allowed :: "ipnet_ops \<Rightarrow> ProxyState \<Rightarrow> ConnectionContext \<Rightarrow> bool" where
  "allowed N s c = is_ok (assert_rbac N s (cc_rbac_ctx c))"

definition close_one :: "ConnectionContext \<Rightarrow> ConnectionContext list \<Rightarrow> CmSystem \<Rightarrow> CmSystem" where
  "close_one c cs s =
     (let (m, ch) = close c (sys_cm s)
      in s\<lparr>sys_cm := m, sys_watch := (case ch of None \<Rightarrow> Scanning cs | Some ch \<Rightarrow> Draining ch cs)\<rparr>)"

inductive cm_step :: "ipnet_ops \<Rightarrow> codec_ops \<Rightarrow> CmSystem \<Rightarrow> CmSystem \<Rightarrow> bool" for N C where
  Register: "i \<notin> lc_id ` set (sys_conns s) \<Longrightarrow>
    cm_step N C s (s\<lparr>sys_cm := fst (register ctx (sys_cm s)),
      sys_conns := \<lparr>lc_id = i, lc_ctx = ctx, lc_channel = snd (register ctx (sys_cm s)), lc_phase = Registered\<rparr> # sys_conns s\<rparr>)"
| Grant: "k \<in> set (sys_conns s) \<Longrightarrow> lc_phase k = Registered \<Longrightarrow> allowed N (sys_state s) (lc_ctx k) \<Longrightarrow>
    cm_step N C s (s\<lparr>sys_conns := k\<lparr>lc_phase := Granted\<rparr> # removeAll k (sys_conns s)\<rparr>)"
| Deny: "k \<in> set (sys_conns s) \<Longrightarrow> lc_phase k = Registered \<Longrightarrow> \<not> allowed N (sys_state s) (lc_ctx k) \<Longrightarrow>
    cm_step N C s (s\<lparr>sys_conns := removeAll k (sys_conns s), sys_cm := release (lc_ctx k) (sys_cm s)\<rparr>)"
| Finish: "k \<in> set (sys_conns s) \<Longrightarrow> lc_phase k = Granted \<Longrightarrow>
    cm_step N C s (s\<lparr>sys_conns := removeAll k (sys_conns s), sys_cm := release (lc_ctx k) (sys_cm s)\<rparr>)"
| Terminate: "k \<in> set (sys_conns s) \<Longrightarrow> lc_phase k = Granted \<Longrightarrow> ended (sys_cm s) (lc_channel k) \<Longrightarrow>
    cm_step N C s (s\<lparr>sys_conns := removeAll k (sys_conns s)\<rparr>)"
| StateUpdate: "cm_step N C s (s\<lparr>sys_state := fst (fst (xds_apply N C r (sys_state s, [])))\<rparr>)"
| Wake: "sys_watch s = WatchIdle \<Longrightarrow> sys_seen s \<noteq> notified (sys_state s) \<Longrightarrow>
    cm_step N C s (s\<lparr>sys_seen := notified (sys_state s), sys_watch := Scanning (connections (sys_cm s))\<rparr>)"
| Keep: "sys_watch s = Scanning (c # cs) \<Longrightarrow> allowed N (sys_state s) c \<Longrightarrow>
    cm_step N C s (s\<lparr>sys_watch := Scanning cs\<rparr>)"
| Close: "sys_watch s = Scanning (c # cs) \<Longrightarrow> \<not> allowed N (sys_state s) c \<Longrightarrow> cm_step N C s (close_one c cs s)"
| Drained: "sys_watch s = Draining ch cs \<Longrightarrow> ch \<notin> lc_channel ` set (sys_conns s) \<Longrightarrow>
    cm_step N C s (s\<lparr>sys_watch := Scanning cs\<rparr>)"
| Done: "sys_watch s = Scanning [] \<Longrightarrow> cm_step N C s (s\<lparr>sys_watch := WatchIdle\<rparr>)"
| Stop: "sys_watch s = WatchIdle \<Longrightarrow> cm_step N C s (s\<lparr>sys_watch := Stopped\<rparr>)"

definition cm_start :: "strng option \<Rightarrow> CmSystem" where
  "cm_start node = \<lparr>sys_state = px_new node, sys_cm = cm_default, sys_conns = [], sys_watch = WatchIdle,
     sys_seen = notified (px_new node)\<rparr>"

inductive cm_reach :: "ipnet_ops \<Rightarrow> codec_ops \<Rightarrow> strng option \<Rightarrow> CmSystem \<Rightarrow> bool" for N C node where
  Start: "cm_reach N C node (cm_start node)"
| Step: "cm_reach N C node s \<Longrightarrow> cm_step N C s s' \<Longrightarrow> cm_reach N C node s'"

inductive_cases cm_step_cases: "cm_step N C s s'"

section \<open>Specification\<close>

definition remaining :: "watch_status \<Rightarrow> ConnectionContext list" where
  "remaining w = (case w of WatchIdle \<Rightarrow> [] | Scanning cs \<Rightarrow> cs | Draining _ cs \<Rightarrow> cs | Stopped \<Rightarrow> [])"

text \<open>
  The channel stored for a context. A connection is tracked when its channel is the one stored for its
  context, and otherwise its channel has ended. Channels stored for different contexts differ and have
  not ended.
\<close>

definition chan :: "ConnectionManager \<Rightarrow> ConnectionContext \<Rightarrow> nat option" where
  "chan m c = map_option cd_channel (hm_get (cm_drains m) c)"

definition cm_inv :: "ConnectionManager \<Rightarrow> bool" where
  "cm_inv m \<longleftrightarrow>
     (\<forall>c ch. chan m c = Some ch \<longrightarrow> ch < length (cm_channels m) \<and> \<not> ended m ch) \<and>
     (\<forall>c c' ch. chan m c = Some ch \<longrightarrow> chan m c' = Some ch \<longrightarrow> c = c')"

definition tracked :: "ConnectionManager \<Rightarrow> LiveConn \<Rightarrow> bool" where
  "tracked m k \<longleftrightarrow>
     lc_channel k < length (cm_channels m) \<and> (ended m (lc_channel k) \<or> chan m (lc_ctx k) = Some (lc_channel k))"

text \<open>Every stored entry has a user.\<close>

definition counts_pos :: "ConnectionManager \<Rightarrow> bool" where
  "counts_pos m \<longleftrightarrow> (\<forall>c v. hm_get (cm_drains m) c = Some v \<longrightarrow> 0 < cd_count v)"

text \<open>The three effects an operation of the manager can have.\<close>

definition same_view :: "ConnectionManager \<Rightarrow> ConnectionManager \<Rightarrow> bool" where
  "same_view m m' \<longleftrightarrow> chan m' = chan m \<and> cm_channels m' = cm_channels m"

definition opens_view :: "ConnectionContext \<Rightarrow> ConnectionManager \<Rightarrow> ConnectionManager \<Rightarrow> bool" where
  "opens_view c m m' \<longleftrightarrow>
     chan m' = (chan m)(c \<mapsto> length (cm_channels m)) \<and> cm_channels m' = cm_channels m @ [NotSignalled]"

definition ends_view :: "ConnectionContext \<Rightarrow> nat \<Rightarrow> ConnectionManager \<Rightarrow> ConnectionManager \<Rightarrow> bool" where
  "ends_view c ch m m' \<longleftrightarrow>
     chan m c = Some ch \<and> chan m' = (chan m)(c := None) \<and>
     (\<exists>st. wait_for_drain st \<noteq> None \<and> cm_channels m' = (cm_channels m)[ch := st])"

definition enforced :: "ipnet_ops \<Rightarrow> CmSystem \<Rightarrow> LiveConn \<Rightarrow> bool" where
  "enforced N s k \<longleftrightarrow>
     lc_phase k = Registered \<or> ended (sys_cm s) (lc_channel k) \<or> allowed N (sys_state s) (lc_ctx k) \<or>
     sys_watch s = Stopped \<or> sys_seen s < notified (sys_state s) \<or> lc_ctx k \<in> set (remaining (sys_watch s))"

definition sys_inv :: "ipnet_ops \<Rightarrow> CmSystem \<Rightarrow> bool" where
  "sys_inv N s \<longleftrightarrow>
     px_inv (sys_state s) \<and> cm_inv (sys_cm s) \<and> sys_seen s \<le> notified (sys_state s) \<and>
     (\<forall>k \<in> set (sys_conns s). tracked (sys_cm s) k \<and> enforced N s k)"

text \<open>A workload is announced, one of its connections is accepted, and the workload is withdrawn.\<close>

definition refs_codec :: codec_ops where
  "refs_codec = example_codec\<lparr>decode_refs := (\<lambda>_. Inr \<lparr>pr_type_url = TRAFFIC_POLICY_TYPE, pr_resources = []\<rparr>)\<rparr>"

definition bound_workload :: XdsWorkload where
  "bound_workload = example_xds_workload\<lparr>xw_extensions := [\<lparr>ext_name = ''traffic-policy-reference'',
     ext_config = Some \<lparr>any_type_url = POLICY_REFERENCE_TYPE_URL, any_value = []\<rparr>\<rparr>]\<rparr>"

definition example_conn_ctx :: ConnectionContext where
  "example_conn_ctx =
     \<lparr>cc_rbac_ctx = \<lparr>rc_conn = example_connection 1 80, rc_workload = example_workload, rc_sandbox = None\<rparr>,
      cc_attributes = InboundAttrs \<lparr>ia_dest_service = None\<rparr>\<rparr>"

definition example_live :: LiveConn where
  "example_live = \<lparr>lc_id = 0, lc_ctx = example_conn_ctx, lc_channel = 0, lc_phase = Registered\<rparr>"

definition example_update :: "XdsAddress XdsUpdate \<Rightarrow> CmSystem \<Rightarrow> CmSystem" where
  "example_update u s = s\<lparr>sys_state := fst (fst (xds_apply cidr_ops refs_codec (Addresses [u]) (sys_state s, [])))\<rparr>"

definition example_sys1 :: CmSystem where
  "example_sys1 = example_update (Update ''w'' (XaWorkload bound_workload)) (cm_start None)"

definition example_sys2 :: CmSystem where
  "example_sys2 = example_sys1\<lparr>sys_cm := fst (register example_conn_ctx (sys_cm example_sys1)),
     sys_conns := example_live # sys_conns example_sys1\<rparr>"

definition example_sys3 :: CmSystem where
  "example_sys3 = example_update (Remove ''cluster//Pod/prod/web-1'')
     (example_sys2\<lparr>sys_conns := example_live\<lparr>lc_phase := Granted\<rparr> # removeAll example_live (sys_conns example_sys2)\<rparr>)"

definition example_sys4 :: CmSystem where
  "example_sys4 = close_one example_conn_ctx []
     (example_sys3\<lparr>sys_seen := notified (sys_state example_sys3), sys_watch := Scanning (connections (sys_cm example_sys3))\<rparr>)"

section \<open>Lemmas\<close>

subsection \<open>Effects of the operations\<close>

lemma register_view:
  "case chan m c of
     Some ch \<Rightarrow> same_view m (fst (register c m)) \<and> snd (register c m) = ch
   | None \<Rightarrow> opens_view c m (fst (register c m)) \<and> snd (register c m) = length (cm_channels m)"
  by (auto simp: register_def ConnectionDrain_new_def chan_def same_view_def opens_view_def fun_eq_iff
      split: option.splits)

lemma release_view:
  assumes "cm_inv m"
  shows "same_view m (release c m) \<or> (\<exists>ch. ends_view c ch m (release c m))"
proof (cases "hm_get (cm_drains m) c")
  case None
  then show ?thesis by (simp add: release_def same_view_def)
next
  case (Some v)
  then have "chan m c = Some (cd_channel v)" by (simp add: chan_def)
  with assms have "\<not> ended m (cd_channel v)" by (simp add: cm_inv_def)
  then have open_ch: "cm_channels m ! cd_channel v = NotSignalled"
    by (simp add: ended_def wait_for_drain_def split: signal_state.splits)
  show ?thesis
  proof (cases "cd_count v > 1")
    case True
    with Some show ?thesis by (auto simp: release_def same_view_def chan_def fun_eq_iff)
  next
    case False
    have "wait_for_drain TriggerDropped \<noteq> None" by (simp add: wait_for_drain_def)
    moreover have "chan (release c m) = (chan m)(c := None)"
        "cm_channels (release c m) = (cm_channels m)[cd_channel v := TriggerDropped]"
      using False Some open_ch by (auto simp: release_def drop_trigger_def chan_def fun_eq_iff)
    ultimately show ?thesis using \<open>chan m c = Some (cd_channel v)\<close> unfolding ends_view_def by blast
  qed
qed

lemma close_view:
  "case chan m c of
     None \<Rightarrow> close c m = (m, None)
   | Some ch \<Rightarrow> ends_view c ch m (fst (close c m)) \<and> snd (close c m) = Some ch"
proof (cases "hm_get (cm_drains m) c")
  case (Some cd)
  have "wait_for_drain (Signalled Immediate) \<noteq> None" by (simp add: wait_for_drain_def)
  with Some show ?thesis
    by (auto simp: close_def chan_def ends_view_def start_drain_def fun_eq_iff)
qed (simp add: close_def chan_def)

subsection \<open>Effects keep the invariant\<close>

lemma same_view_keeps:
  assumes "same_view m m'"
  shows "cm_inv m' = cm_inv m" "tracked m' = tracked m" "ended m' = ended m"
  using assms by (simp_all add: same_view_def cm_inv_def tracked_def ended_def fun_eq_iff)

lemma opens_view_ended:
  assumes "opens_view c m m'"
  shows "ch < length (cm_channels m) \<Longrightarrow> ended m' ch = ended m ch" "\<not> ended m' (length (cm_channels m))"
    "length (cm_channels m') = Suc (length (cm_channels m))"
  using assms by (simp_all add: opens_view_def ended_def nth_append wait_for_drain_def)

lemma opens_view_keeps:
  assumes v: "opens_view c m m'" and inv: "cm_inv m" and none: "chan m c = None"
  shows "cm_inv m'" "tracked m k \<Longrightarrow> tracked m' k"
proof -
  note e = opens_view_ended [OF v]
  have chan: "chan m' x = (if x = c then Some (length (cm_channels m)) else chan m x)" for x
    using v by (simp add: opens_view_def)
  have old: "chan m x = Some ch \<Longrightarrow> ch < length (cm_channels m) \<and> \<not> ended m ch" for x ch
    using inv by (simp add: cm_inv_def)
  show "cm_inv m'"
    unfolding cm_inv_def chan e(3)
  proof (intro conjI allI impI)
    fix x ch assume "(if x = c then Some (length (cm_channels m)) else chan m x) = Some ch"
    then show "ch < Suc (length (cm_channels m))" "\<not> ended m' ch"
      using old [of x ch] e by (auto split: if_splits)
    fix y assume "(if x = c then Some (length (cm_channels m)) else chan m x) = Some ch"
      "(if y = c then Some (length (cm_channels m)) else chan m y) = Some ch"
    then show "x = y" using inv old unfolding cm_inv_def by (metis less_irrefl option.inject)
  qed
  show "tracked m' k" if "tracked m k"
    using that none e unfolding tracked_def chan by (auto simp: less_Suc_eq)
qed

lemma ends_view_ended:
  assumes "ends_view c ch m m'" "x < length (cm_channels m)"
  shows "ended m' x \<longleftrightarrow> ended m x \<or> x = ch" "length (cm_channels m') = length (cm_channels m)"
  using assms by (cases "x = ch"; auto simp: ends_view_def ended_def)+

lemma ends_view_keeps:
  assumes v: "ends_view c ch m m'" and inv: "cm_inv m"
  shows "cm_inv m'" "tracked m k \<Longrightarrow> tracked m' k"
proof -
  have chan: "chan m' x = (if x = c then None else chan m x)" and ch: "chan m c = Some ch" for x
    using v by (simp_all add: ends_view_def)
  have len: "length (cm_channels m') = length (cm_channels m)"
    using v by (auto simp: ends_view_def)
  have old: "chan m x = Some y \<Longrightarrow> y < length (cm_channels m) \<and> \<not> ended m y" for x y
    using inv by (simp add: cm_inv_def)
  have inj: "chan m x = Some y \<Longrightarrow> chan m x' = Some y \<Longrightarrow> x = x'" for x x' y
    using inv unfolding cm_inv_def by blast
  show "cm_inv m'"
    unfolding cm_inv_def chan len
  proof (intro conjI allI impI)
    fix x y assume x: "(if x = c then None else chan m x) = Some y"
    then have "x \<noteq> c" "chan m x = Some y" by (auto split: if_splits)
    with old [of x y] inj [of x y c] ch show "y < length (cm_channels m)" "\<not> ended m' y"
      using ends_view_ended(1) [OF v, of y] by auto
    fix x' assume "(if x' = c then None else chan m x') = Some y"
    with x show "x = x'" by (auto split: if_splits dest: inj)
  qed
  show "tracked m' k" if "tracked m k"
    using that ends_view_ended(1) [OF v, of "lc_channel k"] ch unfolding tracked_def chan len by auto
qed

lemma release_keeps:
  assumes "cm_inv m"
  shows "cm_inv (release c m)" "tracked m k \<Longrightarrow> tracked (release c m) k"
    "tracked m k \<Longrightarrow> ended m (lc_channel k) \<Longrightarrow> ended (release c m) (lc_channel k)"
proof -
  consider "same_view m (release c m)" | ch where "ends_view c ch m (release c m)"
    using release_view [OF assms] by blast
  note cases = this
  show "cm_inv (release c m)"
    by (rule cases) (use assms same_view_keeps(1) ends_view_keeps(1) in auto)
  show "tracked (release c m) k" if "tracked m k"
    by (rule cases) (use that assms same_view_keeps(2) ends_view_keeps(2) in auto)
  show "ended (release c m) (lc_channel k)" if "tracked m k" "ended m (lc_channel k)"
    by (rule cases) (use that same_view_keeps(3) ends_view_ended(1) in \<open>auto simp: tracked_def\<close>)
qed

lemma release_enforced:
  assumes "tracked (sys_cm s) k" "cm_inv (sys_cm s)" "enforced N s k"
  shows "enforced N (s\<lparr>sys_conns := ks, sys_cm := release c (sys_cm s)\<rparr>) k"
  using assms release_keeps(3) [OF assms(2) assms(1)] by (auto simp: enforced_def)

lemma register_keeps:
  assumes inv: "cm_inv m"
  shows "cm_inv (fst (register c m))"
    "tracked m k \<Longrightarrow> tracked (fst (register c m)) k"
    "tracked m k \<Longrightarrow> ended (fst (register c m)) (lc_channel k) = ended m (lc_channel k)"
    "lc_ctx k = c \<Longrightarrow> lc_channel k = snd (register c m) \<Longrightarrow> tracked (fst (register c m)) k"
proof -
  note v = register_view [where m = m and c = c]
  show "cm_inv (fst (register c m))"
    using v inv by (cases "chan m c") (auto simp: same_view_keeps(1) opens_view_keeps(1))
  show "tracked (fst (register c m)) k" if "tracked m k"
    using v inv that by (cases "chan m c") (auto simp: same_view_keeps(2) opens_view_keeps(2))
  show "ended (fst (register c m)) (lc_channel k) = ended m (lc_channel k)" if "tracked m k"
    using v that by (cases "chan m c") (auto simp: same_view_keeps(3) opens_view_ended(1) tracked_def)
  show "tracked (fst (register c m)) k" if "lc_ctx k = c" "lc_channel k = snd (register c m)"
    using v inv that
    by (cases "chan m c") (auto simp: tracked_def same_view_def opens_view_def cm_inv_def)
qed

lemma close_keeps:
  assumes inv: "cm_inv m"
  shows "cm_inv (fst (close c m))"
    "tracked m k \<Longrightarrow> tracked (fst (close c m)) k"
    "tracked m k \<Longrightarrow> ended m (lc_channel k) \<or> lc_ctx k = c \<Longrightarrow> ended (fst (close c m)) (lc_channel k)"
proof -
  note v = close_view [where m = m and c = c]
  show "cm_inv (fst (close c m))"
    using v inv by (cases "chan m c") (auto intro: ends_view_keeps(1))
  show "tracked (fst (close c m)) k" if "tracked m k"
    using v inv that by (cases "chan m c") (auto intro: ends_view_keeps(2))
  show "ended (fst (close c m)) (lc_channel k)" if "tracked m k" "ended m (lc_channel k) \<or> lc_ctx k = c"
    using v that by (cases "chan m c") (auto simp: ends_view_ended(1) tracked_def)
qed

lemma counts_pos_keeps:
  assumes "counts_pos m"
  shows "counts_pos (fst (register c m))" "counts_pos (release c m)" "counts_pos (fst (close c m))"
  using assms
  by (auto simp: counts_pos_def register_def ConnectionDrain_new_def release_def close_def start_drain_def drop_trigger_def
      Let_def split: option.splits if_splits)

text \<open>A rejected connection leaves the contexts and channels of the manager as they were.\<close>

lemma cm_assert_rbac_refused:
  assumes "counts_pos m" "cm_assert_rbac N s ctx m = (m', Inl e)"
  shows "chan m' = chan m"
proof -
  have "chan (release ctx (fst (register ctx m))) = chan m"
    using assms(1) by (force simp: counts_pos_def register_def release_def ConnectionDrain_new_def drop_trigger_def chan_def
        fun_eq_iff Let_def split: option.splits)
  with assms(2) show ?thesis by (auto simp: cm_assert_rbac_def case_prod_unfold Let_def split: sum.splits)
qed

subsection \<open>The steps keep the system invariant\<close>

lemma sys_inv_start: "sys_inv N (cm_start node)"
  by (simp add: sys_inv_def cm_start_def px_inv_new cm_inv_def chan_def cm_default_def hm_get_def)

lemma sys_inv_update:
  assumes "sys_inv N s"
  shows "sys_inv N (s\<lparr>sys_state := fst (fst (xds_apply N C r (sys_state s, [])))\<rparr>)"
proof -
  let ?t = "fst (fst (xds_apply N C r (sys_state s, [])))"
  have inv: "px_inv (sys_state s)" "px_inv ?t"
    using assms xds_apply_inv [of "(sys_state s, [])" N C r] by (simp_all add: sys_inv_def)
  have step: "auth_step (sys_state s) ?t"
    using xds_apply_auth [of "(sys_state s, [])" N C r] inv by simp
  have "enforced N (s\<lparr>sys_state := ?t\<rparr>) k" if "enforced N s k" for k
  proof (cases "notified (sys_state s) = notified ?t")
    case True
    with step have "auth_view (sys_state s) = auth_view ?t" by (simp add: auth_step_def)
    moreover have "ws_inv (px_workloads (sys_state s))" "ws_inv (px_workloads ?t)"
      using inv by (simp_all add: px_inv_def)
    ultimately have "assert_rbac N ?t ctx = assert_rbac N (sys_state s) ctx" for ctx
      by (intro assert_rbac_view [symmetric])
    then have "allowed N ?t = allowed N (sys_state s)" unfolding allowed_def by presburger
    with that True show ?thesis by (simp add: enforced_def)
  next
    case False
    then have "sys_seen s < notified ?t" using step assms by (auto simp: auth_step_def sys_inv_def)
    then show ?thesis by (simp add: enforced_def)
  qed
  with assms inv step show ?thesis by (auto simp: sys_inv_def auth_step_def)
qed

lemma sys_inv_wake:
  assumes "sys_inv N s"
  shows "sys_inv N (s\<lparr>sys_seen := notified (sys_state s), sys_watch := Scanning (connections (sys_cm s))\<rparr>)"
proof -
  have "lc_ctx k \<in> set (connections (sys_cm s))" if "tracked (sys_cm s) k" "\<not> ended (sys_cm s) (lc_channel k)" for k
    using that by (auto simp: tracked_def chan_def connections_def hm_keys_get)
  with assms show ?thesis by (auto simp: sys_inv_def enforced_def remaining_def)
qed

lemma sys_inv_close:
  assumes "sys_inv N s" "sys_watch s = Scanning (c # cs)"
  shows "sys_inv N (close_one c cs s)"
proof -
  have cm: "sys_cm (close_one c cs s) = fst (close c (sys_cm s))" "sys_conns (close_one c cs s) = sys_conns s"
      "sys_state (close_one c cs s) = sys_state s" "sys_seen (close_one c cs s) = sys_seen s"
      "remaining (sys_watch (close_one c cs s)) = cs"
    by (simp_all add: close_one_def remaining_def case_prod_unfold Let_def split: option.splits)
  have inv: "cm_inv (sys_cm s)" using assms by (simp add: sys_inv_def)
  have "enforced N (close_one c cs s) k" if "tracked (sys_cm s) k" "enforced N s k" for k
    using that close_keeps(3) [OF inv that(1), of c] assms(2)
    by (auto simp: enforced_def cm) (auto simp: remaining_def)
  with assms(1) show ?thesis by (auto simp: sys_inv_def cm close_keeps(1,2))
qed

lemma sys_inv_step:
  assumes "cm_step N C s s'" "sys_inv N s"
  shows "sys_inv N s'"
  using assms
proof (induction rule: cm_step.induct)
  case (Register i s ctx)
  then show ?case by (auto simp: sys_inv_def enforced_def register_keeps)
next
  case (Deny k s)
  then show ?case by (auto simp: sys_inv_def release_keeps(1,2) intro: release_enforced)
next
  case (Finish k s)
  then show ?case by (auto simp: sys_inv_def release_keeps(1,2) intro: release_enforced)
next
  case (StateUpdate s r)
  then show ?case by (rule sys_inv_update)
next
  case (Wake s)
  then show ?case by (intro sys_inv_wake)
next
  case (Close s c cs)
  then show ?case by (intro sys_inv_close)
next
  case (Grant k s)
  then show ?case by (auto simp: sys_inv_def enforced_def tracked_def)
next
  case (Keep s c cs)
  then show ?case by (auto simp: sys_inv_def enforced_def remaining_def)
qed (auto simp: sys_inv_def enforced_def remaining_def)

lemma sys_inv_reach: "cm_reach N C node s \<Longrightarrow> sys_inv N s"
  by (induction rule: cm_reach.induct) (auto intro: sys_inv_start sys_inv_step)

lemma example_sys4_reach: "cm_reach cidr_ops refs_codec None example_sys4"
proof -
  let ?R = "cm_reach cidr_ops refs_codec None"
  have upd: "?R s \<Longrightarrow> ?R (example_update u s)" for u s
    unfolding example_update_def by (rule cm_reach.Step [OF _ cm_step.StateUpdate])
  have "?R example_sys1" unfolding example_sys1_def by (intro upd cm_reach.Start)
  moreover have "snd (register example_conn_ctx (sys_cm example_sys1)) = 0" "lc_id ` set (sys_conns example_sys1) = {}"
    by code_simp+
  ultimately have "?R example_sys2"
    using cm_step.Register [of 0 example_sys1 cidr_ops refs_codec example_conn_ctx]
    by (auto simp: example_sys2_def example_live_def intro: cm_reach.Step)
  moreover have "allowed cidr_ops (sys_state example_sys2) (lc_ctx example_live)" by code_simp
  moreover have "example_live \<in> set (sys_conns example_sys2)" by code_simp
  moreover have "lc_phase example_live = Registered" by code_simp
  ultimately have three: "?R example_sys3"
    unfolding example_sys3_def by (intro upd cm_reach.Step [OF _ cm_step.Grant])
  have "sys_watch example_sys3 = WatchIdle" "sys_seen example_sys3 \<noteq> notified (sys_state example_sys3)"
    by code_simp+
  note woken = cm_reach.Step [OF three cm_step.Wake [OF this]]
  have "connections (sys_cm example_sys3) = [example_conn_ctx]" by code_simp
  moreover have "\<not> allowed cidr_ops (sys_state example_sys3) example_conn_ctx" by code_simp
  ultimately show ?thesis
    unfolding example_sys4_def by (intro cm_reach.Step [OF woken cm_step.Close]) simp_all
qed

section \<open>Properties\<close>

text \<open>
  C25. Policy changes reach open connections. In every interleaving of connections being registered,
  authorized, finished and terminated, updates of the proxy state and the policy watcher: once the
  watcher has seen the last change and is past a connection, the connection is allowed by the current
  state or its drain channel has ended, so that the race in \<open>handle_connection\<close> terminates it.
\<close>

theorem policy_enforced:
  assumes "cm_reach N C node s" "k \<in> set (sys_conns s)" "lc_phase k = Granted"
    and "sys_watch s \<noteq> Stopped" "sys_seen s = notified (sys_state s)" "lc_ctx k \<notin> set (remaining (sys_watch s))"
  shows "ended (sys_cm s) (lc_channel k) \<or> allowed N (sys_state s) (lc_ctx k)"
  using sys_inv_reach [OF assms(1)] assms(2-) by (auto simp: sys_inv_def enforced_def)

theorem policy_enforced_witness:
  "ended (sys_cm example_sys4) 0 \<and> \<not> allowed cidr_ops (sys_state example_sys4) example_conn_ctx"
proof -
  let ?k = "example_live\<lparr>lc_phase := Granted\<rparr>"
  have "?k \<in> set (sys_conns example_sys4)" by code_simp
  moreover have "lc_phase ?k = Granted" by code_simp
  moreover have "sys_watch example_sys4 \<noteq> Stopped" by code_simp
  moreover have "sys_seen example_sys4 = notified (sys_state example_sys4)" by code_simp
  moreover have "lc_ctx ?k \<notin> set (remaining (sys_watch example_sys4))" by code_simp
  ultimately have "ended (sys_cm example_sys4) (lc_channel ?k) \<or> allowed cidr_ops (sys_state example_sys4) (lc_ctx ?k)"
    by (rule policy_enforced [OF example_sys4_reach])
  moreover have "\<not> allowed cidr_ops (sys_state example_sys4) example_conn_ctx" by code_simp
  ultimately show ?thesis by (simp add: example_live_def)
qed

text \<open>
  A late \<open>release\<close>: a context is closed, registered again by a new connection, and then released by a
  connection from before the close whose own end won the race against the drain. The release drops the
  trigger of the new connection, which ends although no policy rejects it.
\<close>

theorem stale_release_ends_newer:
  assumes "chan m c = Some ch" "register c (fst (close c m)) = (m', new)"
  shows "\<not> ended m' new" "ended (release c m') new"
proof -
  have "chan (fst (close c m)) c = None" "length (cm_channels (fst (close c m))) = length (cm_channels m)"
    using assms(1) close_view [where m = m and c = c] by (auto simp: ends_view_def)
  then have v: "opens_view c (fst (close c m)) m'" "new = length (cm_channels m)"
      "hm_get (cm_drains (fst (close c m))) c = None"
    using register_view [where m = "fst (close c m)" and c = c] assms(2) by (auto simp: chan_def)
  show "\<not> ended m' new" using opens_view_ended(2) [OF v(1)] v(2)
    by (simp add: \<open>length (cm_channels (fst (close c m))) = length (cm_channels m)\<close>)
  from v(3) assms(2) show "ended (release c m') new"
    by (auto simp: register_def ConnectionDrain_new_def release_def drop_trigger_def ended_def wait_for_drain_def)
qed

end
