(* ===== verification/ProxyCore.thy ===== *)
theory ProxyCore
  imports AddrText ConnManager
begin

text \<open>
  What the listeners share, \<^verbatim>\<open>src/proxy.rs\<close> and \<^verbatim>\<open>src/socket.rs\<close>: the address of an HBONE request,
  the trace context and forwarding headers, the choice of a local address for an upstream connection
  and of the service an inbound connection is reported for.
\<close>

section \<open>Addresses of the proxy itself\<close>

definition SELF_ADDR_V4 :: u32 where
  "SELF_ADDR_V4 = 0x7F000006"

definition SELF_ADDR_V6 :: u128 where
  "SELF_ADDR_V6 = 6"

text \<open>\<open>IpAddr::to_canonical\<close>: an IPv4-mapped IPv6 address is the IPv4 address.\<close>

definition ip_canonical :: "IpAddr \<Rightarrow> IpAddr" where
  "ip_canonical a =
     (case a of V4 x \<Rightarrow> V4 x | V6 x \<Rightarrow> if drop_bit 32 x = 0xFFFF then V4 (ucast x) else V6 x)"

definition is_loopback :: "IpAddr \<Rightarrow> bool" where
  "is_loopback a = (case a of V4 x \<Rightarrow> drop_bit 24 x = 127 | V6 x \<Rightarrow> x = 1)"

definition is_self_addr :: "IpAddr \<Rightarrow> bool" where
  "is_self_addr a = (case ip_canonical a of V4 x \<Rightarrow> x = SELF_ADDR_V4 | V6 x \<Rightarrow> x = SELF_ADDR_V6)"

definition to_self_addr :: "IpAddr \<Rightarrow> IpAddr" where
  "to_self_addr a = (case ip_canonical a of V4 _ \<Rightarrow> V4 SELF_ADDR_V4 | V6 _ \<Rightarrow> V6 SELF_ADDR_V6)"

definition to_self_socket_addr :: "SocketAddr \<Rightarrow> SocketAddr" where
  "to_self_socket_addr a =
     socket_addr (case sock_ip a of V4 _ \<Rightarrow> V4 SELF_ADDR_V4 | V6 _ \<Rightarrow> V6 SELF_ADDR_V6) (sock_port a)"

definition to_canonical :: "SocketAddr \<Rightarrow> SocketAddr" where
  "to_canonical a = socket_addr (ip_canonical (sock_ip a)) (sock_port a)"

text \<open>\<open>orig_dst_addr_or_default\<close>: what the two socket options answer, and the local address.\<close>

definition orig_dst_addr :: "SocketAddr option \<Rightarrow> SocketAddr option \<Rightarrow> SocketAddr option" where
  "orig_dst_addr v4 v6 = (case v4 of Some a \<Rightarrow> Some a | None \<Rightarrow> v6)"

definition orig_dst_addr_or_default :: "SocketAddr option \<Rightarrow> SocketAddr option \<Rightarrow> SocketAddr \<Rightarrow> SocketAddr" where
  "orig_dst_addr_or_default v4 v6 local_addr =
     to_canonical (case orig_dst_addr v4 v6 of Some a \<Rightarrow> a | None \<Rightarrow> local_addr)"

text \<open>
  The socket of \<open>freebind_connect\<close>: its family and how it is bound before it connects. A failure to
  bind is logged and ignored.
\<close>

datatype bind_plan = ConnectDirectly | BindFree IpAddr | BindLocal IpAddr

definition freebind_connect :: "IpAddr option \<Rightarrow> SocketAddr \<Rightarrow> bool \<times> bind_plan" where
  "freebind_connect local addr =
     (case local of
        None \<Rightarrow> (is_ipv4 (sock_ip addr), ConnectDirectly)
      | Some src \<Rightarrow>
          if src = sock_ip (to_canonical addr) \<and> \<not> is_self_addr src
          then (is_ipv4 (sock_ip addr), ConnectDirectly)
          else (is_ipv4 src, if \<not> is_self_addr src then BindFree src else BindLocal src))"

text \<open>\<open>maybe_set_transparent\<close>, given whether setting the socket option succeeds.\<close>

definition maybe_set_transparent :: "bool option \<Rightarrow> (unit, 'e) result \<Rightarrow> (bool, 'e) result" where
  "maybe_set_transparent require set_transparent =
     (case require of
        Some True \<Rightarrow> and_then set_transparent (\<lambda>_. Ok True)
      | Some False \<Rightarrow> Ok False
      | None \<Rightarrow> Ok (is_ok set_transparent))"

section \<open>HBONE addresses\<close>

datatype HboneAddress = HboneSocket SocketAddr | SvcHostname strng u16

fun hbone_port :: "HboneAddress \<Rightarrow> u16" where
  "hbone_port (HboneSocket s) = sock_port s"
| "hbone_port (SvcHostname _ p) = p"

fun hbone_ip :: "HboneAddress \<Rightarrow> IpAddr option" where
  "hbone_ip (HboneSocket s) = Some (sock_ip s)"
| "hbone_ip (SvcHostname _ _) = None"

fun svc_hostname :: "HboneAddress \<Rightarrow> strng option" where
  "svc_hostname (HboneSocket _) = None"
| "svc_hostname (SvcHostname s _) = Some s"

fun hbone_display :: "HboneAddress \<Rightarrow> string" where
  "hbone_display (HboneSocket a) = sock_display a"
| "hbone_display (SvcHostname host p) = host @ '':'' @ show_nat (unat p)"

fun hostname_addr :: "HboneAddress \<Rightarrow> strng option" where
  "hostname_addr (HboneSocket _) = None"
| "hostname_addr (SvcHostname h p) = Some (hbone_display (SvcHostname h p))"

text \<open>An \<open>http::Uri\<close> is what its accessors return: its text, its host and its port.\<close>

record Uri =
  uri_text :: string
  uri_host :: "string option"
  uri_port :: "u16 option"

text \<open>The errors of \<open>proxy::Error\<close> that reading and routing a request can end in.\<close>

datatype request_error =
    SelfCall
  | EgressPolicyDenied SocketAddr
  | EgressPolicyGatewayMissing SocketAddr
  | RoutingError proxy_error
  | UnknownSourceWorkload
  | UnsupportedFeature string
  | NonConnectMethod string
  | NoValidAuthority string
  | IPMismatch IpAddr IpAddr
  | NoPortForServices string u16
  | NoIPForService string
  | RequestRejected cm_error

definition HboneAddress_try_from :: "Uri \<Rightarrow> (HboneAddress, request_error) result" where
  "HboneAddress_try_from uri =
     (case parse_sock (uri_text uri) of
        Some addr \<Rightarrow> Ok (HboneSocket addr)
      | None \<Rightarrow>
          and_then (ok_or (uri_host uri) (NoValidAuthority (uri_text uri))) (\<lambda>hbone_host.
          and_then (ok_or (uri_port uri) (NoValidAuthority (uri_text uri))) (\<lambda>hbone_port.
            Ok (SvcHostname hbone_host hbone_port))))"

section \<open>Headers\<close>

definition is_ascii :: "char \<Rightarrow> bool" where
  "is_ascii c = ((of_char c :: nat) < 128)"

definition is_space :: "char \<Rightarrow> bool" where
  "is_space c = (let n = of_char c :: nat in n = 32 \<or> (9 \<le> n \<and> n \<le> 13))"

definition trim :: "string \<Rightarrow> string" where
  "trim s = rev (dropWhile is_space (rev (dropWhile is_space s)))"

definition strip_prefix :: "string \<Rightarrow> string \<Rightarrow> string option" where
  "strip_prefix p s = (if prefix p s then Some (drop (length p) s) else None)"

definition strip_suffix :: "string \<Rightarrow> string \<Rightarrow> string option" where
  "strip_suffix p s = (if suffix p s then Some (take (length s - length p) s) else None)"

definition unwrap_or :: "'a \<Rightarrow> 'a option \<Rightarrow> 'a" where
  "unwrap_or d x = (case x of None \<Rightarrow> d | Some y \<Rightarrow> y)"

definition parse_forwarded_host :: "string \<Rightarrow> string option" where
  "parse_forwarded_host input =
     (if \<not> list_all is_ascii input then None
      else Option.bind (find (\<lambda>part. prefix ''host='' (trim part)) (split_on CHR '';'' input)) (\<lambda>host_part.
        Option.bind (strip_prefix ''host='' (trim host_part)) (\<lambda>h.
          let h1 = unwrap_or h (strip_prefix [CHR 0x22] h); h2 = unwrap_or h1 (strip_suffix [CHR 0x22] h1)
          in if h2 = [] then None else Some h2)))"

text \<open>\<open>from_str_radix\<close> of the unsigned types, with the kinds of its errors.\<close>

datatype IntErrorKind = IntEmpty | InvalidDigit | PosOverflow

fun radix_loop :: "int \<Rightarrow> int \<Rightarrow> int \<Rightarrow> string \<Rightarrow> (int, IntErrorKind) result" where
  "radix_loop bound radix acc [] = Ok acc"
| "radix_loop bound radix acc (c # cs) =
     (case char_digit radix c of
        None \<Rightarrow> Err InvalidDigit
      | Some d \<Rightarrow> if radix * acc + d \<ge> bound then Err PosOverflow else radix_loop bound radix (radix * acc + d) cs)"

definition from_str_radix :: "int \<Rightarrow> int \<Rightarrow> string \<Rightarrow> (int, IntErrorKind) result" where
  "from_str_radix bound radix s =
     (case s of
        [] \<Rightarrow> Err IntEmpty
      | c # cs \<Rightarrow>
          if (c = CHR ''+'' \<or> c = CHR ''-'') \<and> cs = [] then Err InvalidDigit
          else radix_loop bound radix 0 (if c = CHR ''+'' then cs else s))"

record TraceParent =
  tr_version :: u8
  tr_trace_id :: u128
  tr_parent_id :: u64
  tr_flags :: u8

datatype trace_error = MalformedLength nat | ParseIntError IntErrorKind

definition hex_padded :: "nat \<Rightarrow> nat \<Rightarrow> string" where
  "hex_padded w n = replicate (w - length (show_hex n)) CHR ''0'' @ show_hex n"

definition TraceParent_debug :: "TraceParent \<Rightarrow> string" where
  "TraceParent_debug t =
     join ''-'' [hex_padded 2 (unat (tr_version t)), hex_padded 32 (unat (tr_trace_id t)),
       hex_padded 16 (unat (tr_parent_id t)), hex_padded 2 (unat (tr_flags t))]"

definition TraceParent_display :: "TraceParent \<Rightarrow> string" where
  "TraceParent_display t = hex_padded 32 (unat (tr_trace_id t))"

text \<open>
  \<open>segs[i]\<close> panics when there are not enough segments: the outcome \<open>None\<close>. The fields are read in
  order, and a field that does not parse ends the conversion before the next one is indexed.
\<close>

definition segment :: "int \<Rightarrow> nat \<Rightarrow> string list \<Rightarrow> (int, trace_error) result option" where
  "segment bound i segs =
     (if i < length segs then Some (map_err ParseIntError (from_str_radix bound 16 (segs ! i))) else None)"

definition then_segment ::
  "('a, trace_error) result option \<Rightarrow> ('a \<Rightarrow> ('b, trace_error) result option) \<Rightarrow> ('b, trace_error) result option"
where
  "then_segment x f = (case x of None \<Rightarrow> None | Some (Inl e) \<Rightarrow> Some (Err e) | Some (Inr v) \<Rightarrow> f v)"

definition TraceParent_try_from :: "string \<Rightarrow> (TraceParent, trace_error) result option" where
  "TraceParent_try_from value =
     (if length value \<noteq> 55 then Some (Err (MalformedLength (length value)))
      else
        let segs = split_on CHR ''-'' value in
        then_segment (segment (2 ^ 8) 0 segs) (\<lambda>version.
        then_segment (segment (2 ^ 128) 1 segs) (\<lambda>trace_id.
        then_segment (segment (2 ^ 64) 2 segs) (\<lambda>parent_id.
        then_segment (segment (2 ^ 8) 3 segs) (\<lambda>flags.
          Some (Ok \<lparr>tr_version = of_int version, tr_trace_id = of_int trace_id, tr_parent_id = of_int parent_id,
                    tr_flags = of_int flags\<rparr>))))))"

text \<open>
  The trace of an inbound request: the header if it is there, is visible ASCII and parses, otherwise the
  random one that \<open>TraceParent::new\<close> makes.
\<close>

definition extract_traceparent :: "TraceParent \<Rightarrow> string option option \<Rightarrow> TraceParent option" where
  "extract_traceparent fresh header =
     (case header of
        Some (Some b) \<Rightarrow>
          (case TraceParent_try_from b of
             None \<Rightarrow> None | Some (Inl _) \<Rightarrow> Some fresh | Some (Inr t) \<Rightarrow> Some t)
      | _ \<Rightarrow> Some fresh)"

section \<open>The service of an inbound connection\<close>

record ServiceDescription =
  sd_hostname :: strng
  sd_name :: strng
  sd_namespace :: strng

definition ServiceDescription_from :: "Service \<Rightarrow> ServiceDescription" where
  "ServiceDescription_from v =
     \<lparr>sd_hostname = sv_hostname v, sd_name = sv_name v, sd_namespace = sv_namespace v\<rparr>"

definition serves_port :: "Workload \<Rightarrow> u16 \<Rightarrow> Service \<Rightarrow> bool" where
  "serves_port dest dport s =
     list_ex (\<lambda>(sport, tport).
       tport = dport \<or>
       Option.bind (hm_get (sv_endpoints s) (wl_uid dest)) (\<lambda>e. hm_get (ep_port e) sport) = Some dport)
       (sv_ports s)"

definition guess_inbound_service ::
  "Connection \<Rightarrow> string option \<Rightarrow> Service list \<Rightarrow> Workload \<Rightarrow> ServiceDescription option"
where
  "guess_inbound_service conn for_host_header upstream_service dest =
     (case find (\<lambda>s. for_host_header = Some (sv_hostname s)) upstream_service of
        Some found \<Rightarrow> Some (ServiceDescription_from found)
      | None \<Rightarrow>
          map_option ServiceDescription_from
            (find (serves_port dest (sock_port (conn_dst conn))) upstream_service))"

section \<open>Lemmas\<close>

lemma char_digit_bounds: "char_digit r c = Some d \<Longrightarrow> 0 \<le> d \<and> d < r"
  by (auto simp: char_digit_def Let_def Option.bind_eq_Some_conv split: if_splits)

lemma digits_value_ge:
  assumes "1 \<le> r" "0 \<le> acc"
  shows "acc \<le> digits_value r acc ds"
  using assms(2)
proof (induction ds arbitrary: acc)
  case (Cons c ds)
  let ?d = "case char_digit r c of None \<Rightarrow> 0 | Some d \<Rightarrow> d"
  have "0 \<le> ?d" using char_digit_bounds [of r c] by (auto split: option.splits)
  moreover have "acc \<le> r * acc" using mult_right_mono [OF assms(1) Cons.prems] by simp
  ultimately show ?case using Cons.IH [of "r * acc + ?d"] Cons.prems by simp
qed simp

lemma radix_loop_digits:
  assumes "1 \<le> r" "0 \<le> acc" "\<forall>c \<in> set ds. char_digit r c \<noteq> None" "digits_value r acc ds < b"
  shows "radix_loop b r acc ds = Inr (digits_value r acc ds)"
  using assms(2-)
proof (induction ds arbitrary: acc)
  case (Cons c ds)
  then obtain d where d: "char_digit r c = Some d" by auto
  have "0 \<le> r * acc + d" using char_digit_bounds [OF d] assms(1) Cons.prems(1) by simp
  moreover from digits_value_ge [OF assms(1) this, of ds] have "r * acc + d < b" using Cons.prems(3) d by simp
  ultimately show ?case using Cons d by simp
qed simp

lemma hex_padded_props:
  assumes "n < 16 ^ w" "0 < w"
  shows "length (hex_padded w n) = w" "digits_value 16 0 (hex_padded w n) = int n"
    "c \<in> set (hex_padded w n) \<Longrightarrow> char_digit 16 c \<noteq> None" "CHR ''-'' \<notin> set (hex_padded w n)"
proof -
  have zero: "char_digit 16 (CHR ''0'') = Some 0" by (simp add: char_digit_def)
  then have "digits_value 16 0 (replicate k CHR ''0'') = 0" for k by (induction k) simp_all
  then show "digits_value 16 0 (hex_padded w n) = int n"
    by (simp add: hex_padded_def digits_value_append show_hex_value)
  show "length (hex_padded w n) = w"
    using show_hex_length [OF assms] by (simp add: hex_padded_def)
  have digits: "char_digit 16 c \<noteq> None" if "c \<in> set (hex_padded w n)" for c
    using that zero show_hex_digits [of c n] by (auto simp: hex_padded_def)
  then show "c \<in> set (hex_padded w n) \<Longrightarrow> char_digit 16 c \<noteq> None" .
  have "char_digit 16 (CHR ''-'') = None" by simp
  then show "CHR ''-'' \<notin> set (hex_padded w n)" using digits by metis
qed

lemma from_str_radix_padded:
  assumes "n < 16 ^ w" "0 < w"
  shows "from_str_radix (2 ^ (4 * w)) 16 (hex_padded w n) = Inr (int n)"
proof -
  note p = hex_padded_props [OF assms]
  obtain c cs where s: "hex_padded w n = c # cs" using p(1) assms(2) by (cases "hex_padded w n") auto
  have "char_digit 16 (CHR ''+'') = None" by (simp add: char_digit_def)
  then have "c \<noteq> CHR ''+''" "c \<noteq> CHR ''-''" using p(3) [of c] p(4) s by auto
  then have "from_str_radix (2 ^ (4 * w)) 16 (hex_padded w n) = radix_loop (2 ^ (4 * w)) 16 0 (hex_padded w n)"
    by (simp add: from_str_radix_def s)
  also have "\<dots> = Inr (int n)"
  proof -
    have "int n < 2 ^ (4 * w)" using assms(1) by (simp add: power_mult flip: of_nat_power)
    then show ?thesis using p(2,3) by (subst radix_loop_digits) auto
  qed
  finally show ?thesis .
qed

lemma TraceParent_debug_segs:
  "length (TraceParent_debug t) = 55"
  "split_on CHR ''-'' (TraceParent_debug t) =
     [hex_padded 2 (unat (tr_version t)), hex_padded 32 (unat (tr_trace_id t)),
      hex_padded 16 (unat (tr_parent_id t)), hex_padded 2 (unat (tr_flags t))]"
proof -
  have lt: "unat (x::u8) < 16 ^ 2" "unat (y::u128) < 16 ^ 32" "unat (z::u64) < 16 ^ 16" for x y z
    using unsigned_less [of x, where 'a = nat] unsigned_less [of y, where 'a = nat] unsigned_less [of z, where 'a = nat]
    by simp_all
  show "length (TraceParent_debug t) = 55"
    using hex_padded_props(1) [OF lt(1)] hex_padded_props(1) [OF lt(2)] hex_padded_props(1) [OF lt(3)]
    by (simp add: TraceParent_debug_def)
  show "split_on CHR ''-'' (TraceParent_debug t) =
     [hex_padded 2 (unat (tr_version t)), hex_padded 32 (unat (tr_trace_id t)),
      hex_padded 16 (unat (tr_parent_id t)), hex_padded 2 (unat (tr_flags t))]"
    unfolding TraceParent_debug_def
    by (rule split_on_join) (use hex_padded_props(4) lt in auto)
qed

lemma segment_padded:
  assumes "i < length segs" "segs ! i = hex_padded w n" "n < 16 ^ w" "0 < w" "b = 2 ^ (4 * w)"
  shows "segment b i segs = Some (Inr (int n))"
  using assms from_str_radix_padded [OF assms(3,4)] by (simp add: segment_def)

section \<open>Properties\<close>

text \<open>
  C32. The trace context survives the hop: the header one proxy sends is read back by the next as the
  same trace, parent and flags.
\<close>

theorem traceparent_round_trip: "TraceParent_try_from (TraceParent_debug t) = Some (Inr t)"
proof -
  note segs = TraceParent_debug_segs [of t]
  let ?segs = "split_on CHR ''-'' (TraceParent_debug t)"
  have "segment (2 ^ 8) 0 ?segs = Some (Inr (int (unat (tr_version t))))"
    by (rule segment_padded [of _ _ 2]) (use unsigned_less [of "tr_version t", where 'a = nat] in \<open>simp_all add: segs\<close>)
  moreover have "segment (2 ^ 128) 1 ?segs = Some (Inr (int (unat (tr_trace_id t))))"
    by (rule segment_padded [of _ _ 32]) (use unsigned_less [of "tr_trace_id t", where 'a = nat] in \<open>simp_all add: segs\<close>)
  moreover have "segment (2 ^ 64) 2 ?segs = Some (Inr (int (unat (tr_parent_id t))))"
    by (rule segment_padded [of _ _ 16]) (use unsigned_less [of "tr_parent_id t", where 'a = nat] in \<open>simp_all add: segs\<close>)
  moreover have "segment (2 ^ 8) 3 ?segs = Some (Inr (int (unat (tr_flags t))))"
    by (rule segment_padded [of _ _ 2]) (use unsigned_less [of "tr_flags t", where 'a = nat] in \<open>simp_all add: segs\<close>)
  ultimately show ?thesis
    using segs(1) by (simp add: TraceParent_try_from_def then_segment_def Let_def del: of_nat_unat) simp
qed

text \<open>
  A header of the right length with too few segments makes the conversion index past the end: it
  panics, for example on 55 zeros, whose only segment parses.
\<close>

theorem traceparent_panics: "TraceParent_try_from (replicate 55 CHR ''0'') = None"
  by code_simp



end
