(* ===== verification/SandboxManager.thy ===== *)
theory SandboxManager
  imports FileStore ProxyCore
begin

text \<open>
  The identity, credential and readiness of the sandbox a workload proxy serves: the metadata header of
  \<^verbatim>\<open>src/sandbox/metadata.rs\<close>, the credential file of \<^verbatim>\<open>src/sandbox/token.rs\<close>, the registration and
  readiness checks of \<^verbatim>\<open>src/sandbox/sandbox.rs\<close>, their error codes in \<^verbatim>\<open>src/proxy/sandbox.rs\<close> and the
  selection for a connection in \<^verbatim>\<open>src/proxy.rs\<close>. The JSON and structured-field libraries are parameters.
\<close>

section \<open>Metadata and credential\<close>

record sfv_ops =
  sfv_string :: "string \<Rightarrow> string option"
  sfv_dict :: "(string \<times> string) list \<Rightarrow> string"

type_synonym SandboxMetadata = "(string, string) btreemap"

definition SANDBOX_METADATA_HEADER :: string where
  "SANDBOX_METADATA_HEADER = ''x-agentio-sandbox-metadata''"

definition metadata_insert :: "sfv_ops \<Rightarrow> string \<Rightarrow> string \<Rightarrow> SandboxMetadata \<Rightarrow> SandboxMetadata option" where
  "metadata_insert S key v m = map_option (\<lambda>x. bt_insert key x m) (sfv_string S v)"

definition metadata_extend :: "SandboxMetadata \<Rightarrow> SandboxMetadata \<Rightarrow> SandboxMetadata" where
  "metadata_extend m other = bt_extend m other"

definition to_header_value :: "sfv_ops \<Rightarrow> SandboxMetadata \<Rightarrow> string option" where
  "to_header_value S m = (if m = [] then None else Some (sfv_dict S m))"

record AgentIdentityToken =
  tok_access_token :: string
  tok_sandbox_client_id :: string

definition sandbox_token_transform ::
  "sfv_ops \<Rightarrow> (string \<Rightarrow> AgentIdentityToken option) \<Rightarrow> string \<Rightarrow> SandboxMetadata option"
where
  "sandbox_token_transform S parse_token s =
     (if s = [] then Some []
      else Option.bind (parse_token s) (\<lambda>token.
        if tok_access_token token = [] \<or> tok_sandbox_client_id token = [] then None
        else Option.bind (metadata_insert S ''agent-identity.access-token'' (tok_access_token token) [])
               (metadata_insert S ''agent-identity.sandbox-client-id'' (tok_sandbox_client_id token))))"

text \<open>\<open>Path::file_name\<close> and \<open>Path::file_stem\<close>: the last component, and its text before the last dot.\<close>

definition file_name :: "string \<Rightarrow> string option" where
  "file_name path =
     (case rev (filter (\<lambda>c. c \<noteq> [] \<and> c \<noteq> ''.'') (split_on CHR ''/'' path)) of
        [] \<Rightarrow> None | c # _ \<Rightarrow> if c = ''..'' then None else Some c)"

definition stem :: "string \<Rightarrow> string" where
  "stem name =
     (let parts = split_on CHR ''.'' name; before = join ''.'' (butlast parts)
      in if length parts \<le> 1 \<or> before = [] then name else before)"

definition sandbox_token_key :: "string \<Rightarrow> string option" where
  "sandbox_token_key path = map_option stem (file_name path)"

section \<open>The manager\<close>

datatype mgr_error =
    InvalidIdentity sandbox_error
  | MgrIo
  | MgrJson
  | AlreadyRegistered
  | MgrWorkloadMismatch
  | NotReady
  | TokenNotReady
  | TokenLoad scan_error
  | UnknownWorkload
  | UpdateChannelClosed
  | RegistrationTask

text \<open>\<open>Registration\<close> as JSON: what is written to the file, and what reading it back gives.\<close>

record reg_ops =
  reg_write :: "strng \<Rightarrow> string"
  reg_read :: "string \<Rightarrow> strng option"

record SandboxManager =
  sm_workload :: WorkloadInfo
  sm_token :: "(string, SandboxMetadata) btreemap option"
  sm_directory :: bool
  sm_id :: "strng option"

definition sm_new :: "WorkloadInfo \<Rightarrow> SandboxManager" where
  "sm_new workload = \<lparr>sm_workload = workload, sm_token = None, sm_directory = False, sm_id = None\<rparr>"

definition with_registration :: "reg_ops \<Rightarrow> bool \<Rightarrow> file_read \<Rightarrow> SandboxManager \<Rightarrow> (SandboxManager, mgr_error) result" where
  "with_registration J created contents m =
     (if \<not> created then Err MgrIo
      else and_then
        (case contents of
           Content c \<Rightarrow>
             and_then (ok_or (reg_read J c) MgrJson) (\<lambda>sandbox_id.
               and_then (map_err InvalidIdentity (validate_id sandbox_id)) (\<lambda>_. Ok (Some sandbox_id)))
         | ReadNotFound \<Rightarrow> Ok None
         | ReadFailed \<Rightarrow> Err MgrIo)
        (\<lambda>sid. Ok (m\<lparr>sm_directory := True, sm_id := sid\<rparr>)))"

definition check_registration :: "SandboxManager \<Rightarrow> strng \<Rightarrow> (unit, mgr_error) result" where
  "check_registration m sid =
     and_then (map_err InvalidIdentity (validate_id sid)) (\<lambda>_.
       case sm_id m of
         Some current \<Rightarrow> if current \<noteq> sid then Err AlreadyRegistered else Ok ()
       | None \<Rightarrow> Ok ())"

text \<open>
  \<open>register\<close> on the file in the registration directory and the manager. The file operations succeed, or
  fail before the rename that replaces the file, or fail after it. A panic for want of a directory
  reaches the caller as a failed task.
\<close>

datatype commit = Committed | FailedBeforeRename | FailedAfterRename

definition sm_register ::
  "reg_ops \<Rightarrow> commit \<Rightarrow> strng \<Rightarrow> string option \<times> SandboxManager \<Rightarrow>
     (string option \<times> SandboxManager) \<times> (unit, mgr_error) result"
where
  "sm_register J io sid dm =
     (let (file, m) = dm in
      case check_registration m sid of
        Inl e \<Rightarrow> (dm, Err e)
      | Inr _ \<Rightarrow>
          if sm_id m \<noteq> None then (dm, Ok ())
          else if \<not> sm_directory m then (dm, Err RegistrationTask)
          else (case io of
                  FailedBeforeRename \<Rightarrow> (dm, Err MgrIo)
                | FailedAfterRename \<Rightarrow> ((Some (reg_write J sid @ [CHR 0x0A]), m), Err MgrIo)
                | Committed \<Rightarrow> ((Some (reg_write J sid @ [CHR 0x0A]), m\<lparr>sm_id := Some sid\<rparr>), Ok ())))"

definition get_sandbox :: "SandboxManager \<Rightarrow> ProxyState \<Rightarrow> strng \<Rightarrow> (Sandbox, mgr_error) result" where
  "get_sandbox m s sid =
     and_then (ok_or (ws_find_by_info (px_workloads s) (sm_workload m)) NotReady) (\<lambda>workload.
       and_then (map_err (\<lambda>_. MgrWorkloadMismatch) (get_for_workload (px_sandboxes s) sid (wl_uid workload)))
         (\<lambda>sandbox. ok_or sandbox NotReady))"

definition ready_sandbox :: "SandboxManager \<Rightarrow> ProxyState \<Rightarrow> (Sandbox, mgr_error) result" where
  "ready_sandbox m s = and_then (ok_or (sm_id m) NotReady) (get_sandbox m s)"

text \<open>
  \<open>fetch_sandbox\<close> looks at the state when it starts and after each wake-up: the snapshots it sees, in
  order. \<open>None\<close> is a wait that goes on. The outer timeout of \<open>wait_for_sandbox\<close> ends either wait; the
  wait for the workload ends with whether it was found, or with the timeout.
\<close>

definition fetch_current :: "strng \<Rightarrow> ProxyState \<Rightarrow> Sandbox option" where
  "fetch_current sid s =
     Option.bind (sbs_get (px_sandboxes s) sid) (\<lambda>sb. if sb_workload_uid sb \<noteq> None then Some sb else None)"

fun fetch_sandbox_loop :: "strng \<Rightarrow> bool \<Rightarrow> ProxyState list \<Rightarrow> (Sandbox, mgr_error) result option" where
  "fetch_sandbox_loop sid closed [] = (if closed then Some (Err UpdateChannelClosed) else None)"
| "fetch_sandbox_loop sid closed (s # ss) =
     (case fetch_current sid s of Some sb \<Rightarrow> Some (Ok sb) | None \<Rightarrow> fetch_sandbox_loop sid closed ss)"

definition wait_for_sandbox ::
  "SandboxManager \<Rightarrow> strng \<Rightarrow> bool \<Rightarrow> ProxyState list \<Rightarrow> bool option \<Rightarrow> ProxyState \<Rightarrow> (Sandbox, mgr_error) result"
where
  "wait_for_sandbox m sid closed seen workload_found s =
     (case fetch_sandbox_loop sid closed seen of
        None \<Rightarrow> Err NotReady
      | Some r \<Rightarrow>
          and_then r (\<lambda>_.
            case workload_found of
              None \<Rightarrow> Err NotReady | Some found \<Rightarrow> if found then get_sandbox m s sid else Err UnknownWorkload))"

definition require_ready :: "(SandboxMetadata option, scan_error) result \<Rightarrow> (unit, mgr_error) result" where
  "require_ready loaded =
     and_then (map_err TokenLoad loaded) (\<lambda>token.
       case token of Some t \<Rightarrow> if t \<noteq> [] then Ok () else Err TokenNotReady | None \<Rightarrow> Err TokenNotReady)"

text \<open>\<open>prepare\<close>: the registration is checked before the wait and again, under the lock, after it.\<close>

definition prepare ::
  "reg_ops \<Rightarrow> commit \<Rightarrow> strng \<Rightarrow> SandboxManager \<Rightarrow> (Sandbox, mgr_error) result \<Rightarrow> (SandboxMetadata option, scan_error) result \<Rightarrow>
     string option \<times> SandboxManager \<Rightarrow> (string option \<times> SandboxManager) \<times> (unit, mgr_error) result"
where
  "prepare J io sid m0 waited loaded dm =
     (case and_then (check_registration m0 sid) (\<lambda>_. and_then waited (\<lambda>_.
             if sm_token (snd dm) \<noteq> None then require_ready loaded else Ok ())) of
        Inl e \<Rightarrow> (dm, Err e)
      | Inr _ \<Rightarrow> sm_register J io sid dm)"

definition connection_metadata :: "sfv_ops \<Rightarrow> SandboxManager \<Rightarrow> string option" where
  "connection_metadata S m =
     to_header_value S
       (case Option.bind (sm_token m) bt_first of None \<Rightarrow> [] | Some token \<Rightarrow> metadata_extend [] token)"

record SandboxContext =
  sc_sandbox :: "Sandbox option"
  sc_metadata :: "string option"

definition sandbox_for_connection ::
  "sfv_ops \<Rightarrow> SandboxManager option \<Rightarrow> WorkloadInfo \<Rightarrow> ProxyState \<Rightarrow> (SandboxContext, mgr_error) result"
where
  "sandbox_for_connection S mgr info s =
     and_then
       (case mgr of
          Some m \<Rightarrow>
            (case ready_sandbox m s of
               Inr sandbox \<Rightarrow> Ok (Some sandbox)
             | Inl e \<Rightarrow> if e = NotReady then Ok None else Err e)
        | None \<Rightarrow>
            Ok (Option.bind (ws_find_by_info (px_workloads s) info) (\<lambda>workload.
                  case sandboxes_by_workload (px_sandboxes s) (wl_uid workload) of
                    [] \<Rightarrow> None | sb # _ \<Rightarrow> Some sb)))
       (\<lambda>sandbox. Ok \<lparr>sc_sandbox = sandbox,
          sc_metadata = (if sandbox \<noteq> None then Option.bind mgr (connection_metadata S) else None)\<rparr>)"

text \<open>The codes the preparation RPC answers with.\<close>

datatype Code = InvalidArgument | FailedPrecondition | DeadlineExceeded | Unavailable | Internal

fun Status_from :: "mgr_error \<Rightarrow> Code" where
  "Status_from (InvalidIdentity _) = InvalidArgument"
| "Status_from AlreadyRegistered = FailedPrecondition"
| "Status_from MgrWorkloadMismatch = FailedPrecondition"
| "Status_from TokenNotReady = FailedPrecondition"
| "Status_from NotReady = DeadlineExceeded"
| "Status_from UnknownWorkload = Unavailable"
| "Status_from UpdateChannelClosed = Unavailable"
| "Status_from MgrIo = Internal"
| "Status_from MgrJson = Internal"
| "Status_from (TokenLoad _) = Internal"
| "Status_from RegistrationTask = Internal"

section \<open>Registrations over time\<close>

text \<open>
  A registration directory and the manager of the running process: preparations in any order, with any
  failure of the file operations, and restarts that read the file back.
\<close>

definition stored :: "string option \<Rightarrow> file_read" where
  "stored file = (case file of None \<Rightarrow> ReadNotFound | Some c \<Rightarrow> Content c)"

inductive mgr_step :: "reg_ops \<Rightarrow> string option \<times> SandboxManager \<Rightarrow> string option \<times> SandboxManager \<Rightarrow> bool" for J where
  Prepare: "mgr_step J dm (fst (prepare J io sid earlier waited loaded dm))"
| Restart: "with_registration J True (stored (fst dm)) (sm_new info) = Inr m' \<Longrightarrow> mgr_step J dm (fst dm, m')"

inductive mgr_steps :: "reg_ops \<Rightarrow> string option \<times> SandboxManager \<Rightarrow> string option \<times> SandboxManager \<Rightarrow> bool" for J where
  Refl: "mgr_steps J dm dm"
| Step: "mgr_steps J dm dm1 \<Longrightarrow> mgr_step J dm1 dm2 \<Longrightarrow> mgr_steps J dm dm2"

text \<open>The documented round trip of the JSON library on the registration file.\<close>

definition reg_sound :: "reg_ops \<Rightarrow> bool" where
  "reg_sound J \<longleftrightarrow> (\<forall>sid. reg_read J (reg_write J sid @ [CHR 0x0A]) = Some sid)"

definition mgr_inv :: "reg_ops \<Rightarrow> string option \<times> SandboxManager \<Rightarrow> bool" where
  "mgr_inv J dm \<longleftrightarrow>
     (\<forall>sid. sm_id (snd dm) = Some sid \<longrightarrow>
        is_ok (validate_id sid) \<and> (\<exists>c. fst dm = Some c \<and> reg_read J c = Some sid))"

text \<open>A file that holds the identity and a newline.\<close>

definition plain_reg :: reg_ops where
  "plain_reg = \<lparr>reg_write = (\<lambda>sid. sid), reg_read = (\<lambda>c. if c = [] then None else Some (butlast c))\<rparr>"

definition example_mgr :: SandboxManager where
  "example_mgr = (sm_new example_info)\<lparr>sm_directory := True\<rparr>"

definition example_sandbox :: Sandbox where
  "example_sandbox = \<lparr>sb_uid = ''sb-1'', sb_workload_uid = Some ''cluster//Pod/prod/web-1'', sb_traffic_policy = None\<rparr>"

definition example_sandboxed :: ProxyState where
  "example_sandboxed = (fst example_run)\<lparr>px_sandboxes := fst (sbs_insert sbs_default example_sandbox)\<rparr>"

section \<open>Lemmas\<close>

lemma with_registration_inv:
  assumes "with_registration J created (stored file) m = Inr m'"
  shows "mgr_inv J (file, m')"
  using assms
  by (auto simp: with_registration_def mgr_inv_def stored_def and_then_Ok is_ok_iff split: if_splits option.splits)

lemma register_inv:
  assumes "reg_sound J" "mgr_inv J dm"
  shows "mgr_inv J (fst (sm_register J io sid dm))"
  using assms
  by (auto simp: sm_register_def mgr_inv_def reg_sound_def check_registration_def case_prod_unfold Let_def and_then_Ok
      is_ok_iff split: sum.splits commit.splits)

lemma register_keeps_id:
  assumes "sm_id (snd dm) = Some sid"
  shows "fst (sm_register J io sid' dm) = dm" "is_ok (snd (sm_register J io sid' dm)) \<longleftrightarrow> is_ok (validate_id sid') \<and> sid' = sid"
  using assms
  by (auto simp: sm_register_def check_registration_def case_prod_unfold Let_def is_ok_and_then is_ok_iff and_then_Ok
      and_then_Err split: sum.splits)

lemma prepare_register:
  "fst (prepare J io sid m0 waited loaded dm) = dm \<or>
   fst (prepare J io sid m0 waited loaded dm) = fst (sm_register J io sid dm)"
  by (auto simp: prepare_def split: sum.splits)

lemma mgr_inv_step:
  assumes "reg_sound J" "mgr_step J dm dm'" "mgr_inv J dm"
  shows "mgr_inv J dm'"
  using assms(2,3)
proof cases
  case (Prepare io sid m0 waited loaded)
  then show ?thesis
    using prepare_register [of J io sid m0 waited loaded dm] register_inv [OF assms(1,3)] assms(3) by metis
next
  case (Restart info m')
  then show ?thesis using with_registration_inv by simp
qed

lemma mgr_step_id:
  assumes "mgr_inv J dm" "mgr_step J dm dm'" "sm_id (snd dm) = Some sid"
  shows "sm_id (snd dm') = Some sid"
  using assms(2)
proof cases
  case (Prepare io sid' m0 waited loaded)
  then show ?thesis
    using prepare_register [of J io sid' m0 waited loaded dm] register_keeps_id(1) [OF assms(3)] assms(3) by metis
next
  case (Restart info m')
  moreover from assms(1,3) obtain c where "fst dm = Some c" "reg_read J c = Some sid" by (auto simp: mgr_inv_def)
  ultimately show ?thesis by (auto simp: with_registration_def stored_def and_then_Ok)
qed

lemma mgr_steps_id:
  assumes "reg_sound J" "mgr_steps J dm dm'" "mgr_inv J dm" "sm_id (snd dm) = Some sid"
  shows "mgr_inv J dm' \<and> sm_id (snd dm') = Some sid"
  using assms(2-) by (induction rule: mgr_steps.induct) (auto intro: mgr_inv_step [OF assms(1)] mgr_step_id)

lemma get_sandbox_Ok:
  assumes "sbs_inv (px_sandboxes s)" "get_sandbox m s sid = Inr sb"
  shows "\<exists>w. ws_find_by_info (px_workloads s) (sm_workload m) = Some w \<and> sb_workload_uid sb = Some (wl_uid w) \<and>
    sb_uid sb = sid \<and> sbs_get (px_sandboxes s) sid = Some sb"
proof -
  obtain w where w: "ws_find_by_info (px_workloads s) (sm_workload m) = Some w"
    and get: "get_for_workload (px_sandboxes s) sid (wl_uid w) = Inr (Some sb)"
    using assms(2) by (auto simp: get_sandbox_def and_then_Ok)
  from get have "sbs_get (px_sandboxes s) sid = Some sb" "sb_workload_uid sb = Some (wl_uid w)"
    by (auto simp: get_for_workload_def split: option.splits if_splits)
  with w assms(1) show ?thesis unfolding sbs_inv_def by blast
qed

lemma sandboxes_by_workload_bound:
  assumes "sbs_inv (px_sandboxes s)" "sandboxes_by_workload (px_sandboxes s) w = sb # sbs"
  shows "sb_workload_uid sb = Some w \<and> sbs_get (px_sandboxes s) (sb_uid sb) = Some sb"
  using sandboxes_by_workload_ids(2) [OF assms(1), of w] assms(2) by (metis (mono_tags) list.set_intros(1) mem_Collect_eq)

section \<open>Properties\<close>

text \<open>
  C29. A proxy serves one sandbox for the life of its registration directory: once an identity is
  registered, it stays registered under every later preparation, failing file operation and restart, and
  every attempt to register another identity is refused.
\<close>

theorem registration_stable:
  assumes "reg_sound J" "with_registration J True (stored file) (sm_new info) = Inr m0"
    and "mgr_steps J (file, m0) dm" "sm_id (snd dm) = Some sid" "mgr_steps J dm dm'"
  shows "sm_id (snd dm') = Some sid \<and>
    (is_ok (snd (sm_register J io sid' dm')) \<longleftrightarrow> sid' = sid)"
proof -
  have "mgr_inv J dm"
    using assms(3) with_registration_inv [OF assms(2)]
    by (induction rule: mgr_steps.induct) (auto intro: mgr_inv_step [OF assms(1)])
  from mgr_steps_id [OF assms(1,5) this assms(4)]
  have inv: "mgr_inv J dm'" and sid: "sm_id (snd dm') = Some sid" by auto
  from inv sid have "is_ok (validate_id sid)" by (simp add: mgr_inv_def)
  with sid show ?thesis using register_keeps_id(2) [OF sid, of J io sid'] by auto
qed

theorem registration_stable_witness:
  "\<not> is_ok (snd (sm_register plain_reg Committed ''sb-2'' (Some (''sb-1'' @ [CHR 0x0A]), example_mgr\<lparr>sm_id := Some ''sb-1''\<rparr>)))"
proof -
  let ?dm = "(Some (''sb-1'' @ [CHR 0x0A]), example_mgr\<lparr>sm_id := Some ''sb-1''\<rparr>)"
  let ?sb = "\<lparr>sb_uid = ''sb-1'', sb_workload_uid = None, sb_traffic_policy = None\<rparr>"
  have sound: "reg_sound plain_reg" by (simp add: reg_sound_def plain_reg_def)
  have start: "with_registration plain_reg True (stored None) (sm_new example_info) = Inr example_mgr" by code_simp
  have "fst (prepare plain_reg Committed ''sb-1'' example_mgr (Inr ?sb) (Inr None) (None, example_mgr)) = ?dm"
    by code_simp
  then have run: "mgr_steps plain_reg (None, example_mgr) ?dm"
    using mgr_steps.Step [OF mgr_steps.Refl mgr_step.Prepare [where io = Committed and sid = "''sb-1''" and earlier = example_mgr
      and waited = "Inr ?sb" and loaded = "Inr None" and dm = "(None, example_mgr)" and J = plain_reg]] by simp
  have sid: "sm_id (snd ?dm) = Some ''sb-1''" by simp
  from registration_stable [OF sound start run sid mgr_steps.Refl, of Committed "''sb-2''"] show ?thesis by simp
qed

text \<open>
  C30. The sandbox selected for a connection belongs to this proxy: it is the current resource of its
  identity, it is bound to the workload this proxy serves, and with a manager it is the registered one.
\<close>

theorem sandbox_selection_sound:
  assumes "px_inv s" "sandbox_for_connection S mgr info s = Inr ctx" "sc_sandbox ctx = Some sb"
    and "pred_option (\<lambda>m. sm_workload m = info) mgr"
  shows "sbs_get (px_sandboxes s) (sb_uid sb) = Some sb \<and>
    (\<exists>w. ws_find_by_info (px_workloads s) info = Some w \<and> sb_workload_uid sb = Some (wl_uid w)) \<and>
    pred_option (\<lambda>m. sm_id m = Some (sb_uid sb)) mgr"
proof (cases mgr)
  case None
  then obtain w sbs where "ws_find_by_info (px_workloads s) info = Some w"
      "sandboxes_by_workload (px_sandboxes s) (wl_uid w) = sb # sbs"
    using assms(2,3)
    by (cases "ws_find_by_info (px_workloads s) info") (auto simp: sandbox_for_connection_def split: list.splits)
  with None sandboxes_by_workload_bound [of s "wl_uid w" sb sbs] assms(1) show ?thesis by (auto simp: px_inv_def)
next
  case (Some m)
  then obtain sid where "sm_id m = Some sid" "get_sandbox m s sid = Inr sb"
    using assms(2,3) by (auto simp: sandbox_for_connection_def ready_sandbox_def and_then_Ok split: sum.splits if_splits)
  with get_sandbox_Ok [of s m sid sb] assms(1,4) Some show ?thesis by (auto simp: px_inv_def)
qed

theorem sandbox_selection_sound_witness:
  "\<exists>w. ws_find_by_info (px_workloads example_sandboxed) example_info = Some w \<and>
     sb_workload_uid example_sandbox = Some (wl_uid w)"
proof -
  let ?S = "\<lparr>sfv_string = Some, sfv_dict = (\<lambda>_. [])\<rparr>" and ?m = "example_mgr\<lparr>sm_id := Some ''sb-1''\<rparr>"
  have inv: "px_inv example_sandboxed"
    using xds_run_inv [of cidr_ops example_codec None] sbs_inv_insert [OF sbs_inv_default]
    by (simp add: example_sandboxed_def example_run_def px_inv_def)
  have "sandbox_for_connection ?S (Some ?m) example_info example_sandboxed =
      Inr \<lparr>sc_sandbox = Some example_sandbox, sc_metadata = None\<rparr>"
    by code_simp
  from sandbox_selection_sound [OF inv this, of example_sandbox] show ?thesis
    by (simp add: example_mgr_def sm_new_def)
qed

end
