(* ===== verification/Outbound.thy ===== *)
theory Outbound
  imports SandboxManager
begin

text \<open>
  Outbound connections of a workload, \<^verbatim>\<open>src/proxy/outbound.rs\<close>: the egress policy that applies to a
  target, the request built from it, the authorization of the connection and the CONNECT request sent to
  a gateway. Load balancing and name resolution are the parameters of \<open>fetch_waypoint\<close>; the wait for the
  local workload (\<open>get_workload\<close>) is its outcome.
\<close>

section \<open>Configuration and requests\<close>

text \<open>The fields of \<open>config::Config\<close> and \<open>ProxyInputs\<close> that the listeners read.\<close>

record Config =
  cfg_illegal_ports :: "u16 list"
  cfg_network :: strng
  cfg_localhost_app_tunnel :: bool
  cfg_sidecar_mode :: bool
  cfg_enable_enhanced_baggage :: bool
  cfg_disable_inbound_freebind :: bool

definition illegal_ports :: "SocketAddr \<Rightarrow> SocketAddr \<Rightarrow> SocketAddr \<Rightarrow> u16 list" where
  "illegal_ports inbound_addr inbound_plaintext_addr outbound_addr =
     remdups [sock_port inbound_addr, sock_port inbound_plaintext_addr, sock_port outbound_addr]"

record Request =
  rq_protocol :: OutboundProtocol
  rq_source :: Workload
  rq_sandbox_context :: SandboxContext
  rq_actual_destination_workload :: "Workload option"
  rq_actual_destination :: SocketAddr
  rq_hbone_target_destination :: "HboneAddress option"
  rq_upstream_sans :: "Identity list"

section \<open>Egress policy\<close>

definition policy_matches :: "ipnet_ops \<Rightarrow> strng \<Rightarrow> SocketAddr \<Rightarrow> EgressPolicy \<Rightarrow> bool" where
  "policy_matches N source_namespace target policy =
     (let ns_ok = (ep_namespaces policy = {} \<or> source_namespace \<in> ep_namespaces policy) in
      if \<not> ns_ok then False
      else
        let cidr_ok = (ep_match_cidrs policy = [] \<or>
              list_ex (\<lambda>cidr. net_contains N cidr (sock_ip target)) (ep_match_cidrs policy)) in
        if \<not> cidr_ok then False
        else ep_match_ports policy = [] \<or> list_ex (\<lambda>p. p = sock_port target) (ep_match_ports policy))"

definition match_egress_policy ::
  "ipnet_ops \<Rightarrow> EgressPolicies \<Rightarrow> strng \<Rightarrow> SocketAddr \<Rightarrow> EgressPolicy option"
where
  "match_egress_policy N policies source_namespace target =
     find (policy_matches N source_namespace target) (eps_policies policies)"

definition match_source_egress_policy :: "ipnet_ops \<Rightarrow> Workload \<Rightarrow> SocketAddr \<Rightarrow> EgressPolicy option" where
  "match_source_egress_policy N source_workload target =
     Option.bind (wl_egress_policies source_workload)
       (\<lambda>policies. match_egress_policy N policies (wl_namespace source_workload) target)"

definition apply_egress_policy ::
  "ipnet_ops \<Rightarrow> rand_ops \<Rightarrow> (string \<Rightarrow> IpAddr list option) \<Rightarrow> ProxyState \<Rightarrow> Workload \<Rightarrow> SandboxContext \<Rightarrow> SocketAddr \<Rightarrow>
     (Request, request_error) result option"
where
  "apply_egress_policy N R lookup_ip s source_workload context target =
     (case map_option (\<lambda>policy. (ep_policy policy, ep_gateway policy))
             (match_source_egress_policy N source_workload target) of
        None \<Rightarrow> None
      | Some (action, gateway) \<Rightarrow>
          (case action of
             Passthrough \<Rightarrow> None
           | EgressDeny \<Rightarrow> Some (Err (EgressPolicyDenied target))
           | Gateway \<Rightarrow>
               (case gateway of
                  None \<Rightarrow> Some (Err (EgressPolicyGatewayMissing target))
                | Some gw_address \<Rightarrow>
                    (case fetch_waypoint R lookup_ip s gw_address source_workload target of
                       Inl e \<Rightarrow> Some (Err (RoutingError e))
                     | Inr waypoint \<Rightarrow>
                         Some (Ok \<lparr>rq_protocol = OutHbone, rq_source = source_workload, rq_sandbox_context = context,
                           rq_actual_destination_workload = Some (up_workload waypoint),
                           rq_actual_destination = workload_socket_addr waypoint,
                           rq_hbone_target_destination = Some (HboneSocket target),
                           rq_upstream_sans = workload_and_services_san waypoint\<rparr>)))))"

definition build_request ::
  "ipnet_ops \<Rightarrow> rand_ops \<Rightarrow> (string \<Rightarrow> IpAddr list option) \<Rightarrow> Config \<Rightarrow> ProxyState \<Rightarrow> Workload \<Rightarrow> SandboxContext \<Rightarrow>
     SocketAddr \<Rightarrow> (Request, request_error) result"
where
  "build_request N R lookup_ip cfg s source_workload context target =
     (if sock_port target \<in> set (cfg_illegal_ports cfg) \<and>
         (is_loopback (sock_ip target) \<or> sock_ip target \<in> set (wl_workload_ips source_workload))
      then Err SelfCall
      else
        case apply_egress_policy N R lookup_ip s source_workload context target of
          Some result \<Rightarrow> result
        | None \<Rightarrow>
            Ok \<lparr>rq_protocol = OutTcp, rq_source = source_workload, rq_sandbox_context = context,
                rq_actual_destination_workload = None, rq_actual_destination = target,
                rq_hbone_target_destination = None, rq_upstream_sans = []\<rparr>)"

section \<open>Admission\<close>

definition outbound_context :: "Request \<Rightarrow> SocketAddr \<Rightarrow> SocketAddr \<Rightarrow> ConnectionContext" where
  "outbound_context req source_addr dest_addr =
     \<lparr>cc_rbac_ctx =
        \<lparr>rc_conn =
           \<lparr>conn_src = source_addr, conn_dst = dest_addr, conn_src_identity = Some (wl_identity (rq_source req)),
            conn_dst_network = (case rq_actual_destination_workload req of None \<Rightarrow> '''' | Some x \<Rightarrow> wl_network x),
            conn_direction = Outbound\<rparr>,
         rc_workload = rq_source req, rc_sandbox = sc_sandbox (rq_sandbox_context req)\<rparr>,
      cc_attributes = OutboundAttrs \<lparr>oa_actual_dst = rq_actual_destination req, oa_protocol = rq_protocol req\<rparr>\<rparr>"

datatype admission_error = SandboxNotReady mgr_error | AdmissionError request_error

text \<open>
  \<open>proxy_to\<close> up to the guard of the connection: the request and the guard, or why the connection is
  refused. The proxy state is read for the sandbox, for the route and for the authorization; updates may
  come in between, hence the three states.
\<close>

definition proxy_to ::
  "ipnet_ops \<Rightarrow> rand_ops \<Rightarrow> (string \<Rightarrow> IpAddr list option) \<Rightarrow> sfv_ops \<Rightarrow> Config \<Rightarrow> SandboxManager option \<Rightarrow>
     WorkloadInfo \<Rightarrow> ProxyState \<Rightarrow> ProxyState \<Rightarrow> ProxyState \<Rightarrow> Workload option \<Rightarrow> SocketAddr \<Rightarrow> SocketAddr \<Rightarrow>
     ConnectionManager \<Rightarrow> ConnectionManager \<times> (Request \<times> ConnectionContext \<times> nat, admission_error) result"
where
  "proxy_to N R lookup_ip S cfg mgr info s_sandbox s_route s_auth local source_addr dest_addr m =
     (case and_then (map_err AdmissionError (ok_or local UnknownSourceWorkload)) (\<lambda>source.
             and_then (map_err SandboxNotReady (sandbox_for_connection S mgr info s_sandbox)) (\<lambda>sandbox.
               map_err AdmissionError (build_request N R lookup_ip cfg s_route source sandbox dest_addr))) of
        Inl e \<Rightarrow> (m, Err e)
      | Inr req \<Rightarrow>
          (case cm_assert_rbac N s_auth (outbound_context req source_addr dest_addr) m of
             (m', Inl e) \<Rightarrow> (m', Err (AdmissionError (RequestRejected e)))
           | (m', Inr (ctx, watch)) \<Rightarrow> (m', Ok (req, ctx, watch))))"

section \<open>The CONNECT request\<close>

record WorkloadKey =
  wk_src_id :: Identity
  wk_dst_id :: "Identity list"
  wk_sandbox_id :: "strng option"
  wk_src :: IpAddr
  wk_dst :: SocketAddr

definition pool_key :: "SocketAddr \<Rightarrow> Request \<Rightarrow> WorkloadKey" where
  "pool_key remote_addr req =
     \<lparr>wk_src_id = wl_identity (rq_source req), wk_dst_id = rq_upstream_sans req,
      wk_sandbox_id = map_option sb_uid (sc_sandbox (rq_sandbox_context req)),
      wk_src = sock_ip remote_addr, wk_dst = rq_actual_destination req\<rparr>"

definition build_forwarded :: "SocketAddr \<Rightarrow> string" where
  "build_forwarded remote_addr = ''for='' @ [CHR 0x22] @ sock_display remote_addr @ [CHR 0x22]"

definition outbound_baggage :: "Request \<Rightarrow> string" where
  "outbound_baggage r = baggage_header_val (wl_baggage (rq_source r)) (wl_workload_type (rq_source r))"

record http_request =
  hr_uri :: string
  hr_method :: string
  hr_headers :: "(string \<times> string) list"
  hr_protocol :: "string option"

text \<open>\<open>create_hbone_request\<close>; the target is there (\<open>expect\<close>): otherwise there is no request.\<close>

definition create_hbone_request :: "TraceParent \<Rightarrow> SocketAddr \<Rightarrow> Request \<Rightarrow> http_request option" where
  "create_hbone_request trace remote_addr req =
     map_option (\<lambda>target.
       \<lparr>hr_uri = hbone_display target, hr_method = ''CONNECT'',
        hr_headers =
          [(''baggage'', outbound_baggage req), (''forwarded'', build_forwarded remote_addr),
           (''traceparent'', TraceParent_debug trace)] @
          (case sc_sandbox (rq_sandbox_context req) of
             None \<Rightarrow> [] | Some sandbox \<Rightarrow> [(''x-agentio-sandbox-id'', sb_uid sandbox)]) @
          (case sc_metadata (rq_sandbox_context req) of
             None \<Rightarrow> [] | Some header \<Rightarrow> [(SANDBOX_METADATA_HEADER, header)]),
        hr_protocol = None\<rparr>) (rq_hbone_target_destination req)"

definition connect_udp_masque_path :: "HboneAddress option \<Rightarrow> (string, request_error) result" where
  "connect_udp_masque_path target =
     (case target of
        Some (HboneSocket a) \<Rightarrow>
          (case sock_ip a of
             V4 x \<Rightarrow>
               if sock_port a \<noteq> 0
               then Ok (''/.well-known/masque/udp/'' @ ipv4_display x @ ''/'' @ show_nat (unat (sock_port a)) @ ''/'')
               else Err (UnsupportedFeature ''CONNECT-UDP egress policy requires a numeric IPv4 target'')
           | V6 _ \<Rightarrow> Err (UnsupportedFeature ''CONNECT-UDP egress policy requires a numeric IPv4 target''))
      | _ \<Rightarrow> Err (UnsupportedFeature ''CONNECT-UDP egress policy requires a numeric IPv4 target''))"

definition create_connect_udp_request ::
  "TraceParent \<Rightarrow> SocketAddr \<Rightarrow> Request \<Rightarrow> (http_request option, request_error) result"
where
  "create_connect_udp_request trace source_addr req =
     and_then (connect_udp_masque_path (rq_hbone_target_destination req)) (\<lambda>path.
       Ok (map_option (\<lambda>request. request\<lparr>
             hr_uri := ''https://'' @ sock_display (rq_actual_destination req) @ path,
             hr_headers := hr_headers request @ [(''capsule-protocol'', ''?1'')],
             hr_protocol := Some ''connect-udp''\<rparr>) (create_hbone_request trace source_addr req)))"

text \<open>\<open>connect_udp\<close> up to the pooled stream: the gateway it records, the pool key and the request.\<close>

definition connect_udp ::
  "ipnet_ops \<Rightarrow> rand_ops \<Rightarrow> (string \<Rightarrow> IpAddr list option) \<Rightarrow> sfv_ops \<Rightarrow> Config \<Rightarrow> SandboxManager option \<Rightarrow>
     WorkloadInfo \<Rightarrow> ProxyState \<Rightarrow> ProxyState \<Rightarrow> Workload option \<Rightarrow> TraceParent \<Rightarrow> SocketAddr \<Rightarrow> SocketAddr \<Rightarrow>
     SocketAddr option \<times> (WorkloadKey \<times> http_request option, admission_error) result"
where
  "connect_udp N R lookup_ip S cfg mgr info s_sandbox s_route local trace source_addr dest_addr =
     (case and_then (map_err AdmissionError (ok_or local UnknownSourceWorkload)) (\<lambda>source.
             and_then (map_err SandboxNotReady (sandbox_for_connection S mgr info s_sandbox)) (\<lambda>sandbox.
               map_err AdmissionError (build_request N R lookup_ip cfg s_route source sandbox dest_addr))) of
        Inl e \<Rightarrow> (None, Err e)
      | Inr req \<Rightarrow>
          if rq_protocol req \<noteq> OutHbone
          then (None, Err (AdmissionError (UnsupportedFeature ''CONNECT-UDP PoC requires an HBONE gateway route'')))
          else
            (Some (rq_actual_destination req),
             and_then (map_err AdmissionError (create_connect_udp_request trace source_addr req))
               (\<lambda>request. Ok (pool_key source_addr req, request))))"

section \<open>Specification\<close>

definition self_call :: "Config \<Rightarrow> Workload \<Rightarrow> SocketAddr \<Rightarrow> bool" where
  "self_call cfg w target \<longleftrightarrow>
     sock_port target \<in> set (cfg_illegal_ports cfg) \<and>
     (is_loopback (sock_ip target) \<or> sock_ip target \<in> set (wl_workload_ips w))"

text \<open>What the first egress policy that covers the namespace, the address and the port says.\<close>

definition covers :: "ipnet_ops \<Rightarrow> strng \<Rightarrow> SocketAddr \<Rightarrow> EgressPolicy \<Rightarrow> bool" where
  "covers N ns target p \<longleftrightarrow>
     (ep_namespaces p = {} \<or> ns \<in> ep_namespaces p) \<and>
     (ep_match_cidrs p = [] \<or> (\<exists>cidr \<in> set (ep_match_cidrs p). net_contains N cidr (sock_ip target))) \<and>
     (ep_match_ports p = [] \<or> sock_port target \<in> set (ep_match_ports p))"

definition egress_decision :: "ipnet_ops \<Rightarrow> Workload \<Rightarrow> SocketAddr \<Rightarrow> EgressPolicy option \<Rightarrow> bool" where
  "egress_decision N w target d \<longleftrightarrow>
     (let ps = (case wl_egress_policies w of None \<Rightarrow> [] | Some e \<Rightarrow> eps_policies e) in
      case d of
        None \<Rightarrow> \<forall>p \<in> set ps. \<not> covers N (wl_namespace w) target p
      | Some p \<Rightarrow> \<exists>i < length ps. ps ! i = p \<and> covers N (wl_namespace w) target p \<and>
          (\<forall>j < i. \<not> covers N (wl_namespace w) target (ps ! j)))"

definition example_sfv :: sfv_ops where
  "example_sfv = \<lparr>sfv_string = Some, sfv_dict = concat \<circ> map snd\<rparr>"

definition example_cfg :: Config where
  "example_cfg = \<lparr>cfg_illegal_ports = [15008, 15006, 15001], cfg_network = '''', cfg_localhost_app_tunnel = True,
     cfg_sidecar_mode = False, cfg_enable_enhanced_baggage = True, cfg_disable_inbound_freebind = False\<rparr>"

section \<open>Lemmas\<close>

lemma policy_matches_covers: "policy_matches N ns target p \<longleftrightarrow> covers N ns target p"
  by (auto simp: policy_matches_def covers_def list_ex_iff Let_def)

lemma match_source_decision: "egress_decision N w target (match_source_egress_policy N w target)"
proof (cases "wl_egress_policies w")
  case (Some e)
  show ?thesis
  proof (cases "find (policy_matches N (wl_namespace w) target) (eps_policies e)")
    case None
    then have "\<forall>p \<in> set (eps_policies e). \<not> covers N (wl_namespace w) target p"
      by (simp add: find_None_iff policy_matches_covers)
    with None Some show ?thesis
      by (simp add: egress_decision_def match_source_egress_policy_def match_egress_policy_def)
  next
    case found: (Some p)
    then have "\<exists>i < length (eps_policies e). eps_policies e ! i = p \<and> covers N (wl_namespace w) target p \<and>
        (\<forall>j < i. \<not> covers N (wl_namespace w) target (eps_policies e ! j))"
      by (auto simp: find_Some_iff policy_matches_covers)
    with found Some show ?thesis
      by (simp add: egress_decision_def match_source_egress_policy_def match_egress_policy_def)
  qed
qed (simp add: egress_decision_def match_source_egress_policy_def)

lemma egress_decision_unique:
  assumes "egress_decision N w target d" "egress_decision N w target d'"
  shows "d = d'"
proof -
  define ps where "ps = (case wl_egress_policies w of None \<Rightarrow> [] | Some e \<Rightarrow> eps_policies e)"
  let ?c = "covers N (wl_namespace w) target"
  note def = egress_decision_def ps_def [symmetric] Let_def
  have first: "i = j" if "i < length ps" "?c (ps ! i)" "\<forall>k < i. \<not> ?c (ps ! k)" "j < length ps" "?c (ps ! j)" "\<forall>k < j. \<not> ?c (ps ! k)"
    for i j using that by (meson linorder_neqE_nat)
  show ?thesis
  proof (cases d; cases d')
    fix p q assume "d = Some p" "d' = Some q"
    then show ?thesis using assms first unfolding def by auto
  qed (use assms in \<open>auto simp: def\<close>)
qed

text \<open>The request that is built, by the first covering policy.\<close>

lemma build_request_cases:
  assumes "build_request N R lookup_ip cfg s w ctx target = Inr req"
  shows "\<not> self_call cfg w target \<and> rq_source req = w \<and> rq_sandbox_context req = ctx \<and>
    (\<exists>d. egress_decision N w target d \<and>
       (case rq_protocol req of
          OutTcp \<Rightarrow> pred_option (\<lambda>p. ep_policy p = Passthrough) d \<and> rq_actual_destination req = target \<and>
            rq_hbone_target_destination req = None \<and> rq_actual_destination_workload req = None
        | OutHbone \<Rightarrow>
            (\<exists>p gw up. d = Some p \<and> ep_policy p = Gateway \<and> ep_gateway p = Some gw \<and>
               fetch_waypoint R lookup_ip s gw w target = Inr up \<and>
               rq_actual_destination req = workload_socket_addr up \<and>
               rq_actual_destination_workload req = Some (up_workload up) \<and>
               rq_hbone_target_destination req = Some (HboneSocket target) \<and>
               rq_upstream_sans req = workload_and_services_san up)))"
proof -
  note decision = match_source_decision [of N w target]
  have self: "\<not> self_call cfg w target" using assms by (auto simp: build_request_def self_call_def)
  show ?thesis
  proof (cases "apply_egress_policy N R lookup_ip s w ctx target")
    case None
    then have "pred_option (\<lambda>p. ep_policy p = Passthrough) (match_source_egress_policy N w target)"
      by (auto simp: apply_egress_policy_def split: option.splits EgressPolicyAction.splits sum.splits)
    with None self assms decision show ?thesis by (auto simp: build_request_def split: if_splits)
  next
    case (Some r)
    then have "r = Inr req" using assms by (auto simp: build_request_def split: if_splits)
    with Some obtain p gw up where "match_source_egress_policy N w target = Some p" "ep_policy p = Gateway"
        "ep_gateway p = Some gw" "fetch_waypoint R lookup_ip s gw w target = Inr up"
      and req: "req = \<lparr>rq_protocol = OutHbone, rq_source = w, rq_sandbox_context = ctx,
           rq_actual_destination_workload = Some (up_workload up), rq_actual_destination = workload_socket_addr up,
           rq_hbone_target_destination = Some (HboneSocket target), rq_upstream_sans = workload_and_services_san up\<rparr>"
      by (auto simp: apply_egress_policy_def split: option.splits EgressPolicyAction.splits sum.splits)
    with self decision show ?thesis by auto
  qed
qed

lemma cm_assert_rbac_cases:
  assumes "cm_assert_rbac N s ctx m = (m', r)"
  shows "case r of
     Inl e \<Rightarrow> \<not> allowed N s ctx
   | Inr (ctx', watch) \<Rightarrow> ctx' = ctx \<and> chan m' ctx = Some watch \<and> allowed N s ctx"
proof (cases "assert_rbac N s (cc_rbac_ctx ctx)")
  case (Inl e)
  with assms show ?thesis
    by (auto simp: cm_assert_rbac_def allowed_def case_prod_unfold Let_def)
next
  case (Inr u)
  with assms have "m' = fst (register ctx m)" "r = Inr (ctx, snd (register ctx m))"
    by (auto simp: cm_assert_rbac_def case_prod_unfold Let_def)
  then show ?thesis
    using register_view [where m = m and c = ctx] Inr
    by (cases "chan m ctx") (auto simp: allowed_def same_view_def opens_view_def)
qed

section \<open>Properties\<close>



end
