(* ===== verification/Inbound.thy ===== *)
theory Inbound
  imports Outbound
begin

text \<open>
  Inbound connections, \<^verbatim>\<open>src/proxy/inbound.rs\<close> (HBONE) and \<^verbatim>\<open>src/proxy/inbound_passthrough.rs\<close> (plain
  text): the checks on the destination of a CONNECT request, the address the connection is forwarded to,
  its authorization and the response. The proxy state is read at several points of a request, between
  which updates may come in: \<open>Snapshots\<close> names the state at each of them.
\<close>

section \<open>Requests and responses\<close>

datatype StatusCode = OK_200 | BAD_REQUEST_400 | UNAUTHORIZED_401 | SERVICE_UNAVAILABLE_503

record TunnelRequest =
  tn_tunnel_target :: SocketAddr
  tn_protocol :: TunnelApp

text \<open>
  The parts of a request: a header value is what \<open>to_str\<close> gives, \<open>None\<close> when it is not visible ASCII.
\<close>

record RequestParts =
  rp_method :: string
  rp_uri :: Uri
  rp_forwarded :: "string option option"
  rp_baggage :: "string option list"

record DerivedWorkload =
  dw_workload_name :: "strng option"
  dw_app :: "strng option"
  dw_revision :: "strng option"
  dw_namespace :: "strng option"
  dw_identity :: "Identity option"
  dw_cluster_id :: "strng option"
  dw_region :: "strng option"
  dw_zone :: "strng option"

definition DerivedWorkload_default :: DerivedWorkload where
  "DerivedWorkload_default = \<lparr>dw_workload_name = None, dw_app = None, dw_revision = None, dw_namespace = None,
     dw_identity = None, dw_cluster_id = None, dw_region = None, dw_zone = None\<rparr>"

record InboundRequest =
  ir_for_host :: "string option"
  ir_rbac_ctx :: ProxyRbacContext
  ir_derived_source :: DerivedWorkload
  ir_destination_service :: "ServiceDescription option"
  ir_upstream_addr :: SocketAddr
  ir_tunnel_request :: "TunnelRequest option"
  ir_destination_workload :: Workload

record Snapshots =
  sn_validate :: ProxyState
  sn_fetched :: ProxyState
  sn_route :: ProxyState
  sn_sandbox :: ProxyState
  sn_authorize :: ProxyState

definition forwarded_host :: "RequestParts \<Rightarrow> string option" where
  "forwarded_host req = Option.bind (rp_forwarded req) (\<lambda>rh. Option.bind rh parse_forwarded_host)"

definition build_response :: "StatusCode \<Rightarrow> Workload option \<Rightarrow> bool \<Rightarrow> StatusCode \<times> (string \<times> string) list" where
  "build_response status local_wl enable_response_baggage =
     (status,
      case local_wl of
        Some wl \<Rightarrow>
          if enable_response_baggage then [(''baggage'', baggage_header_val (wl_baggage wl) (wl_workload_type wl))] else []
      | None \<Rightarrow> [])"

section \<open>The destination\<close>

definition inbound_service_by_hostname :: "ProxyState \<Rightarrow> Workload \<Rightarrow> strng \<Rightarrow> (Service, request_error) result" where
  "inbound_service_by_hostname s local_workload hbone_host =
     ok_or (get_best_by_host (px_services s) hbone_host (Some (wl_namespace local_workload)))
       (RoutingError (NoHostname hbone_host))"

text \<open>\<open>lookup_is_destination_this_waypoint\<close>: \<open>None\<close> when the target has to be fetched first.\<close>

definition is_destination_this_waypoint ::
  "ProxyState \<Rightarrow> Connection \<Rightarrow> Workload \<Rightarrow> NetworkAddress \<Rightarrow> bool option"
where
  "is_destination_this_waypoint s conn local_workload hbone_dst =
     Option.bind (px_find_address s hbone_dst) (\<lambda>hbone_target.
       case (case hbone_target of AddressService svc \<Rightarrow> sv_waypoint svc | AddressWorkload wl \<Rightarrow> wl_waypoint wl) of
         None \<Rightarrow> Some False
       | Some target_waypoint \<Rightarrow>
           (case find_destination s (gw_destination target_waypoint) of
              None \<Rightarrow> Some False
            | Some (AddressService svc) \<Rightarrow> Some (contains_endpoint svc local_workload)
            | Some (AddressWorkload wl) \<Rightarrow> Some (sock_ip (conn_dst conn) \<in> set (wl_workload_ips wl))))"

definition validate_destination ::
  "ProxyState \<Rightarrow> bool \<Rightarrow> ProxyState \<Rightarrow> Connection \<Rightarrow> Workload \<Rightarrow> HboneAddress \<Rightarrow> (unit, request_error) result"
where
  "validate_destination s supports_on_demand fetched conn local_workload hbone_addr =
     (case hbone_addr of
        SvcHostname _ _ \<Rightarrow> Ok ()
      | HboneSocket addr \<Rightarrow>
          if sock_ip (conn_dst conn) = sock_ip addr then Ok ()
          else if wl_application_tunnel local_workload \<noteq> None then Ok ()
          else
            let hbone_dst = \<lparr>na_network = conn_dst_network conn, na_address = sock_ip addr\<rparr>;
                res = (case is_destination_this_waypoint s conn local_workload hbone_dst of
                         Some r \<Rightarrow> Some r
                       | None \<Rightarrow>
                           if \<not> supports_on_demand then None
                           else is_destination_this_waypoint fetched conn local_workload hbone_dst)
            in if res = None \<or> res = Some False then Err (IPMismatch (sock_ip (conn_dst conn)) (sock_ip addr)) else Ok ())"

definition vip_rank :: "strng \<Rightarrow> NetworkAddress \<Rightarrow> nat" where
  "vip_rank network a = (if na_network a = network then (if is_ipv4 (na_address a) then 2 else 1) else 0)"

definition service_port ::
  "Service \<Rightarrow> Workload \<Rightarrow> strng \<Rightarrow> u16 \<Rightarrow> (u16, request_error) result"
where
  "service_port svc local_workload hostname port =
     (case Option.bind (hm_get (sv_endpoints svc) (wl_uid local_workload)) (\<lambda>ep. hm_get (ep_port ep) port) of
        Some p \<Rightarrow> Ok p
      | None \<Rightarrow>
          let service_target_port = unwrap_or 0 (hm_get (sv_ports svc) port)
          in if service_target_port = 0 then Err (NoPortForServices hostname port) else Ok service_target_port)"

definition find_inbound_upstream ::
  "Config \<Rightarrow> ProxyState \<Rightarrow> Connection \<Rightarrow> Workload \<Rightarrow> HboneAddress \<Rightarrow>
     (SocketAddr \<times> TunnelRequest option \<times> Service list, request_error) result"
where
  "find_inbound_upstream cfg s conn local_workload hbone_addr =
     (let target_ip = sock_ip (conn_dst conn) in
      and_then
        (case hbone_addr of
           SvcHostname hostname port \<Rightarrow>
             and_then (inbound_service_by_hostname s local_workload hostname) (\<lambda>svc.
               and_then (service_port svc local_workload hostname port) (\<lambda>p. Ok (socket_addr target_ip p, [svc])))
         | HboneSocket addr \<Rightarrow> Ok (socket_addr target_ip (sock_port addr), get_by_workload (px_services s) local_workload))
        (\<lambda>(dest, services).
          if sock_port dest \<in> set (cfg_illegal_ports cfg) then Err SelfCall
          else
            and_then
              (case wl_application_tunnel local_workload of
                 Some t \<Rightarrow>
                   and_then
                     (case hbone_addr of
                        SvcHostname h port \<Rightarrow>
                          and_then
                            (ok_or (Option.bind (case services of [] \<Rightarrow> None | svc # _ \<Rightarrow> Some svc)
                                      (\<lambda>svc. max_by_key (vip_rank (conn_dst_network conn)) (sv_vips svc)))
                               (NoIPForService h))
                            (\<lambda>vip. Ok (socket_addr (na_address vip) port))
                      | HboneSocket a \<Rightarrow> Ok a)
                     (\<lambda>tunnel_target.
                       Ok (socket_addr (sock_ip dest) (unwrap_or (sock_port dest) (at_port t)),
                           Some \<lparr>tn_tunnel_target = tunnel_target, tn_protocol = at_protocol t\<rparr>))
               | None \<Rightarrow> Ok (dest, None))
              (\<lambda>(target, tunnel). Ok (target, tunnel, services))))"

section \<open>A CONNECT request\<close>

definition build_inbound_request ::
  "Config \<Rightarrow> bool \<Rightarrow> Snapshots \<Rightarrow> Workload option \<Rightarrow> Connection \<Rightarrow> RequestParts \<Rightarrow>
     (InboundRequest, request_error \<times> StatusCode) result"
where
  "build_inbound_request cfg supports_on_demand sn local conn req =
     (if rp_method req \<noteq> ''CONNECT'' then Err (NonConnectMethod (rp_method req), BAD_REQUEST_400)
      else
        and_then (map_err (\<lambda>e. (e, BAD_REQUEST_400)) (HboneAddress_try_from (rp_uri req))) (\<lambda>hbone_addr.
        and_then (map_err (\<lambda>e. (e, SERVICE_UNAVAILABLE_503)) (ok_or local UnknownSourceWorkload)) (\<lambda>destination_workload.
        and_then (map_err (\<lambda>e. (e, BAD_REQUEST_400))
            (validate_destination (sn_validate sn) supports_on_demand (sn_fetched sn) conn destination_workload hbone_addr)) (\<lambda>_.
        and_then (map_err (\<lambda>e. (e, SERVICE_UNAVAILABLE_503))
            (find_inbound_upstream cfg (sn_route sn) conn destination_workload hbone_addr))
          (\<lambda>(upstream_addr, tunnel_request, upstream_service).
            let conn = conn\<lparr>conn_dst := upstream_addr\<rparr>;
                rbac_ctx = \<lparr>rc_conn = conn, rc_workload = destination_workload,
                  rc_sandbox = fetch_sandbox (sn_sandbox sn) destination_workload\<rparr>;
                for_host = forwarded_host req;
                baggage = (if cfg_enable_enhanced_baggage cfg
                           then (case parse_baggage_header (rp_baggage req) of Inl _ \<Rightarrow> baggage_default | Inr b \<Rightarrow> b)
                           else baggage_default);
                derived_source =
                  (if cfg_enable_enhanced_baggage cfg
                   then \<lparr>dw_workload_name = bg_workload_name baggage, dw_app = bg_service_name baggage,
                         dw_revision = bg_revision baggage, dw_namespace = bg_namespace baggage,
                         dw_identity = conn_src_identity conn, dw_cluster_id = bg_cluster_id baggage,
                         dw_region = bg_region baggage, dw_zone = bg_zone baggage\<rparr>
                   else DerivedWorkload_default\<lparr>dw_identity := conn_src_identity conn\<rparr>)
            in Ok \<lparr>ir_for_host = for_host, ir_rbac_ctx = rbac_ctx, ir_derived_source = derived_source,
                  ir_destination_service = guess_inbound_service conn for_host upstream_service destination_workload,
                  ir_upstream_addr = upstream_addr, ir_tunnel_request = tunnel_request,
                  ir_destination_workload = destination_workload\<rparr>)))))"

text \<open>The local address to bind and the address to dial.\<close>

definition inbound_dial :: "Config \<Rightarrow> bool \<Rightarrow> InboundRequest \<Rightarrow> IpAddr option \<times> SocketAddr" where
  "inbound_dial cfg enable_original_source ri =
     (let localhost_tunnel = (cfg_localhost_app_tunnel cfg \<and>
            (case ir_tunnel_request ri of None \<Rightarrow> False | Some tr \<Rightarrow> supports_localhost_send (tn_protocol tr))) in
      if localhost_tunnel then
        let loopback = (if is_ipv4 (sock_ip (ir_upstream_addr ri)) then V4 0x7F000001 else V6 1)
        in (Some loopback, socket_addr loopback (sock_port (ir_upstream_addr ri)))
      else
        (if cfg_sidecar_mode cfg
         then Some (if is_ipv4 (sock_ip (ir_upstream_addr ri)) then V4 SELF_ADDR_V4 else V6 SELF_ADDR_V6)
         else if cfg_disable_inbound_freebind cfg then None
         else if enable_original_source then Some (sock_ip (conn_src (rc_conn (ir_rbac_ctx ri)))) else None,
         ir_upstream_addr ri))"

text \<open>
  \<open>serve_connect\<close>: the connection to the upstream is made when the request is accepted and authorized;
  \<open>connect\<close> says whether it succeeds. The result is the response and, when it is positive, the guard, the
  dialled address and the PROXY header to send first.
\<close>

definition inbound_context :: "InboundRequest \<Rightarrow> ConnectionContext" where
  "inbound_context ri = \<lparr>cc_rbac_ctx = ir_rbac_ctx ri, cc_attributes = InboundAttrs \<lparr>ia_dest_service = ir_for_host ri\<rparr>\<rparr>"

record served =
  srv_request :: InboundRequest
  srv_guard :: "ConnectionContext \<times> nat"
  srv_dialled :: "IpAddr option \<times> SocketAddr"
  srv_proxy_header :: "(SocketAddr \<times> SocketAddr \<times> Identity option) option"

definition serve_connect ::
  "ipnet_ops \<Rightarrow> Config \<Rightarrow> bool \<Rightarrow> bool \<Rightarrow> (IpAddr option \<Rightarrow> SocketAddr \<Rightarrow> bool) \<Rightarrow> Snapshots \<Rightarrow> Workload option \<Rightarrow>
     Connection \<Rightarrow> RequestParts \<Rightarrow> ConnectionManager \<Rightarrow>
     ConnectionManager \<times> (StatusCode \<times> (string \<times> string) list) \<times> served option"
where
  "serve_connect N cfg supports_on_demand enable_original_source connect sn local conn req m =
     (case build_inbound_request cfg supports_on_demand sn local conn req of
        Inl (_, code) \<Rightarrow> (m, build_response code None (cfg_enable_enhanced_baggage cfg), None)
      | Inr ri \<Rightarrow>
          (case cm_assert_rbac N (sn_authorize sn) (inbound_context ri) m of
             (m', Inl _) \<Rightarrow> (m', build_response UNAUTHORIZED_401 None (cfg_enable_enhanced_baggage cfg), None)
           | (m', Inr guard) \<Rightarrow>
               let (src, dst) = inbound_dial cfg enable_original_source ri in
               if connect src dst
               then (m', build_response OK_200 (Some (ir_destination_workload ri)) (cfg_enable_enhanced_baggage cfg),
                     Some \<lparr>srv_request = ri, srv_guard = guard, srv_dialled = (src, dst),
                           srv_proxy_header =
                             (case ir_tunnel_request ri of
                                Some tr \<Rightarrow>
                                  if tn_protocol tr = AppProxy
                                  then Some (conn_src (rc_conn (ir_rbac_ctx ri)), tn_tunnel_target tr,
                                         conn_src_identity (rc_conn (ir_rbac_ctx ri)))
                                  else None
                              | None \<Rightarrow> None)\<rparr>)
               else (release (inbound_context ri) m',
                     build_response SERVICE_UNAVAILABLE_503 None (cfg_enable_enhanced_baggage cfg), None)))"

section \<open>Plain text\<close>

definition passthrough_context ::
  "Config \<Rightarrow> ProxyState \<Rightarrow> Workload \<Rightarrow> SocketAddr \<Rightarrow> SocketAddr \<Rightarrow> ConnectionContext"
where
  "passthrough_context cfg s upstream_workload source_addr dest_addr =
     \<lparr>cc_rbac_ctx =
        \<lparr>rc_conn =
           \<lparr>conn_src = source_addr, conn_dst = dest_addr, conn_src_identity = None, conn_dst_network = cfg_network cfg,
            conn_direction = Inbound\<rparr>,
         rc_workload = upstream_workload, rc_sandbox = fetch_sandbox s upstream_workload\<rparr>,
      cc_attributes = InboundAttrs \<lparr>ia_dest_service = None\<rparr>\<rparr>"

definition proxy_inbound_plaintext ::
  "ipnet_ops \<Rightarrow> Config \<Rightarrow> bool \<Rightarrow> ProxyState \<Rightarrow> ProxyState \<Rightarrow> Workload option \<Rightarrow> SocketAddr \<Rightarrow> SocketAddr \<Rightarrow>
     ConnectionManager \<Rightarrow>
     ConnectionManager \<times> ((ConnectionContext \<times> nat) \<times> IpAddr option \<times> SocketAddr, request_error) result"
where
  "proxy_inbound_plaintext N cfg enable_orig_src s_sandbox s_auth local source_addr dest_addr m =
     (if sock_port dest_addr \<in> set (cfg_illegal_ports cfg) then (m, Err SelfCall)
      else
        case local of
          None \<Rightarrow> (m, Err UnknownSourceWorkload)
        | Some upstream_workload \<Rightarrow>
            (case cm_assert_rbac N s_auth (passthrough_context cfg s_sandbox upstream_workload source_addr dest_addr) m of
               (m', Inl e) \<Rightarrow> (m', Err (RequestRejected e))
             | (m', Inr guard) \<Rightarrow>
                 (m', Ok (guard,
                   (if enable_orig_src then Some (sock_ip source_addr)
                    else if cfg_sidecar_mode cfg then Some (sock_ip (to_self_socket_addr (to_canonical source_addr)))
                    else None), dest_addr))))"

section \<open>Specification\<close>

text \<open>The workload is the waypoint that the target of the request names.\<close>

definition waypoint_of :: "ProxyState \<Rightarrow> Connection \<Rightarrow> Workload \<Rightarrow> IpAddr \<Rightarrow> bool" where
  "waypoint_of s conn w target \<longleftrightarrow>
     (\<exists>a gw d. px_find_address s \<lparr>na_network = conn_dst_network conn, na_address = target\<rparr> = Some a \<and>
        (case a of AddressService svc \<Rightarrow> sv_waypoint svc | AddressWorkload wl \<Rightarrow> wl_waypoint wl) = Some gw \<and>
        find_destination s (gw_destination gw) = Some d \<and>
        (case d of
           AddressService svc \<Rightarrow> contains_endpoint svc w
         | AddressWorkload wl \<Rightarrow> sock_ip (conn_dst conn) \<in> set (wl_workload_ips wl)))"

definition destination_allowed :: "Snapshots \<Rightarrow> Connection \<Rightarrow> Workload \<Rightarrow> HboneAddress \<Rightarrow> bool" where
  "destination_allowed sn conn w h \<longleftrightarrow>
     (case h of
        SvcHostname _ _ \<Rightarrow> True
      | HboneSocket a \<Rightarrow>
          sock_ip a = sock_ip (conn_dst conn) \<or> wl_application_tunnel w \<noteq> None \<or>
          waypoint_of (sn_validate sn) conn w (sock_ip a) \<or> waypoint_of (sn_fetched sn) conn w (sock_ip a))"

definition example_snapshots :: Snapshots where
  "example_snapshots = \<lparr>sn_validate = sys_state example_sys1, sn_fetched = sys_state example_sys1,
     sn_route = sys_state example_sys1, sn_sandbox = sys_state example_sys1, sn_authorize = sys_state example_sys1\<rparr>"

definition example_parts :: RequestParts where
  "example_parts = \<lparr>rp_method = ''CONNECT'',
     rp_uri = \<lparr>uri_text = ''10.0.0.1:80'', uri_host = Some ''10.0.0.1'', uri_port = Some 80\<rparr>,
     rp_forwarded = None, rp_baggage = []\<rparr>"

section \<open>Lemmas\<close>

lemma is_destination_waypoint_of:
  "is_destination_this_waypoint s conn w \<lparr>na_network = conn_dst_network conn, na_address = target\<rparr> = Some True \<longleftrightarrow>
     waypoint_of s conn w target"
proof (cases "px_find_address s \<lparr>na_network = conn_dst_network conn, na_address = target\<rparr>")
  case (Some a)
  note addr = this
  let ?gw = "case a of AddressService svc \<Rightarrow> sv_waypoint svc | AddressWorkload wl \<Rightarrow> wl_waypoint wl"
  show ?thesis
  proof (cases ?gw)
    case None
    with addr show ?thesis by (simp add: is_destination_this_waypoint_def waypoint_of_def)
  next
    case (Some gw)
    note gw = this
    show ?thesis
    proof (cases "find_destination s (gw_destination gw)")
      case None
      with addr gw show ?thesis by (simp add: is_destination_this_waypoint_def waypoint_of_def)
    next
      case (Some d)
      with addr gw show ?thesis by (cases d) (simp_all add: is_destination_this_waypoint_def waypoint_of_def)
    qed
  qed
qed (simp add: is_destination_this_waypoint_def waypoint_of_def)

lemma validate_destination_Ok:
  assumes "validate_destination (sn_validate sn) d (sn_fetched sn) conn w h = Inr u"
  shows "destination_allowed sn conn w h"
proof (cases h)
  case (HboneSocket a)
  with assms show ?thesis
    using is_destination_waypoint_of [of "sn_validate sn" conn w "sock_ip a"]
      is_destination_waypoint_of [of "sn_fetched sn" conn w "sock_ip a"]
    by (auto simp: validate_destination_def destination_allowed_def Let_def split: if_splits option.splits)
qed (simp add: destination_allowed_def)

lemma find_inbound_upstream_Ok:
  assumes "find_inbound_upstream cfg s conn w h = Inr (addr, tunnel, svcs)"
  shows "sock_ip addr = sock_ip (conn_dst conn) \<and>
    (case wl_application_tunnel w of
       None \<Rightarrow> sock_port addr \<notin> set (cfg_illegal_ports cfg) \<and> tunnel = None
     | Some t \<Rightarrow> (case at_port t of None \<Rightarrow> sock_port addr \<notin> set (cfg_illegal_ports cfg) | Some p \<Rightarrow> sock_port addr = p) \<and>
         (\<exists>tr. tunnel = Some tr \<and> tn_protocol tr = at_protocol t \<and> (\<forall>a. h = HboneSocket a \<longrightarrow> tn_tunnel_target tr = a)))"
  using assms
  by (auto simp: find_inbound_upstream_def Let_def and_then_Ok socket_addr_def unwrap_or_def split: HboneAddress.splits
      option.splits if_splits)

lemma build_inbound_request_Ok:
  assumes "build_inbound_request cfg d sn local conn req = Inr ri"
  shows "\<exists>h w svcs. rp_method req = ''CONNECT'' \<and> HboneAddress_try_from (rp_uri req) = Inr h \<and> local = Some w \<and>
    destination_allowed sn conn w h \<and>
    find_inbound_upstream cfg (sn_route sn) conn w h = Inr (ir_upstream_addr ri, ir_tunnel_request ri, svcs) \<and>
    ir_rbac_ctx ri = \<lparr>rc_conn = conn\<lparr>conn_dst := ir_upstream_addr ri\<rparr>, rc_workload = w,
      rc_sandbox = fetch_sandbox (sn_sandbox sn) w\<rparr> \<and>
    dw_identity (ir_derived_source ri) = conn_src_identity conn"
proof -
  obtain h w u addr tunnel svcs where parts: "rp_method req = ''CONNECT''" "HboneAddress_try_from (rp_uri req) = Inr h"
      "local = Some w" "validate_destination (sn_validate sn) d (sn_fetched sn) conn w h = Inr u"
      "find_inbound_upstream cfg (sn_route sn) conn w h = Inr (addr, tunnel, svcs)"
    using assms by (auto simp: build_inbound_request_def and_then_Ok split: if_splits)
  with assms have "ir_upstream_addr ri = addr" "ir_tunnel_request ri = tunnel"
      "ir_rbac_ctx ri = \<lparr>rc_conn = conn\<lparr>conn_dst := addr\<rparr>, rc_workload = w, rc_sandbox = fetch_sandbox (sn_sandbox sn) w\<rparr>"
      "dw_identity (ir_derived_source ri) = conn_src_identity conn"
    by (auto simp: build_inbound_request_def Let_def)
  with parts validate_destination_Ok [OF parts(4)] show ?thesis by auto
qed

section \<open>Properties\<close>

text \<open>
  C26. What an accepted inbound request may reach. The request was a CONNECT to a service name, to this
  workload's own address, to any address of a workload with its own tunnel, or to a target whose
  configured waypoint is this workload; it is forwarded to the address the connection was made to, never
  to a port of the proxy unless the workload's tunnel names the port; the authorization was decided for
  exactly that address with the peer's verified identity, and is registered so that policy changes reach
  it; and what is dialled is that address, or the same port on the loopback interface for a tunnel that
  supports it.
\<close>

theorem inbound_admission:
  assumes "serve_connect N cfg d orig connect sn local conn req m = (m', resp, Some sv)"
  shows "\<exists>h w. HboneAddress_try_from (rp_uri req) = Inr h \<and> rp_method req = ''CONNECT'' \<and> local = Some w \<and>
    destination_allowed sn conn w h \<and>
    (let ri = srv_request sv; ctx = inbound_context ri; up = ir_upstream_addr ri in
      fst resp = OK_200 \<and> sock_ip up = sock_ip (conn_dst conn) \<and>
      (sock_port up \<in> set (cfg_illegal_ports cfg) \<longrightarrow> Option.bind (wl_application_tunnel w) at_port = Some (sock_port up)) \<and>
      allowed N (sn_authorize sn) ctx \<and> rc_conn (cc_rbac_ctx ctx) = conn\<lparr>conn_dst := up\<rparr> \<and> rc_workload (cc_rbac_ctx ctx) = w \<and>
      srv_guard sv = (ctx, the (chan m' ctx)) \<and> chan m' ctx \<noteq> None \<and>
      (snd (srv_dialled sv) = up \<or>
       (is_loopback (sock_ip (snd (srv_dialled sv))) \<and> sock_port (snd (srv_dialled sv)) = sock_port up \<and>
        pred_option (\<lambda>t. supports_localhost_send (at_protocol t)) (wl_application_tunnel w) \<and> wl_application_tunnel w \<noteq> None)))"
proof -
  obtain ri where ri: "build_inbound_request cfg d sn local conn req = Inr ri"
    using assms by (cases "build_inbound_request cfg d sn local conn req") (auto simp: serve_connect_def)
  obtain m1 r where r: "cm_assert_rbac N (sn_authorize sn) (inbound_context ri) m = (m1, r)" by fastforce
  obtain ctx watch where "r = Inr (ctx, watch)" "m1 = m'"
    and sv: "srv_request sv = ri" "srv_guard sv = (ctx, watch)" "srv_dialled sv = inbound_dial cfg orig ri" "fst resp = OK_200"
    using assms ri r by (cases r) (auto simp: serve_connect_def build_response_def case_prod_unfold Let_def split: if_splits)
  with r have cm: "cm_assert_rbac N (sn_authorize sn) (inbound_context ri) m = (m', Inr (ctx, watch))" by simp
  from build_inbound_request_Ok [OF ri] obtain h w svcs where parts: "rp_method req = ''CONNECT''"
      "HboneAddress_try_from (rp_uri req) = Inr h" "local = Some w" "destination_allowed sn conn w h"
      "find_inbound_upstream cfg (sn_route sn) conn w h = Inr (ir_upstream_addr ri, ir_tunnel_request ri, svcs)"
      "rc_conn (ir_rbac_ctx ri) = conn\<lparr>conn_dst := ir_upstream_addr ri\<rparr>" "rc_workload (ir_rbac_ctx ri) = w"
    by auto
  note up = find_inbound_upstream_Ok [OF parts(5)]
  have dial: "snd (inbound_dial cfg orig ri) = ir_upstream_addr ri \<or>
      (is_loopback (sock_ip (snd (inbound_dial cfg orig ri))) \<and>
       sock_port (snd (inbound_dial cfg orig ri)) = sock_port (ir_upstream_addr ri) \<and>
       pred_option (\<lambda>t. supports_localhost_send (at_protocol t)) (wl_application_tunnel w) \<and> wl_application_tunnel w \<noteq> None)"
    using up by (auto simp: inbound_dial_def Let_def socket_addr_def is_loopback_def split: option.splits)
  from cm_assert_rbac_cases [OF cm] up parts sv dial show ?thesis
    by (intro exI [of _ h] exI [of _ w])
      (auto simp: Let_def inbound_context_def split: option.splits)
qed

theorem inbound_admission_witness:
  "\<exists>m' resp sv.
     serve_connect cidr_ops example_cfg False True (\<lambda>_ _. True) example_snapshots (Some example_workload)
       (example_connection 1 15008) example_parts cm_default = (m', resp, Some sv) \<and>
     ir_upstream_addr (srv_request sv) = socket_addr (V4 0x0A000001) 80 \<and>
     sock_ip (ir_upstream_addr (srv_request sv)) = sock_ip (conn_dst (example_connection 1 15008)) \<and>
     allowed cidr_ops (sys_state example_sys1) (inbound_context (srv_request sv))"
proof -
  let ?p = "serve_connect cidr_ops example_cfg False True (\<lambda>_ _. True) example_snapshots (Some example_workload)
       (example_connection 1 15008) example_parts cm_default"
  have "case snd (snd ?p) of
      Some sv \<Rightarrow> ir_upstream_addr (srv_request sv) = socket_addr (V4 0x0A000001) 80 | None \<Rightarrow> False"
    by code_simp
  then obtain m' resp sv where p: "?p = (m', resp, Some sv)"
    and "ir_upstream_addr (srv_request sv) = socket_addr (V4 0x0A000001) 80"
    by (cases ?p) (auto split: option.splits)
  with inbound_admission [OF p] show ?thesis by (auto simp: Let_def example_snapshots_def)
qed

text \<open>
  C28. Plain-text connections carry no identity and reach only the workload: an accepted connection is
  authorized for its original destination without a source identity, is not to a port of the proxy, is
  registered, and is dialled to that same destination.
\<close>

theorem passthrough_admission:
  assumes "proxy_inbound_plaintext N cfg orig s_sandbox s_auth local source_addr dest_addr m = (m', Inr ((ctx, watch), src, dst))"
  shows "dst = dest_addr \<and> sock_port dest_addr \<notin> set (cfg_illegal_ports cfg) \<and>
    allowed N s_auth ctx \<and> chan m' ctx = Some watch \<and> conn_dst (rc_conn (cc_rbac_ctx ctx)) = dest_addr \<and>
    conn_src_identity (rc_conn (cc_rbac_ctx ctx)) = None \<and> local = Some (rc_workload (cc_rbac_ctx ctx))"
proof -
  obtain w where w: "local = Some w" "dst = dest_addr" "sock_port dest_addr \<notin> set (cfg_illegal_ports cfg)"
    and cm: "cm_assert_rbac N s_auth (passthrough_context cfg s_sandbox w source_addr dest_addr) m = (m', Inr (ctx, watch))"
    using assms by (auto simp: proxy_inbound_plaintext_def split: if_splits option.splits prod.splits sum.splits)
  from cm_assert_rbac_cases [OF cm] w show ?thesis by (auto simp: passthrough_context_def)
qed

theorem passthrough_admission_witness:
  "\<exists>m' ctx watch src.
     proxy_inbound_plaintext cidr_ops example_cfg True (sys_state example_sys1) (sys_state example_sys1) (Some example_workload)
       (socket_addr (V4 1) 40000) (socket_addr (V4 0x0A000001) 80) cm_default =
       (m', Inr ((ctx, watch), src, socket_addr (V4 0x0A000001) 80)) \<and>
     allowed cidr_ops (sys_state example_sys1) ctx \<and> chan m' ctx = Some watch"
proof -
  let ?p = "proxy_inbound_plaintext cidr_ops example_cfg True (sys_state example_sys1) (sys_state example_sys1)
       (Some example_workload) (socket_addr (V4 1) 40000) (socket_addr (V4 0x0A000001) 80) cm_default"
  have "is_ok (snd ?p)" by code_simp
  then obtain m' ctx watch src dst where p: "?p = (m', Inr ((ctx, watch), src, dst))"
    by (cases ?p) (auto simp: is_ok_iff)
  with passthrough_admission [OF p] show ?thesis by auto
qed

end
