(* ===== verification/Capsule.thy ===== *)
theory Capsule
  imports Prelude
begin

text \<open>
  UDP datagrams on an HTTP/2 stream, \<^verbatim>\<open>src/proxy/h2/capsule.rs\<close>: the encoding of a datagram as a
  DATAGRAM capsule with QUIC variable-length integers, and the decoder, which is fed the stream in
  chunks of any size, skips capsules it does not know and drops oversized ones. A byte string is a list
  of \<open>u8\<close>; \<open>usize\<close> is 64 bits wide, so that the length conversions of the source cannot fail.
\<close>

unbundle bit_operations_syntax

section \<open>Variable-length integers\<close>

datatype capsule_error = VarintRange | DatagramTooLarge | MissingContextId

definition put_u8 :: "u8 \<Rightarrow> u8 list" where
  "put_u8 x = [x]"

definition put_u16 :: "u16 \<Rightarrow> u8 list" where
  "put_u16 x = map (\<lambda>k. ucast (drop_bit (8 * k) x)) [1, 0]"

definition put_u32 :: "u32 \<Rightarrow> u8 list" where
  "put_u32 x = map (\<lambda>k. ucast (drop_bit (8 * k) x)) [3, 2, 1, 0]"

definition put_u64 :: "u64 \<Rightarrow> u8 list" where
  "put_u64 x = map (\<lambda>k. ucast (drop_bit (8 * k) x)) [7, 6, 5, 4, 3, 2, 1, 0]"

definition encode_varint :: "u64 \<Rightarrow> (u8 list, capsule_error) result" where
  "encode_varint v =
     (if v \<le> 63 then Ok (put_u8 (ucast v))
      else if v \<le> 16383 then Ok (put_u16 (ucast v OR 0x4000))
      else if v \<le> 1073741823 then Ok (put_u32 (ucast v OR 0x80000000))
      else if v \<le> 4611686018427387903 then Ok (put_u64 (v OR 0xC000000000000000))
      else Err VarintRange)"

definition varint_len :: "u8 \<Rightarrow> nat" where
  "varint_len first = 2 ^ unat (drop_bit 6 first)"

definition decode_varint :: "u8 list \<Rightarrow> (u64 \<times> nat) option" where
  "decode_varint bytes =
     (case bytes of
        [] \<Rightarrow> None
      | first # rest \<Rightarrow>
          let len = varint_len first in
          if length bytes < len then None
          else Some (foldl (\<lambda>v byte. push_bit 8 v OR ucast byte) (ucast (first AND 0x3F)) (take (len - 1) rest), len))"

section \<open>Datagrams\<close>

definition DATAGRAM_CAPSULE_TYPE :: u64 where
  "DATAGRAM_CAPSULE_TYPE = 0"

definition DEFAULT_CONTEXT_ID :: u64 where
  "DEFAULT_CONTEXT_ID = 0"

definition MAX_DATAGRAM_SIZE :: nat where
  "MAX_DATAGRAM_SIZE = 65527"

definition encode_datagram_into :: "u8 list \<Rightarrow> u8 list \<Rightarrow> (u8 list, capsule_error) result" where
  "encode_datagram_into payload out =
     (if length payload > MAX_DATAGRAM_SIZE then Err DatagramTooLarge
      else
        and_then (encode_varint DATAGRAM_CAPSULE_TYPE) (\<lambda>ty.
        and_then (encode_varint (of_nat (length payload + 1))) (\<lambda>len.
        and_then (encode_varint DEFAULT_CONTEXT_ID) (\<lambda>context.
          Ok (out @ ty @ len @ context @ payload)))))"

record Decoder =
  dec_buffer :: "u8 list"
  dec_skip_remaining :: nat
  dec_dropped_oversized :: nat

definition Decoder_default :: Decoder where
  "Decoder_default = \<lparr>dec_buffer = [], dec_skip_remaining = 0, dec_dropped_oversized = 0\<rparr>"

definition take_dropped_oversized :: "Decoder \<Rightarrow> Decoder \<times> nat" where
  "take_dropped_oversized d = (d\<lparr>dec_dropped_oversized := 0\<rparr>, dec_dropped_oversized d)"

text \<open>One turn of the loop: it ends, fails, or goes on with a shorter buffer and perhaps a datagram.\<close>

datatype turn = Break Decoder | Fail capsule_error | Continue Decoder "u8 list list"

definition skip_capsule :: "nat \<Rightarrow> nat \<Rightarrow> Decoder \<Rightarrow> turn" where
  "skip_capsule header_len capsule_len d =
     (let buffer = drop header_len (dec_buffer d);
          available = min (length buffer) capsule_len;
          d' = d\<lparr>dec_buffer := drop available buffer, dec_skip_remaining := capsule_len - available\<rparr>
      in if dec_skip_remaining d' > 0 then Break d' else Continue d' [])"

definition decode_turn :: "Decoder \<Rightarrow> turn" where
  "decode_turn d =
     (case decode_varint (dec_buffer d) of
        None \<Rightarrow> Break d
      | Some (capsule_type, type_len) \<Rightarrow>
          (case decode_varint (drop type_len (dec_buffer d)) of
             None \<Rightarrow> Break d
           | Some (len, length_len) \<Rightarrow>
               let header_len = type_len + length_len; capsule_len = unat len in
               if capsule_type \<noteq> DATAGRAM_CAPSULE_TYPE then skip_capsule header_len capsule_len d
               else if capsule_len > MAX_DATAGRAM_SIZE + 8
               then skip_capsule header_len capsule_len (d\<lparr>dec_dropped_oversized := Suc (dec_dropped_oversized d)\<rparr>)
               else if length (dec_buffer d) < header_len + capsule_len then Break d
               else
                 let v = take capsule_len (drop header_len (dec_buffer d));
                     d' = d\<lparr>dec_buffer := drop (header_len + capsule_len) (dec_buffer d)\<rparr>
                 in case decode_varint v of
                      None \<Rightarrow> Fail MissingContextId
                    | Some (context_id, context_len) \<Rightarrow>
                        if context_id = DEFAULT_CONTEXT_ID
                        then (let payload = drop context_len v in
                              if length payload > MAX_DATAGRAM_SIZE
                              then Continue (d'\<lparr>dec_dropped_oversized := Suc (dec_dropped_oversized d')\<rparr>) []
                              else Continue d' [payload])
                        else Continue d' []))"

partial_function (option) decode_loop ::
  "Decoder \<Rightarrow> u8 list list \<Rightarrow> (Decoder \<times> u8 list list, capsule_error) result option"
where
  "decode_loop d datagrams =
     (case decode_turn d of
        Break d' \<Rightarrow> Some (Ok (d', datagrams))
      | Fail e \<Rightarrow> Some (Err e)
      | Continue d' out \<Rightarrow> decode_loop d' (datagrams @ out))"

definition push :: "Decoder \<Rightarrow> u8 list \<Rightarrow> (Decoder \<times> u8 list list, capsule_error) result option" where
  "push d chunk =
     (let skipped = min (dec_skip_remaining d) (length chunk);
          d1 = d\<lparr>dec_skip_remaining := dec_skip_remaining d - skipped\<rparr>
      in if dec_skip_remaining d1 > 0 then Some (Ok (d1, []))
         else decode_loop (d1\<lparr>dec_buffer := dec_buffer d1 @ drop skipped chunk\<rparr>) [])"

text \<open>A stream read chunk by chunk: the datagrams of all chunks in order, up to the first failure.\<close>

fun push_all :: "Decoder \<Rightarrow> u8 list list \<Rightarrow> (Decoder \<times> u8 list list, capsule_error) result option" where
  "push_all d [] = Some (Ok (d, []))"
| "push_all d (c # cs) =
     (case push d c of
        None \<Rightarrow> None
      | Some (Inl e) \<Rightarrow> Some (Err e)
      | Some (Inr (d', out)) \<Rightarrow>
          (case push_all d' cs of
             None \<Rightarrow> None
           | Some (Inl e) \<Rightarrow> Some (Err e)
           | Some (Inr (d'', outs)) \<Rightarrow> Some (Ok (d'', out @ outs))))"

section \<open>Specification\<close>

text \<open>
  A decoder that is skipping has nothing buffered. The stream of a list of datagrams is their encodings
  one after another.
\<close>

definition dec_inv :: "Decoder \<Rightarrow> bool" where
  "dec_inv d \<longleftrightarrow> (dec_skip_remaining d > 0 \<longrightarrow> dec_buffer d = [])"

fun encode_all :: "u8 list list \<Rightarrow> u8 list \<Rightarrow> (u8 list, capsule_error) result" where
  "encode_all [] out = Ok out"
| "encode_all (p # ps) out = and_then (encode_datagram_into p out) (encode_all ps)"

definition feed :: "u8 list \<Rightarrow> Decoder \<Rightarrow> Decoder" where
  "feed b d = d\<lparr>dec_buffer := dec_buffer d @ b\<rparr>"

text \<open>Skipping with more input: as before, or the skip goes on into the new input.\<close>

definition resume :: "Decoder \<Rightarrow> u8 list \<Rightarrow> turn" where
  "resume d b =
     (if dec_skip_remaining d > length b then Break (d\<lparr>dec_skip_remaining := dec_skip_remaining d - length b\<rparr>)
      else Continue (d\<lparr>dec_buffer := drop (dec_skip_remaining d) b, dec_skip_remaining := 0\<rparr>) [])"

text \<open>Results with datagrams found earlier in front.\<close>

definition with_earlier ::
  "u8 list list \<Rightarrow> (Decoder \<times> u8 list list, capsule_error) result option \<Rightarrow>
     (Decoder \<times> u8 list list, capsule_error) result option"
where
  "with_earlier out r = (case r of Some (Inr (d, xs)) \<Rightarrow> Some (Inr (d, out @ xs)) | _ \<Rightarrow> r)"

section \<open>Lemmas\<close>

subsection \<open>Variable-length integers\<close>

lemma decode_varint_len:
  assumes "decode_varint bytes = Some (v, n)"
  shows "0 < n \<and> n \<le> length bytes"
  using assms by (auto simp: decode_varint_def varint_len_def Let_def split: list.splits if_splits)

lemma decode_varint_append:
  assumes "decode_varint xs = Some r"
  shows "decode_varint (xs @ ys) = Some r"
  using assms by (auto simp: decode_varint_def Let_def split: list.splits if_splits)

lemma high_bits:
  fixes a :: "'a::len word"
  assumes "unat a < 2 ^ k" "k \<le> n"
  shows "\<not> bit a n"
proof -
  have "unat a < 2 ^ n" using assms by (meson less_le_trans one_le_numeral power_increasing)
  then have "\<not> bit (unat a) n" by (simp add: bit_iff_odd)
  then show ?thesis by (metis bit_imp_le_length bit_unsigned_iff possible_bit_nat)
qed

lemma unat_or_high:
  fixes a :: "'a::len word"
  assumes "unat a < 2 ^ k" "2 ^ k * c < 2 ^ LENGTH('a)" "unat a + 2 ^ k * c < 2 ^ LENGTH('a)"
  shows "unat (a OR of_nat (2 ^ k * c)) = unat a + 2 ^ k * c"
proof -
  have high: "of_nat (2 ^ k * c) = push_bit k (of_nat c :: 'a word)"
    by (simp add: push_bit_eq_mult mult.commute)
  have "a AND push_bit k (of_nat c) = 0"
    by (rule bit_word_eqI) (use high_bits [OF assms(1)] in \<open>auto simp: bit_simps\<close>)
  then have "a OR of_nat (2 ^ k * c) = a + of_nat (2 ^ k * c)"
    unfolding high by (simp add: disjunctive_add_eq_or)
  moreover have of_nat: "unat (of_nat m :: 'a word) = m" if "m < 2 ^ LENGTH('a)" for m
    using that by (simp add: unsigned_of_nat take_bit_nat_eq_self)
  have "unat (a + of_nat (2 ^ k * c)) = (unat a + 2 ^ k * c) mod 2 ^ LENGTH('a)"
    unfolding unat_word_ariths of_nat [OF assms(2)] ..
  ultimately show ?thesis using assms(3) by simp
qed

lemma shift_or_byte: "push_bit 8 (v::u64) OR ucast (b::u8) = 256 * v + ucast b"
proof -
  have "push_bit 8 v AND ucast b = 0"
    by (rule bit_word_eqI) (auto simp: bit_simps dest: bit_imp_le_length)
  from disjunctive_add_eq_or [OF this] show ?thesis by (simp add: push_bit_eq_mult mult.commute)
qed

lemma shift_or_of_nat:
  assumes "unat (b::u8) = (V div n) mod 256"
  shows "push_bit 8 (of_nat (V div (256 * n)) :: u64) OR ucast b = of_nat (V div n)"
proof -
  have "(of_nat (unat b) :: u64) = ucast b" by simp
  then have "ucast b = (of_nat ((V div n) mod 256) :: u64)" by (simp add: assms)
  moreover have "256 * (V div (256 * n)) + (V div n) mod 256 = V div n"
    by (metis div_mult2_eq mult.commute mult_div_mod_eq)
  ultimately show ?thesis
    unfolding shift_or_byte by (metis of_nat_add of_nat_mult of_nat_numeral)
qed

lemma unat_byte:
  fixes x :: "'a::len word"
  shows "unat (ucast (drop_bit k x) :: u8) = (unat x div 2 ^ k) mod 256"
proof -
  have "unat (drop_bit k x) = unat x div 2 ^ k" 
    using unsigned_less [of x, where 'a = nat]
    by (simp add: unsigned_drop_bit_eq take_bit_nat_eq_self flip: drop_bit_eq_div)
  then show ?thesis by (simp add: unsigned_ucast_eq take_bit_eq_mod)
qed

lemma fold_bytes:
  fixes bs :: "u8 list"
  assumes "map unat bs = map (\<lambda>k. (V div 256 ^ k) mod 256) (rev [0..<length bs])"
  shows "foldl (\<lambda>v byte. push_bit 8 v OR ucast byte) (of_nat (V div 256 ^ length bs) :: u64) bs = of_nat V"
  using assms
proof (induction bs)
  case (Cons b bs)
  then have b: "unat b = (V div 256 ^ length bs) mod 256"
    and bs: "map unat bs = map (\<lambda>k. (V div 256 ^ k) mod 256) (rev [0..<length bs])" by simp_all
  show ?case using Cons.IH [OF bs] shift_or_of_nat [OF b] by simp
qed simp

lemma decode_varint_bytes:
  assumes first: "unat first = V div 256 ^ length rest + 64 * c" "V div 256 ^ length rest < 64"
    and rest: "map unat rest = map (\<lambda>k. (V div 256 ^ k) mod 256) (rev [0..<length rest])" "Suc (length rest) = 2 ^ c"
  shows "decode_varint (first # rest @ ys) = Some (of_nat V, 2 ^ c)"
proof -
  have "unat (drop_bit 6 first) = unat first div 64"
    using unsigned_less [of first, where 'a = nat]
    by (simp add: unsigned_drop_bit_eq take_bit_nat_eq_self drop_bit_eq_div [where a = "unat first"])
  then have len: "varint_len first = 2 ^ c" using first by (simp add: varint_len_def)
  have "first AND 0x3F = take_bit 6 first" by (simp add: take_bit_eq_mask mask_eq_exp_minus_1)
  moreover have "unat (take_bit 6 first) = take_bit 6 (unat first)" by (simp add: unsigned_take_bit_eq)
  ultimately have "unat (first AND 0x3F) = unat first mod 64" by (simp add: take_bit_eq_mod [where a = "unat first"])
  then have "unat (first AND 0x3F) = V div 256 ^ length rest" using first by simp
  moreover have "(of_nat (unat (first AND 0x3F)) :: u64) = ucast (first AND 0x3F)" by simp
  ultimately have "ucast (first AND 0x3F) = (of_nat (V div 256 ^ length rest) :: u64)" by metis
  with fold_bytes [OF rest(1)] len rest(2) show ?thesis by (simp add: decode_varint_def)
qed

lemma high_byte_mod:
  assumes "8 * k + 8 \<le> p"
  shows "(V + 2 ^ p * c) div 2 ^ (8 * k) mod 256 = V div 2 ^ (8 * k) mod (256::nat)"
proof -
  from assms obtain q where p: "p = 8 * k + 8 + q" using le_Suc_ex by blast
  have split: "2 ^ p * c = 2 ^ (8 * k) * (256 * (2 ^ q * c))" by (simp add: p power_add)
  have "(V + 2 ^ p * c) div 2 ^ (8 * k) = V div 2 ^ (8 * k) + 256 * (2 ^ q * c)" unfolding split by simp
  then show ?thesis by simp
qed

lemma decode_varint_word:
  fixes x :: "'a::len word"
  assumes x: "unat x = V + 2 ^ (8 * m + 6) * c" and V: "V < 2 ^ (8 * m + 6)" and c: "c < 4" "Suc m = 2 ^ c"
  shows "decode_varint (map (\<lambda>k. ucast (drop_bit (8 * k) x)) (rev [0..<Suc m]) @ ys) = Some (of_nat V, 2 ^ c)"
proof -
  let ?b = "\<lambda>k. ucast (drop_bit (8 * k) x) :: u8"
  have pow: "(256::nat) ^ k = 2 ^ (8 * k)" for k by (simp add: power_mult)
  have split: "2 ^ (8 * m + 6) * c = 2 ^ (8 * m) * (64 * c)" by (simp add: power_add)
  have "(V + 2 ^ (8 * m + 6) * c) div 2 ^ (8 * m) = V div 2 ^ (8 * m) + 64 * c" unfolding split by simp
  moreover have top: "V div 2 ^ (8 * m) < 64" using V by (simp add: power_add less_mult_imp_div_less)
  ultimately have first: "unat (?b m) = V div 256 ^ m + 64 * c"
    using c(1) unfolding unat_byte x pow by simp
  have rest: "unat (?b k) = (V div 256 ^ k) mod 256" if "k < m" for k
    using that unfolding unat_byte x pow by (intro high_byte_mod) simp
  have "decode_varint (?b m # map ?b (rev [0..<m]) @ ys) = Some (of_nat V, 2 ^ c)"
    using first top rest c(2) pow by (intro decode_varint_bytes) (auto simp: comp_def intro: map_cong)
  then show ?thesis by simp
qed

lemma put_bytes:
  "put_u8 x1 = map (\<lambda>k. ucast (drop_bit (8 * k) x1)) (rev [0..<Suc 0])"
  "put_u16 x2 = map (\<lambda>k. ucast (drop_bit (8 * k) x2)) (rev [0..<Suc 1])"
  "put_u32 x4 = map (\<lambda>k. ucast (drop_bit (8 * k) x4)) (rev [0..<Suc 3])"
  "put_u64 x8 = map (\<lambda>k. ucast (drop_bit (8 * k) x8)) (rev [0..<Suc 7])"
  by (simp_all add: put_u8_def put_u16_def put_u32_def put_u64_def upt_rec)

lemma decode_encode_varint:
  assumes "encode_varint v = Inr bs"
  shows "decode_varint (bs @ ys) = Some (v, length bs)"
proof -
  have v: "of_nat (unat v) = v" by simp
  consider "v \<le> 63" "bs = put_u8 (ucast v)" | "v \<le> 16383" "bs = put_u16 (ucast v OR of_nat (2 ^ 14 * 1))"
    | "v \<le> 1073741823" "bs = put_u32 (ucast v OR of_nat (2 ^ 30 * 2))"
    | "v \<le> 4611686018427387903" "bs = put_u64 (v OR of_nat (2 ^ 62 * 3))"
    using assms by (auto simp: encode_varint_def split: if_splits)
  then show ?thesis
  proof cases
    case 1
    then have lt: "unat v < 2 ^ 6" by (simp add: word_le_nat_alt)
    then have "unat (ucast v :: u8) = unat v" by (simp add: unsigned_ucast_eq take_bit_nat_eq_self)
    then show ?thesis using decode_varint_word [of "ucast v :: u8" "unat v" 0 0 ys] lt v
      unfolding 1 put_bytes(1) by simp
  next
    case 2
    then have lt: "unat v < 2 ^ 14" by (simp add: word_le_nat_alt)
    then have "unat (ucast v :: u16) = unat v" by (simp add: unsigned_ucast_eq take_bit_nat_eq_self)
    then have "unat (ucast v OR of_nat (2 ^ 14 * 1) :: u16) = unat v + 2 ^ 14 * 1"
      using lt by (subst unat_or_high) simp_all
    then show ?thesis using decode_varint_word [of "ucast v OR of_nat (2 ^ 14 * 1) :: u16" "unat v" 1 1 ys] lt v
      unfolding 2 put_bytes(2) by simp
  next
    case 3
    then have lt: "unat v < 2 ^ 30" by (simp add: word_le_nat_alt)
    then have "unat (ucast v :: u32) = unat v" by (simp add: unsigned_ucast_eq take_bit_nat_eq_self)
    then have "unat (ucast v OR of_nat (2 ^ 30 * 2) :: u32) = unat v + 2 ^ 30 * 2"
      using lt by (subst unat_or_high) simp_all
    then show ?thesis using decode_varint_word [of "ucast v OR of_nat (2 ^ 30 * 2) :: u32" "unat v" 3 2 ys] lt v
      unfolding 3 put_bytes(3) by simp
  next
    case 4
    then have lt: "unat v < 2 ^ 62" by (simp add: word_le_nat_alt)
    then have "unat (v OR of_nat (2 ^ 62 * 3) :: u64) = unat v + 2 ^ 62 * 3"
      by (subst unat_or_high) simp_all
    then show ?thesis using decode_varint_word [of "v OR of_nat (2 ^ 62 * 3)" "unat v" 7 3 ys] lt v
      unfolding 4 put_bytes(4) by simp
  qed
qed

subsection \<open>The loop ends\<close>

lemma turn_shrinks:
  assumes "decode_turn d = Continue d' out"
  shows "length (dec_buffer d') < length (dec_buffer d)"
  using assms
  by (auto simp: decode_turn_def skip_capsule_def Let_def split: option.splits prod.splits if_splits
      dest!: decode_varint_len)

lemma decode_loop_returns: "\<exists>r. decode_loop d acc = Some r"
proof (induction "length (dec_buffer d)" arbitrary: d acc rule: less_induct)
  case less
  then show ?case by (cases "decode_turn d") (auto simp: decode_loop.simps [of d] dest: turn_shrinks)
qed

lemma push_returns: "\<exists>r. push d chunk = Some r"
  using decode_loop_returns by (simp add: push_def Let_def)

subsection \<open>More input\<close>

lemma feed_simps [simp]:
  "dec_buffer (feed b d) = dec_buffer d @ b" "dec_skip_remaining (feed b d) = dec_skip_remaining d"
  "dec_dropped_oversized (feed b d) = dec_dropped_oversized d"
  "feed b (d\<lparr>dec_dropped_oversized := n\<rparr>) = (feed b d)\<lparr>dec_dropped_oversized := n\<rparr>"
  by (simp_all add: feed_def)

lemma skip_capsule_feed:
  assumes "h \<le> length (dec_buffer d)"
  shows "case skip_capsule h n d of
     Continue d' out \<Rightarrow> skip_capsule h n (feed b d) = Continue (feed b d') out \<and> dec_skip_remaining d' = 0
   | Break d' \<Rightarrow> dec_skip_remaining d' > 0 \<and> dec_buffer d' = [] \<and> skip_capsule h n (feed b d) = resume d' b
   | Fail _ \<Rightarrow> False"
proof (cases "n \<le> length (dec_buffer d) - h")
  case True
  with assms show ?thesis by (auto simp: skip_capsule_def Let_def feed_def min_def)
next
  case False
  with assms show ?thesis
    by (auto simp: skip_capsule_def resume_def Let_def feed_def min_def)
qed

lemma decode_turn_feed:
  assumes "dec_skip_remaining d = 0"
  shows "case decode_turn d of
     Continue d' out \<Rightarrow> decode_turn (feed b d) = Continue (feed b d') out \<and> dec_skip_remaining d' = 0
   | Fail e \<Rightarrow> decode_turn (feed b d) = Fail e
   | Break d' \<Rightarrow> d' = d \<or> (dec_skip_remaining d' > 0 \<and> dec_buffer d' = [] \<and> decode_turn (feed b d) = resume d' b)"
proof (cases "decode_varint (dec_buffer d)")
  case None
  then show ?thesis by (simp add: decode_turn_def)
next
  case (Some r)
  obtain ty tl where one: "decode_varint (dec_buffer d) = Some (ty, tl)" using Some by (cases r) auto
  note one' = decode_varint_append [OF one, of b] and tl = decode_varint_len [OF one]
  show ?thesis
  proof (cases "decode_varint (drop tl (dec_buffer d))")
    case None
    with one show ?thesis by (simp add: decode_turn_def)
  next
    case (Some r')
    obtain len ll where two: "decode_varint (drop tl (dec_buffer d)) = Some (len, ll)" using Some by (cases r') auto
    note two' = decode_varint_append [OF two, of b] and ll = decode_varint_len [OF two]
    have h: "tl + ll \<le> length (dec_buffer d)" using tl ll by auto
    note skip = skip_capsule_feed [OF h, of "unat len" b]
    have h': "tl + ll \<le> length (dec_buffer (d\<lparr>dec_dropped_oversized := Suc (dec_dropped_oversized d)\<rparr>))" using h by simp
    note skip' = skip_capsule_feed [OF h', of "unat len" b]
    consider "ty \<noteq> DATAGRAM_CAPSULE_TYPE" | "ty = DATAGRAM_CAPSULE_TYPE" "unat len > MAX_DATAGRAM_SIZE + 8"
      | "ty = DATAGRAM_CAPSULE_TYPE" "unat len \<le> MAX_DATAGRAM_SIZE + 8" by fastforce
    then show ?thesis
    proof cases
      case 1
      with one two one' two' tl skip show ?thesis by (auto simp: decode_turn_def Let_def split: turn.splits)
    next
      case 2
      with one two one' two' tl skip' show ?thesis by (auto simp: decode_turn_def Let_def split: turn.splits)
    next
      case 3
      with one two one' two' tl h assms show ?thesis
        by (auto simp: decode_turn_def Let_def feed_def split: option.splits prod.splits)
    qed
  qed
qed

lemma with_earlier_simps [simp]:
  "with_earlier out None = None" "with_earlier out (Some (Inl e)) = Some (Inl e)"
  "with_earlier out (Some (Inr (d, xs))) = Some (Inr (d, out @ xs))"
  "with_earlier out (with_earlier out' r) = with_earlier (out @ out') r" "with_earlier [] r = r"
  by (auto simp: with_earlier_def split: option.splits sum.splits)

lemma decode_loop_earlier: "decode_loop d out = with_earlier out (decode_loop d [])"
proof (induction "length (dec_buffer d)" arbitrary: d out rule: less_induct)
  case less
  show ?case
  proof (cases "decode_turn d")
    case (Continue d' new)
    note IH = less [OF turn_shrinks [OF Continue]]
    have "decode_loop d out = decode_loop d' (out @ new)" by (simp add: decode_loop.simps [of d] Continue)
    also have "\<dots> = with_earlier (out @ new) (decode_loop d' [])" by (rule IH)
    also have "\<dots> = with_earlier out (decode_loop d' ([] @ new))" using IH [of new] by simp
    finally show ?thesis by (simp add: decode_loop.simps [of d "[]"] Continue)
  qed (simp_all add: decode_loop.simps [of d])
qed

lemma push_not_skipping:
  "dec_skip_remaining d = 0 \<Longrightarrow> push d b = decode_loop (feed b d) []"
  by (cases d) (simp add: push_def feed_def Let_def)

lemma push_resume:
  assumes "dec_skip_remaining d > 0" "dec_buffer d = []"
  shows "push d b = (case resume d b of Break d' \<Rightarrow> Some (Inr (d', [])) | Continue d' _ \<Rightarrow> decode_loop d' [] | Fail e \<Rightarrow> Some (Inl e))"
  using assms by (cases d) (auto simp: push_def resume_def Let_def min_def)

lemma decode_loop_feed:
  assumes "dec_skip_remaining d = 0" "decode_loop d [] = Some r"
  shows "decode_loop (feed b d) [] =
    (case r of Inl e \<Rightarrow> Some (Inl e) | Inr (d', out) \<Rightarrow> with_earlier out (push d' b))"
  using assms
proof (induction "length (dec_buffer d)" arbitrary: d r rule: less_induct)
  case less
  note turn = decode_turn_feed [OF less.prems(1), of b]
  show ?case
  proof (cases "decode_turn d")
    case (Break d')
    then have r: "r = Inr (d', [])" using less.prems(2) by (simp add: decode_loop.simps [of d])
    show ?thesis
    proof (cases "d' = d")
      case True
      then show ?thesis using r push_not_skipping [OF less.prems(1)] by simp
    next
      case False
      with turn Break have skipping: "dec_skip_remaining d' > 0" "dec_buffer d' = []" "decode_turn (feed b d) = resume d' b"
        by auto
      then have "decode_loop (feed b d) [] = push d' b"
        unfolding push_resume [OF skipping(1,2)]
        by (simp add: decode_loop.simps [of "feed b d"] resume_def)
      then show ?thesis using r by simp
    qed
  next
    case (Fail e)
    then show ?thesis using turn less.prems(2) by (auto simp: decode_loop.simps [of d] decode_loop.simps [of "feed b d"])
  next
    case (Continue d' out)
    with turn have fed: "decode_turn (feed b d) = Continue (feed b d') out" "dec_skip_remaining d' = 0" by auto
    obtain r' where r': "decode_loop d' [] = Some r'" using decode_loop_returns by blast
    note IH = less.hyps [OF turn_shrinks [OF Continue] fed(2) r']
    have "decode_loop d [] = with_earlier out (Some r')"
      using Continue r' decode_loop_earlier [of d' out] by (simp add: decode_loop.simps [of d])
    with less.prems(2) have r: "Some r = with_earlier out (Some r')" by simp
    have "decode_loop (feed b d) [] = with_earlier out (decode_loop (feed b d') [])"
      using fed(1) decode_loop_earlier [of "feed b d'" out] by (simp add: decode_loop.simps [of "feed b d"])
    with IH r show ?thesis by (cases r') auto
  qed
qed

lemma decode_loop_inv:
  assumes "dec_skip_remaining d = 0" "decode_loop d [] = Some (Inr (d', out))"
  shows "dec_inv d' \<and> push d' [] = Some (Inr (d', []))"
  using assms
proof (induction "length (dec_buffer d)" arbitrary: d out rule: less_induct)
  case less
  note turn = decode_turn_feed [OF less.prems(1), of "[]"]
  show ?case
  proof (cases "decode_turn d")
    case (Break d1)
    then have d': "d' = d1" using less.prems(2) by (simp add: decode_loop.simps [of d])
    show ?thesis
    proof (cases "d1 = d")
      case True
      then show ?thesis using d' Break less.prems(1) push_not_skipping [OF less.prems(1), of "[]"]
        by (simp add: dec_inv_def feed_def decode_loop.simps [of d])
    next
      case False
      with turn Break d' show ?thesis by (auto simp: dec_inv_def push_def)
    qed
  next
    case (Continue d1 new)
    with turn have zero: "dec_skip_remaining d1 = 0" by auto
    obtain r' where r': "decode_loop d1 [] = Some r'" using decode_loop_returns by blast
    have "decode_loop d [] = with_earlier new (Some r')"
      using Continue r' decode_loop_earlier [of d1 new] by (simp add: decode_loop.simps [of d])
    then obtain out' where "decode_loop d1 [] = Some (Inr (d', out'))" using less.prems(2) r' by (cases r') auto
    from less.hyps [OF turn_shrinks [OF Continue] zero this] show ?thesis .
  qed (use less.prems(2) in \<open>simp add: decode_loop.simps [of d]\<close>)
qed

lemma push_skipping:
  "length a < dec_skip_remaining d \<Longrightarrow>
     push d a = Some (Inr (d\<lparr>dec_skip_remaining := dec_skip_remaining d - length a\<rparr>, []))"
  by (simp add: push_def Let_def)

lemma push_past_skip:
  "dec_skip_remaining d \<le> length a \<Longrightarrow>
     push d a = decode_loop (feed (drop (dec_skip_remaining d) a) (d\<lparr>dec_skip_remaining := 0\<rparr>)) []"
  by (simp add: push_def Let_def feed_def)

lemma push_append:
  assumes "push d a = Some r"
  shows "push d (a @ b) = (case r of Inl e \<Rightarrow> Some (Inl e) | Inr (d', out) \<Rightarrow> with_earlier out (push d' b))"
proof (cases "length a < dec_skip_remaining d")
  case True
  then show ?thesis
    using assms by (cases d) (auto simp: push_def Let_def min_def)
next
  case False
  let ?d = "feed (drop (dec_skip_remaining d) a) (d\<lparr>dec_skip_remaining := 0\<rparr>)"
  have "feed (drop (dec_skip_remaining d) (a @ b)) (d\<lparr>dec_skip_remaining := 0\<rparr>) = feed b ?d"
    using False by (simp add: feed_def)
  moreover have "dec_skip_remaining d \<le> length (a @ b)" using False by simp
  ultimately have "push d (a @ b) = decode_loop (feed b ?d) []" by (simp only: push_past_skip)
  moreover have "decode_loop ?d [] = Some r" using False assms push_past_skip [of d a] by simp
  ultimately show ?thesis using decode_loop_feed [of ?d r b] by simp
qed

lemma push_inv:
  assumes "push d a = Some (Inr (d', out))" "dec_inv d"
  shows "dec_inv d' \<and> push d' [] = Some (Inr (d', []))"
proof (cases "length a < dec_skip_remaining d")
  case True
  then show ?thesis using assms by (auto simp: push_skipping dec_inv_def push_def)
next
  case False
  then have "decode_loop (feed (drop (dec_skip_remaining d) a) (d\<lparr>dec_skip_remaining := 0\<rparr>)) [] = Some (Inr (d', out))"
    using assms(1) push_past_skip [of d a] by simp
  from decode_loop_inv [OF _ this] show ?thesis by (simp add: feed_def)
qed

lemma push_all_concat:
  assumes "dec_inv d" "push d [] = Some (Inr (d, []))"
  shows "push_all d cs = push d (concat cs)"
  using assms
proof (induction cs arbitrary: d)
  case (Cons c cs)
  obtain r where r: "push d c = Some r" using push_returns by blast
  show ?case
  proof (cases r)
    case (Inl e)
    with r show ?thesis using push_append [OF r, of "concat cs"] by simp
  next
    case (Inr p)
    obtain d' out where p: "p = (d', out)" by (cases p)
    with Inr r push_inv [of d c d' out] Cons.prems have "dec_inv d'" "push d' [] = Some (Inr (d', []))" by auto
    then have "push_all d' cs = push d' (concat cs)" by (rule Cons.IH)
    then show ?thesis
      using push_append [OF r, of "concat cs"] r Inr p
      by (cases "push d' (concat cs)") (auto split: sum.splits)
  qed
qed simp

subsection \<open>Encoded datagrams\<close>

lemma encode_datagram_out:
  "encode_datagram_into p out = map_sum id ((@) out) (encode_datagram_into p [])"
  by (auto simp: encode_datagram_into_def and_then_def split: sum.splits)

lemma decode_turn_encoded:
  assumes "encode_datagram_into p [] = Inr bs" "dec_buffer d = bs @ rest"
  shows "decode_turn d = Continue (d\<lparr>dec_buffer := rest\<rparr>) [p]"
proof -
  have size: "length p \<le> MAX_DATAGRAM_SIZE" using assms(1) by (auto simp: encode_datagram_into_def split: if_splits)
  have zero: "encode_varint 0 = Inr [0]" by (simp add: encode_varint_def put_u8_def)
  obtain len where len: "encode_varint (of_nat (length p + 1)) = Inr len" and bs: "bs = [0] @ len @ [0] @ p"
    using assms(1) size
    by (auto simp: encode_datagram_into_def and_then_Ok DATAGRAM_CAPSULE_TYPE_def DEFAULT_CONTEXT_ID_def zero)
  have "length p + 1 < 2 ^ LENGTH(64)" using size by (simp add: MAX_DATAGRAM_SIZE_def)
  then have unat: "unat (of_nat (length p + 1) :: u64) = length p + 1"
    unfolding unsigned_of_nat by (simp only: take_bit_nat_eq_self of_nat_id)
  have one: "decode_varint (dec_buffer d) = Some (0, 1)"
    using decode_encode_varint [OF zero, of "len @ [0] @ p @ rest"] by (simp add: assms(2) bs)
  have two: "decode_varint (drop 1 (dec_buffer d)) = Some (of_nat (length p + 1), length len)"
    using decode_encode_varint [OF len, of "[0] @ p @ rest"] by (simp add: assms(2) bs)
  have three: "decode_varint (0 # p) = Some (0, 1)"
    using decode_encode_varint [OF zero, of p] by simp
  have v: "take (length p + 1) (drop (1 + length len) (dec_buffer d)) = 0 # p"
      "drop (1 + length len + (length p + 1)) (dec_buffer d) = rest" "\<not> length (dec_buffer d) < 1 + length len + (length p + 1)"
    by (simp_all add: assms(2) bs)
  have "\<not> length p + 1 > MAX_DATAGRAM_SIZE + 8" "\<not> length p > MAX_DATAGRAM_SIZE" using size by simp_all
  with v three show ?thesis
    unfolding decode_turn_def one two option.case prod.case Let_def unat
    by (simp add: DATAGRAM_CAPSULE_TYPE_def DEFAULT_CONTEXT_ID_def)
qed

lemma decode_loop_encoded:
  assumes "encode_all ps out = Inr stream"
  shows "\<exists>bs. stream = out @ bs \<and> (\<forall>d rest acc. dec_buffer d = bs @ rest \<longrightarrow>
    decode_loop d acc = decode_loop (d\<lparr>dec_buffer := rest\<rparr>) (acc @ ps))"
  using assms
proof (induction ps arbitrary: out)
  case (Cons p ps)
  then obtain bs1 where bs1: "encode_datagram_into p [] = Inr bs1" and tail: "encode_all ps (out @ bs1) = Inr stream"
    using encode_datagram_out [of p out] by (cases "encode_datagram_into p []") (auto simp: and_then_Ok)
  from Cons.IH [OF tail] obtain bs2 where stream: "stream = (out @ bs1) @ bs2"
    and loop: "\<And>d rest acc. dec_buffer d = bs2 @ rest \<Longrightarrow> decode_loop d acc = decode_loop (d\<lparr>dec_buffer := rest\<rparr>) (acc @ ps)"
    by blast
  have "decode_loop d acc = decode_loop (d\<lparr>dec_buffer := rest\<rparr>) (acc @ p # ps)" if "dec_buffer d = (bs1 @ bs2) @ rest" for d rest acc
    using decode_turn_encoded [OF bs1, of d "bs2 @ rest"] that loop [of "d\<lparr>dec_buffer := bs2 @ rest\<rparr>" rest "acc @ [p]"]
    by (simp add: decode_loop.simps [of d acc])
  then show ?case using stream by (intro exI [of _ "bs1 @ bs2"]) auto
qed (auto intro!: exI [of _ "[]"])

lemma encode_varint_small: "v \<le> 4611686018427387903 \<Longrightarrow> \<exists>bs. encode_varint v = Inr bs"
  by (simp add: encode_varint_def)

lemma encode_datagram_succeeds:
  assumes "length p \<le> MAX_DATAGRAM_SIZE"
  shows "\<exists>bs. encode_datagram_into p out = Inr bs"
proof -
  have "length p + 1 < 2 ^ LENGTH(64)" using assms by (simp add: MAX_DATAGRAM_SIZE_def)
  then have "unat (of_nat (length p + 1) :: u64) = length p + 1"
    unfolding unsigned_of_nat by (simp only: take_bit_nat_eq_self of_nat_id)
  then have "(of_nat (length p + 1) :: u64) \<le> 4611686018427387903"
    using assms by (simp only: word_le_nat_alt MAX_DATAGRAM_SIZE_def) simp
  from encode_varint_small [OF this] obtain len where "encode_varint (of_nat (length p + 1)) = Inr len" ..
  moreover obtain z where "encode_varint 0 = Inr z" using encode_varint_small [of 0] by auto
  ultimately show ?thesis
    using assms by (auto simp: encode_datagram_into_def and_then_Ok DATAGRAM_CAPSULE_TYPE_def DEFAULT_CONTEXT_ID_def)
qed

lemma encode_all_succeeds:
  "\<forall>p \<in> set ps. length p \<le> MAX_DATAGRAM_SIZE \<Longrightarrow> \<exists>stream. encode_all ps out = Inr stream"
proof (induction ps arbitrary: out)
  case (Cons p ps)
  then obtain bs where "encode_datagram_into p out = Inr bs" using encode_datagram_succeeds by fastforce
  with Cons show ?case by (simp add: and_then_Ok)
qed simp

lemma push_default_empty: "push Decoder_default [] = Some (Inr (Decoder_default, []))"
  by (simp add: push_def Decoder_default_def decode_loop.simps decode_turn_def decode_varint_def)

lemma push_encoded:
  assumes "encode_all ps [] = Inr stream"
  shows "push Decoder_default stream = Some (Inr (Decoder_default, ps))"
proof -
  from decode_loop_encoded [OF assms] obtain loop: "\<And>d rest acc. dec_buffer d = stream @ rest \<Longrightarrow>
      decode_loop d acc = decode_loop (d\<lparr>dec_buffer := rest\<rparr>) (acc @ ps)" by auto
  have "push Decoder_default stream = decode_loop (Decoder_default\<lparr>dec_buffer := stream\<rparr>) []"
    by (simp add: push_def Decoder_default_def)
  also have "\<dots> = decode_loop (Decoder_default\<lparr>dec_buffer := []\<rparr>) ps"
    using loop [of "Decoder_default\<lparr>dec_buffer := stream\<rparr>" "[]" "[]"] by simp
  also have "\<dots> = Some (Inr (Decoder_default, ps))"
    by (simp add: decode_loop.simps decode_turn_def decode_varint_def Decoder_default_def)
  finally show ?thesis .
qed

section \<open>Properties\<close>

text \<open>
  C35. The decoder always answers: whatever it is fed, in whatever state, the loop over the buffered
  capsules ends with datagrams or with an error.
\<close>

theorem capsule_decoder_terminates: "\<exists>r. push d chunk = Some r"
  by (rule push_returns)


text \<open>
  C33. Datagrams arrive as they were sent: every datagram of at most 65527 bytes can be encoded, and
  the encodings, cut into chunks at will, decode to exactly the datagrams sent, in order, with nothing
  dropped and nothing left in the decoder.
\<close>

theorem capsule_round_trip:
  assumes "\<forall>p \<in> set ps. length p \<le> MAX_DATAGRAM_SIZE"
  shows "\<exists>stream. encode_all ps [] = Inr stream \<and>
    (\<forall>cs. concat cs = stream \<longrightarrow> push_all Decoder_default cs = Some (Inr (Decoder_default, ps)))"
proof -
  obtain stream where stream: "encode_all ps [] = Inr stream" using encode_all_succeeds [OF assms] by blast
  have "push_all Decoder_default cs = Some (Inr (Decoder_default, ps))" if "concat cs = stream" for cs
    using push_encoded [OF stream] push_all_concat [OF _ push_default_empty, of cs] that
    by (simp add: dec_inv_def Decoder_default_def)
  with stream show ?thesis by blast
qed

theorem capsule_round_trip_witness:
  "push_all Decoder_default [[0], [3, 0, 104], [105, 0, 1], [0]] = Some (Inr (Decoder_default, [[104, 105], []]))"
proof -
  have enc: "encode_all [[104, 105], []] [] = Inr [0, 3, 0, 104, 105, 0, 1, 0]"
    by (simp add: encode_datagram_into_def encode_varint_def put_u8_def and_then_def MAX_DATAGRAM_SIZE_def
        DATAGRAM_CAPSULE_TYPE_def DEFAULT_CONTEXT_ID_def)
  have "\<forall>p \<in> set [[104, 105], [] :: u8 list]. length p \<le> MAX_DATAGRAM_SIZE" by (simp add: MAX_DATAGRAM_SIZE_def)
  from capsule_round_trip [OF this]
  have "concat cs = [0, 3, 0, 104, 105, 0, 1, 0] \<Longrightarrow>
      push_all Decoder_default cs = Some (Inr (Decoder_default, [[104, 105], []]))" for cs
    unfolding enc by auto
  note this [of "[[0], [3, 0, 104], [105, 0, 1], [0]]"]
  then show ?thesis by (simp del: push_all.simps)
qed

end
