(* ===== verification/Dns.thy ===== *)
theory Dns
  imports Xds "HOL-Library.Monad_Syntax" "HOL-Library.Multiset"
begin

text \<open>
  The DNS proxy: \<^verbatim>\<open>src/dns/server.rs\<close> (the store that answers for known services and forwards
  everything else), \<^verbatim>\<open>src/dns/name_util.rs\<close>, \<^verbatim>\<open>src/dns/resolver.rs\<close> and the request handler of
  \<^verbatim>\<open>src/dns/handler.rs\<close>.

  Domain names are those of the \<open>hickory\<close> crates. Their operations are the parameter \<open>name_ops\<close>, and
  what the crate documents of them is the hypothesis \<open>name_sound\<close>. The upstream resolver, the shuffle
  of the addresses and the workload found for the client are parameters too. A computation that
  panics (\<open>unwrap\<close>, \<open>expect\<close>) is \<^const>\<open>None\<close>. The two read locks a lookup takes may see different
  states, so a lookup has a state for the search and one for the addresses.
\<close>

section \<open>Names\<close>

record 'n name_ops =
  nm_from_str :: "string \<Rightarrow> 'n option"
  nm_from_utf8 :: "string \<Rightarrow> 'n option"
  nm_from_labels :: "string list \<Rightarrow> 'n option"
  nm_iter :: "'n \<Rightarrow> string list"
  nm_num_labels :: "'n \<Rightarrow> nat"
  nm_is_wildcard :: "'n \<Rightarrow> bool"
  nm_into_wildcard :: "'n \<Rightarrow> 'n"
  nm_base_name :: "'n \<Rightarrow> 'n"
  nm_append_domain :: "'n \<Rightarrow> 'n \<Rightarrow> 'n option"
  nm_set_fqdn :: "bool \<Rightarrow> 'n \<Rightarrow> 'n"
  nm_to_string :: "'n \<Rightarrow> string"
  nm_to_utf8 :: "'n \<Rightarrow> string"
  nm_eq :: "'n \<Rightarrow> 'n \<Rightarrow> bool"

definition wildcard_label :: string where
  "wildcard_label = ''*''"

text \<open>
  What the crate documents: a name is a wildcard when its first label is the asterisk, the number of
  labels leaves such a label out, \<open>into_wildcard\<close> replaces the first label, \<open>base_name\<close> drops it,
  \<open>append_domain\<close> appends the labels and makes the name fully qualified, \<open>from_labels\<close> keeps the
  labels, and \<open>set_fqdn\<close> changes no label.
\<close>

definition starts_wild :: "string list \<Rightarrow> bool" where
  "starts_wild ls = (case ls of [] \<Rightarrow> False | l # _ \<Rightarrow> l = wildcard_label)"

definition name_sound :: "'n name_ops \<Rightarrow> bool" where
  "name_sound D \<longleftrightarrow>
     (\<forall>n. nm_is_wildcard D n = starts_wild (nm_iter D n)) \<and>
     (\<forall>n. nm_num_labels D n = length (nm_iter D n) - (if starts_wild (nm_iter D n) then 1 else 0)) \<and>
     (\<forall>n. nm_iter D n \<noteq> [] \<longrightarrow> nm_iter D (nm_into_wildcard D n) = wildcard_label # tl (nm_iter D n)) \<and>
     (\<forall>n. nm_iter D (nm_base_name D n) = tl (nm_iter D n)) \<and>
     (\<forall>a b n. nm_append_domain D a b = Some n \<longrightarrow> nm_iter D n = nm_iter D a @ nm_iter D b) \<and>
     (\<forall>ls n. nm_from_labels D ls = Some n \<longrightarrow> nm_iter D n = ls) \<and>
     (\<forall>b n. nm_iter D (nm_set_fqdn D b n) = nm_iter D n)"

definition as_name :: "'n name_ops \<Rightarrow> string \<Rightarrow> 'n option" where
  "as_name D name = nm_from_str D name"

definition append_name :: "'n name_ops \<Rightarrow> 'n \<Rightarrow> 'n \<Rightarrow> 'n option" where
  "append_name D a b = nm_append_domain D a b"

definition has_domain :: "'n name_ops \<Rightarrow> 'n \<Rightarrow> 'n \<Rightarrow> bool" where
  "has_domain D name domain =
     (if nm_is_wildcard D domain \<or> nm_num_labels D name \<le> nm_num_labels D domain then False
      else drop (length (nm_iter D name) - length (nm_iter D domain)) (nm_iter D name) = nm_iter D domain)"

definition trim_domain :: "'n name_ops \<Rightarrow> 'n \<Rightarrow> 'n \<Rightarrow> 'n option option" where
  "trim_domain D name domain =
     (if has_domain D name domain
      then (let num_labels = length (nm_iter D name) - nm_num_labels D domain in
            do { n \<leftarrow> nm_from_labels D (take num_labels (nm_iter D name)); Some (Some (nm_set_fqdn D False n)) })
      else Some None)"

partial_function (option) wildcard_loop :: "'n name_ops \<Rightarrow> 'n \<Rightarrow> 'n list \<Rightarrow> 'n list option" where
  "wildcard_loop D name out =
     (if nm_num_labels D name > 1
      then wildcard_loop D (nm_base_name D name) (out @ [nm_into_wildcard D name])
      else Some out)"

declare wildcard_loop.simps [code]

definition get_wildcards :: "'n name_ops \<Rightarrow> 'n \<Rightarrow> 'n list option" where
  "get_wildcards D name = wildcard_loop D name [name]"

section \<open>Records and answers\<close>

datatype RecordType = RtA | RtAAAA | RtOther nat

datatype 'n RData = RdA u32 | RdAAAA u128 | RdCname 'n | RdOther string

record 'n DnsRecord =
  rr_name :: 'n
  rr_ttl :: u32
  rr_data :: "'n RData"

record 'n Answer =
  ans_records :: "'n DnsRecord list"
  ans_is_authoritative :: bool

definition Answer_new :: "'n DnsRecord list \<Rightarrow> bool \<Rightarrow> 'n Answer" where
  "Answer_new records is_authoritative = \<lparr>ans_records = records, ans_is_authoritative = is_authoritative\<rparr>"

text \<open>An answer of the upstream resolver is never authoritative.\<close>

definition Answer_from :: "'n DnsRecord list \<Rightarrow> 'n Answer" where
  "Answer_from answers = Answer_new answers False"

definition DEFAULT_TTL_SECONDS :: u32 where
  "DEFAULT_TTL_SECONDS = 30"

definition is_record_type_supported :: "RecordType \<Rightarrow> bool" where
  "is_record_type_supported t = (t = RtA \<or> t = RtAAAA)"

fun is_record_type :: "IpAddr \<Rightarrow> RecordType \<Rightarrow> bool" where
  "is_record_type (V4 _) t = (t = RtA)"
| "is_record_type (V6 _) t = (t = RtAAAA)"

definition to_record :: "'n \<Rightarrow> 'n RData \<Rightarrow> 'n DnsRecord" where
  "to_record name rdata = \<lparr>rr_name = name, rr_ttl = DEFAULT_TTL_SECONDS, rr_data = rdata\<rparr>"

definition cname_record :: "'n \<Rightarrow> 'n \<Rightarrow> 'n DnsRecord" where
  "cname_record name canonical_name = to_record name (RdCname canonical_name)"

fun ip_records :: "'n \<Rightarrow> IpAddr list \<Rightarrow> 'n DnsRecord list \<Rightarrow> 'n DnsRecord list" where
  "ip_records name [] out = out"
| "ip_records name (V4 addr # addrs) out = ip_records name addrs (out @ [to_record name (RdA addr)])"
| "ip_records name (V6 addr # addrs) out = ip_records name addrs (out @ [to_record name (RdAAAA addr)])"

datatype ResponseCode = NoError | FormErr | ServFail | NXDomain | NotImp | RcodeOther nat

datatype LookupError =
  LeNameExists
| LeResponseCode ResponseCode
| LeNoRecordsFound ResponseCode
| LeNetResponseCode ResponseCode
| LeNetOther
| LeIo
| LeOther

section \<open>Forwarding\<close>

datatype 'n SearchDomains = Static "'n list" | Dynamic string

definition search_domains :: "'n name_ops \<Rightarrow> 'n SearchDomains \<Rightarrow> Workload \<Rightarrow> 'n list option" where
  "search_domains D sd wl =
     (case sd of
        Static s \<Rightarrow> Some s
      | Dynamic cluster_domain \<Rightarrow>
          those [nm_from_utf8 D (wl_namespace wl @ ''.svc.'' @ cluster_domain),
                 nm_from_utf8 D (''svc.'' @ cluster_domain),
                 nm_from_utf8 D cluster_domain])"

definition forwarder_for_mode :: "ProxyMode \<Rightarrow> string \<Rightarrow> 'n list \<Rightarrow> 'n SearchDomains" where
  "forwarder_for_mode mode cluster_domain system_search =
     (case mode of Shared \<Rightarrow> Dynamic cluster_domain | Dedicated \<Rightarrow> Static system_search)"

record 'n query =
  q_name :: 'n
  q_type :: RecordType

record Edns =
  ed_max_payload :: u16
  ed_version :: u8
  ed_dnssec_ok :: bool

datatype MessageType = MtQuery | MtResponse

datatype OpCode = OpQuery | OpOther nat

record 'n dns_request =
  rq_message_type :: MessageType
  rq_op_code :: OpCode
  rq_info :: "('n query, LookupError) result"
  rq_edns :: "Edns option"

text \<open>The upstream lookup takes the name and the type of the query.\<close>

definition Forwarder_lookup ::
  "('n \<Rightarrow> RecordType \<Rightarrow> ('n DnsRecord list, LookupError) result) \<Rightarrow> 'n dns_request \<Rightarrow> ('n Answer, LookupError) result"
where
  "Forwarder_lookup upstream request =
     and_then (rq_info request) (\<lambda>query.
       (case upstream (q_name query) (q_type query) of Inl e \<Rightarrow> Err e | Inr answers \<Rightarrow> Ok (Answer_from answers)))"

record dns_metrics =
  dm_requests :: nat
  dm_forwarded_requests :: nat
  dm_forwarded_failures :: nat

definition store_forward ::
  "('n \<Rightarrow> RecordType \<Rightarrow> ('n DnsRecord list, LookupError) result) \<Rightarrow> 'n dns_request \<Rightarrow> dns_metrics \<Rightarrow>
   dns_metrics \<times> ('n Answer, LookupError) result"
where
  "store_forward upstream request m =
     (let m1 = m\<lparr>dm_requests := Suc (dm_requests m), dm_forwarded_requests := Suc (dm_forwarded_requests m)\<rparr>
      in case Forwarder_lookup upstream request of
           Inr answer \<Rightarrow> (m1, Ok answer)
         | Inl e \<Rightarrow> (m1\<lparr>dm_forwarded_failures := Suc (dm_forwarded_failures m1)\<rparr>, Err e))"

section \<open>The store\<close>

record 'n Store =
  st_domain :: 'n
  st_svc_domain :: 'n
  st_search :: "'n SearchDomains"
  st_prefered_service_namespace :: "string option"
  st_ipv6_enabled :: bool

definition Store_new ::
  "'n name_ops \<Rightarrow> string \<Rightarrow> 'n SearchDomains \<Rightarrow> string option \<Rightarrow> bool \<Rightarrow> 'n Store option"
where
  "Store_new D domain search preferred ipv6 =
     do {
       domain \<leftarrow> as_name D domain;
       svc \<leftarrow> as_name D ''svc'';
       svc_domain \<leftarrow> append_name D svc domain;
       Some \<lparr>st_domain = domain, st_svc_domain = svc_domain, st_search = search,
             st_prefered_service_namespace = preferred, st_ipv6_enabled = ipv6\<rparr>
     }"

record 'n Alias =
  al_name :: 'n
  al_stripped :: "'n option"

record 'n ServerMatch =
  sm_name :: 'n
  sm_alias :: "'n Alias"
  sm_server :: Address

definition to_kube_fqdns :: "'n name_ops \<Rightarrow> 'n Store \<Rightarrow> 'n \<Rightarrow> 'n \<Rightarrow> 'n list option" where
  "to_kube_fqdns D st name namespaced_domain =
     (let n = length (nm_iter D name) in
      if n = 1 then those [append_name D name namespaced_domain]
      else if n = 2 then those [append_name D name (st_svc_domain st), append_name D name namespaced_domain]
      else if n = 3 \<or> n = 4 then
        do {
          svc \<leftarrow> as_name D ''svc'';
          those ((if has_domain D name svc then [append_name D name (st_domain st)] else []) @
                 (if n = 3 then [append_name D name (st_svc_domain st)] else []))
        }
      else Some [])"

text \<open>The closure \<open>add_alias\<close>: the aliases so far stand for both the vector and the set of their names.\<close>

definition add_alias :: "'n name_ops \<Rightarrow> 'n Alias \<Rightarrow> 'n Alias list \<Rightarrow> 'n Alias list" where
  "add_alias D alias out = (if list_ex (\<lambda>a. nm_eq D (al_name alias) (al_name a)) out then out else out @ [alias])"

definition strip_step ::
  "'n name_ops \<Rightarrow> 'n Store \<Rightarrow> 'n \<Rightarrow> 'n \<Rightarrow> 'n \<Rightarrow> 'n Alias list \<Rightarrow> 'n Alias list option"
where
  "strip_step D st namespaced_domain name search_domain out =
     do {
       trimmed \<leftarrow> trim_domain D name search_domain;
       (case trimmed of
          None \<Rightarrow> Some out
        | Some stripped_name \<Rightarrow>
            do {
              fqdns \<leftarrow> to_kube_fqdns D st stripped_name namespaced_domain;
              Some (fold (\<lambda>n. add_alias D \<lparr>al_name = n, al_stripped = Some stripped_name\<rparr>) (stripped_name # fqdns) out)
            })
     }"

fun strip_all ::
  "'n name_ops \<Rightarrow> 'n Store \<Rightarrow> 'n \<Rightarrow> 'n \<Rightarrow> 'n list \<Rightarrow> 'n Alias list \<Rightarrow> 'n Alias list option"
where
  "strip_all D st namespaced_domain name [] out = Some out"
| "strip_all D st namespaced_domain name (d # ds) out =
     do { out' \<leftarrow> strip_step D st namespaced_domain name d out; strip_all D st namespaced_domain name ds out' }"

definition get_aliases :: "'n name_ops \<Rightarrow> 'n Store \<Rightarrow> Workload \<Rightarrow> 'n \<Rightarrow> 'n Alias list option" where
  "get_aliases D st client name =
     do {
       ns \<leftarrow> as_name D (wl_namespace client);
       namespaced_domain \<leftarrow> append_name D ns (st_svc_domain st);
       fqdns \<leftarrow> to_kube_fqdns D st name namespaced_domain;
       domains \<leftarrow> search_domains D (st_search st) client;
       strip_all D st namespaced_domain name domains
         (fold (\<lambda>n. add_alias D \<lparr>al_name = n, al_stripped = None\<rparr>) (name # fqdns) [])
     }"

text \<open>The suffix of Kubernetes service hosts, without the trailing dot, and the services that may answer for a host.\<close>

definition svc_suffix :: "'n name_ops \<Rightarrow> 'n Store \<Rightarrow> string option" where
  "svc_suffix D st =
     (let domain = CHR ''.'' # nm_to_utf8 D (st_svc_domain st) in
      if last domain = CHR ''.'' then Some (butlast domain) else None)"

definition host_services :: "'n name_ops \<Rightarrow> 'n Store \<Rightarrow> ProxyState \<Rightarrow> string \<Rightarrow> Service list option" where
  "host_services D st s host =
     (case get_by_host (px_services s) host of
        None \<Rightarrow> Some []
      | Some [] \<Rightarrow> Some []
      | Some services \<Rightarrow>
          do {
            domain \<leftarrow> svc_suffix D st;
            Some (filter (\<lambda>service. sv_vips service \<noteq> [] \<or> suffix domain (sv_hostname service)) services)
          })"

definition search_host :: "'n name_ops \<Rightarrow> 'n \<Rightarrow> string" where
  "search_host D name = nm_to_string D (nm_set_fqdn D False name)"

fun find_in_names ::
  "'n name_ops \<Rightarrow> 'n Store \<Rightarrow> ProxyState \<Rightarrow> Workload \<Rightarrow> 'n Alias \<Rightarrow> 'n list \<Rightarrow> 'n ServerMatch option option"
where
  "find_in_names D st s client alias [] = Some None"
| "find_in_names D st s client alias (n # ns) =
     do {
       services \<leftarrow> host_services D st s (search_host D n);
       (case find_best_match services (Some (wl_namespace client))
               (Some (case st_prefered_service_namespace st of None \<Rightarrow> '''' | Some p \<Rightarrow> p)) of
          Some service \<Rightarrow>
            Some (Some \<lparr>sm_name = nm_set_fqdn D True (nm_set_fqdn D False n), sm_alias = alias,
                        sm_server = AddressService service\<rparr>)
        | None \<Rightarrow> find_in_names D st s client alias ns)
     }"

fun find_in_aliases ::
  "'n name_ops \<Rightarrow> 'n Store \<Rightarrow> ProxyState \<Rightarrow> Workload \<Rightarrow> 'n Alias list \<Rightarrow> 'n ServerMatch option option"
where
  "find_in_aliases D st s client [] = Some None"
| "find_in_aliases D st s client (alias # aliases) =
     do {
       names \<leftarrow> get_wildcards D (al_name alias);
       found \<leftarrow> find_in_names D st s client alias names;
       (case found of Some m \<Rightarrow> Some (Some m) | None \<Rightarrow> find_in_aliases D st s client aliases)
     }"

definition find_server ::
  "'n name_ops \<Rightarrow> 'n Store \<Rightarrow> ProxyState \<Rightarrow> Workload \<Rightarrow> 'n \<Rightarrow> 'n ServerMatch option option"
where
  "find_server D st s client requested_name =
     do { aliases \<leftarrow> get_aliases D st client requested_name; find_in_aliases D st s client aliases }"

definition record_type_enabled :: "'n Store \<Rightarrow> IpAddr \<Rightarrow> bool" where
  "record_type_enabled st addr = (case addr of V4 _ \<Rightarrow> True | V6 _ \<Rightarrow> st_ipv6_enabled st)"

definition get_addresses ::
  "(IpAddr list \<Rightarrow> IpAddr list) \<Rightarrow> 'n Store \<Rightarrow> ProxyState \<Rightarrow> Workload \<Rightarrow> Address \<Rightarrow> RecordType \<Rightarrow> IpAddr list"
where
  "get_addresses shuffle st s client server record_type =
     (let usable = (\<lambda>addr. is_record_type addr record_type \<and> record_type_enabled st addr) in
      shuffle
        (case server of
           AddressWorkload wl \<Rightarrow> filter usable (wl_workload_ips wl)
         | AddressService service \<Rightarrow>
             if sv_vips service = []
             then List.map_filter (\<lambda>ep.
                    case ws_find_uid (px_workloads s) (ep_workload_uid ep) of
                      None \<Rightarrow> None
                    | Some wl \<Rightarrow> find usable (wl_workload_ips wl)) (hm_values (sv_endpoints service))
             else List.map_filter (\<lambda>vip.
                    if is_record_type (na_address vip) record_type \<and> wl_network client = na_network vip \<and>
                       record_type_enabled st (na_address vip)
                    then Some (na_address vip) else None) (sv_vips service)))"

definition service_family_allowed :: "Address \<Rightarrow> RecordType \<Rightarrow> bool \<Rightarrow> bool" where
  "service_family_allowed server record_type ipv6_enabled =
     (if \<not> ipv6_enabled \<and> record_type = RtAAAA then False
      else case server of
             AddressService service \<Rightarrow>
               (case sv_ip_families service of
                  Some IPv4 \<Rightarrow> record_type \<noteq> RtAAAA
                | Some IPv6 \<Rightarrow> record_type \<noteq> RtA
                | _ \<Rightarrow> True)
           | AddressWorkload _ \<Rightarrow> True)"

definition answer_match ::
  "'n name_ops \<Rightarrow> (IpAddr list \<Rightarrow> IpAddr list) \<Rightarrow> 'n Store \<Rightarrow> ProxyState \<Rightarrow> Workload \<Rightarrow> 'n query \<Rightarrow> 'n ServerMatch \<Rightarrow>
   'n Answer"
where
  "answer_match D shuffle st s client query service_match =
     (if \<not> service_family_allowed (sm_server service_match) (q_type query) (st_ipv6_enabled st) then Answer_new [] True
      else
        let addresses = get_addresses shuffle st s client (sm_server service_match) (q_type query) in
        if addresses = [] then Answer_new [] True
        else
          let (ip_record_name, records) =
                (case al_stripped (sm_alias service_match) of
                   Some stripped \<Rightarrow>
                     if \<not> nm_is_wildcard D (sm_name service_match)
                     then (stripped, [cname_record (q_name query) stripped])
                     else (q_name query, [])
                 | None \<Rightarrow> (q_name query, []))
          in Answer_new (ip_records ip_record_name addresses records) True)"

definition store_lookup ::
  "'n name_ops \<Rightarrow> ('n \<Rightarrow> RecordType \<Rightarrow> ('n DnsRecord list, LookupError) result) \<Rightarrow> (IpAddr list \<Rightarrow> IpAddr list) \<Rightarrow>
   'n Store \<Rightarrow> ProxyState \<Rightarrow> ProxyState \<Rightarrow> Workload option \<Rightarrow> 'n dns_request \<Rightarrow> dns_metrics \<Rightarrow>
   (dns_metrics \<times> ('n Answer, LookupError) result) option"
where
  "store_lookup D upstream shuffle st s_find s_addr local_workload request m =
     (case local_workload of
        None \<Rightarrow> Some (m\<lparr>dm_requests := Suc (dm_requests m)\<rparr>, Err (LeResponseCode ServFail))
      | Some client \<Rightarrow>
          (case rq_info request of
             Inl e \<Rightarrow> Some (m, Err e)
           | Inr query \<Rightarrow>
               if \<not> is_record_type_supported (q_type query) then Some (store_forward upstream request m)
               else
                 do {
                   found \<leftarrow> find_server D st s_find client (q_name query);
                   (case found of
                      None \<Rightarrow> Some (store_forward upstream request m)
                    | Some service_match \<Rightarrow>
                        Some (m\<lparr>dm_requests := Suc (dm_requests m)\<rparr>,
                              Ok (answer_match D shuffle st s_addr client query service_match)))
                 }))"

section \<open>The request handler\<close>

datatype 'n reply =
  ReplyLookup bool "'n DnsRecord list" "Edns option"
| ReplyError ResponseCode
| ReplyEmpty

definition response_edns :: "'n dns_request \<Rightarrow> Edns option" where
  "response_edns request =
     (case rq_edns request of
        None \<Rightarrow> None
      | Some req_edns \<Rightarrow> Some \<lparr>ed_max_payload = max (ed_max_payload req_edns) 512,
                              ed_version = ed_version req_edns, ed_dnssec_ok = ed_dnssec_ok req_edns\<rparr>)"

definition send_lookup :: "'n dns_request \<Rightarrow> 'n Answer \<Rightarrow> 'n reply" where
  "send_lookup request answer =
     ReplyLookup (ans_is_authoritative answer) (ans_records answer) (response_edns request)"

fun send_lookup_error :: "LookupError \<Rightarrow> 'n reply" where
  "send_lookup_error LeNameExists = ReplyEmpty"
| "send_lookup_error (LeResponseCode code) = ReplyError code"
| "send_lookup_error (LeNoRecordsFound code) = ReplyError code"
| "send_lookup_error (LeNetResponseCode code) = ReplyError code"
| "send_lookup_error LeNetOther = ReplyError ServFail"
| "send_lookup_error LeIo = ReplyError ServFail"
| "send_lookup_error LeOther = ReplyError ServFail"

definition handle_request ::
  "('n dns_request \<Rightarrow> dns_metrics \<Rightarrow> (dns_metrics \<times> ('n Answer, LookupError) result) option) \<Rightarrow>
   'n dns_request \<Rightarrow> dns_metrics \<Rightarrow> (dns_metrics \<times> 'n reply) option"
where
  "handle_request resolver request m =
     (case rq_message_type request of
        MtQuery \<Rightarrow>
          (case rq_op_code request of
             OpQuery \<Rightarrow>
               do {
                 (m', result) \<leftarrow> resolver request m;
                 Some (m', case result of Inr answer \<Rightarrow> send_lookup request answer | Inl e \<Rightarrow> send_lookup_error e)
               }
           | OpOther _ \<Rightarrow> Some (m, ReplyError NotImp))
      | MtResponse \<Rightarrow> Some (m, ReplyError FormErr))"

section \<open>Specification\<close>

text \<open>
  The names searched for a list of aliases, in order; the service that answers for a host; and the
  addresses a client may be given for a service: its virtual addresses on the network of the client,
  or, for a headless service, the first fitting address of the workload behind each endpoint.
\<close>

definition dns_candidates :: "'n name_ops \<Rightarrow> 'n Alias list \<Rightarrow> ('n Alias \<times> 'n) list" where
  "dns_candidates D aliases =
     concat (map (\<lambda>alias. map (Pair alias) (case get_wildcards D (al_name alias) of None \<Rightarrow> [] | Some ns \<Rightarrow> ns)) aliases)"

definition usable_service :: "'n Store \<Rightarrow> string \<Rightarrow> ProxyState \<Rightarrow> Workload \<Rightarrow> string \<Rightarrow> Service option" where
  "usable_service st domain s client host =
     find_best_match
       (filter (\<lambda>service. sv_vips service \<noteq> [] \<or> suffix domain (sv_hostname service))
         (case get_by_host (px_services s) host of None \<Rightarrow> [] | Some services \<Rightarrow> services))
       (Some (wl_namespace client))
       (Some (case st_prefered_service_namespace st of None \<Rightarrow> '''' | Some p \<Rightarrow> p))"

definition answerable :: "'n Store \<Rightarrow> RecordType \<Rightarrow> IpAddr \<Rightarrow> bool" where
  "answerable st t a = (is_record_type a t \<and> (is_ipv6 a \<longrightarrow> st_ipv6_enabled st))"

definition dns_addresses :: "'n Store \<Rightarrow> ProxyState \<Rightarrow> Workload \<Rightarrow> Service \<Rightarrow> RecordType \<Rightarrow> IpAddr set" where
  "dns_addresses st s client service t =
     {a. answerable st t a \<and>
         (sv_ip_families service = Some IPv4 \<longrightarrow> is_ipv4 a) \<and> (sv_ip_families service = Some IPv6 \<longrightarrow> is_ipv6 a) \<and>
         (if sv_vips service = []
          then \<exists>ep \<in> set (hm_values (sv_endpoints service)). \<exists>wl.
                 ws_find_uid (px_workloads s) (ep_workload_uid ep) = Some wl \<and>
                 find (answerable st t) (wl_workload_ips wl) = Some a
          else \<exists>vip \<in> set (sv_vips service). na_network vip = wl_network client \<and> na_address vip = a)}"

fun rdata_address :: "'n RData \<Rightarrow> IpAddr option" where
  "rdata_address (RdA a) = Some (V4 a)"
| "rdata_address (RdAAAA a) = Some (V6 a)"
| "rdata_address _ = None"

definition record_addresses :: "'n Answer \<Rightarrow> IpAddr list" where
  "record_addresses a = List.map_filter (\<lambda>r. rdata_address (rr_data r)) (ans_records a)"

text \<open>The owner of the address records: the name without its search domain when an exact host was found through one.\<close>

definition answer_name :: "'n name_ops \<Rightarrow> 'n Alias \<Rightarrow> 'n \<Rightarrow> 'n \<Rightarrow> 'n" where
  "answer_name D alias found requested =
     (case al_stripped alias of
        None \<Rightarrow> requested
      | Some stripped \<Rightarrow> if starts_wild (nm_iter D found) then requested else stripped)"

definition shuffle_sound :: "(IpAddr list \<Rightarrow> IpAddr list) \<Rightarrow> bool" where
  "shuffle_sound shuffle \<longleftrightarrow> (\<forall>xs. mset (shuffle xs) = mset xs)"

definition example_names :: "(string list \<times> bool) name_ops" where
  "example_names =
     \<lparr>nm_from_str = (\<lambda>s. Some (filter (\<lambda>l. l \<noteq> []) (split_on CHR ''.'' s), s \<noteq> [] \<and> last s = CHR ''.'')),
      nm_from_utf8 = (\<lambda>s. Some (filter (\<lambda>l. l \<noteq> []) (split_on CHR ''.'' s), s \<noteq> [] \<and> last s = CHR ''.'')),
      nm_from_labels = (\<lambda>ls. Some (ls, True)),
      nm_iter = fst,
      nm_num_labels = (\<lambda>n. length (fst n) - (if starts_wild (fst n) then 1 else 0)),
      nm_is_wildcard = (\<lambda>n. starts_wild (fst n)),
      nm_into_wildcard = (\<lambda>n. (wildcard_label # tl (fst n), snd n)),
      nm_base_name = (\<lambda>n. (tl (fst n), snd n)),
      nm_append_domain = (\<lambda>a b. Some (fst a @ fst b, True)),
      nm_set_fqdn = (\<lambda>b n. (fst n, b)),
      nm_to_string = (\<lambda>n. join ''.'' (fst n) @ (if snd n then ''.'' else '''')),
      nm_to_utf8 = (\<lambda>n. join ''.'' (fst n) @ (if snd n then ''.'' else '''')),
      nm_eq = (=)\<rparr>"

definition example_dns :: "(string list \<times> bool) Store" where
  "example_dns = the (Store_new example_names ''cluster.local'' (Dynamic ''cluster.local'') None True)"

definition example_query :: "(string list \<times> bool) query" where
  "example_query = \<lparr>q_name = ([''web'', ''prod'', ''svc''], True), q_type = RtA\<rparr>"

definition example_dns_request :: "(string list \<times> bool) dns_request" where
  "example_dns_request = \<lparr>rq_message_type = MtQuery, rq_op_code = OpQuery,
     rq_info = Inr example_query, rq_edns = None\<rparr>"

definition server_match :: "'n name_ops \<Rightarrow> 'n Alias \<Rightarrow> 'n \<Rightarrow> Service \<Rightarrow> 'n ServerMatch" where
  "server_match D alias n service =
     \<lparr>sm_name = nm_set_fqdn D True (nm_set_fqdn D False n), sm_alias = alias, sm_server = AddressService service\<rparr>"

definition match_at :: "'n name_ops \<Rightarrow> 'n Store \<Rightarrow> string \<Rightarrow> ProxyState \<Rightarrow> Workload \<Rightarrow> 'n Alias \<times> 'n \<Rightarrow> 'n ServerMatch option" where
  "match_at D st domain s client c =
     map_option (server_match D (fst c) (snd c)) (usable_service st domain s client (search_host D (snd c)))"

definition ip_record :: "'n \<Rightarrow> IpAddr \<Rightarrow> 'n DnsRecord" where
  "ip_record n a = to_record n (case a of V4 x \<Rightarrow> RdA x | V6 x \<Rightarrow> RdAAAA x)"

section \<open>Lemmas\<close>

subsection \<open>Wildcards\<close>

lemma wildcard_loop_returns:
  assumes "name_sound D"
  shows "\<exists>out. wildcard_loop D n acc = Some (acc @ out)"
proof (induction "length (nm_iter D n)" arbitrary: n acc rule: less_induct)
  case less
  show ?case
  proof (cases "nm_num_labels D n > 1")
    case True
    then have "length (nm_iter D (nm_base_name D n)) < length (nm_iter D n)"
      using assms by (auto simp: name_sound_def split: if_splits)
    from less [OF this] obtain out where
      "wildcard_loop D (nm_base_name D n) (acc @ [nm_into_wildcard D n]) = Some ((acc @ [nm_into_wildcard D n]) @ out)" ..
    with True show ?thesis by (simp add: wildcard_loop.simps [of D n])
  qed (simp add: wildcard_loop.simps [of D n])
qed

lemma get_wildcards_returns:
  assumes "name_sound D"
  shows "\<exists>ns. get_wildcards D n = Some (n # ns)"
  using wildcard_loop_returns [OF assms, of n "[n]"] by (simp add: get_wildcards_def)

lemma wildcard_loop_labels:
  assumes "name_sound D" "wildcard_label \<notin> set (nm_iter D n)" "wildcard_loop D n acc = Some out"
  shows "map (nm_iter D) out =
    map (nm_iter D) acc @ map (\<lambda>k. wildcard_label # drop k (nm_iter D n)) [1..<length (nm_iter D n)]"
  using assms(2,3)
proof (induction "length (nm_iter D n)" arbitrary: n acc out rule: less_induct)
  case less
  have num: "nm_num_labels D n = length (nm_iter D n)"
    using assms(1) less.prems(1) by (auto simp: name_sound_def starts_wild_def split: list.splits)
  have base: "nm_iter D (nm_base_name D n) = tl (nm_iter D n)" using assms(1) by (simp add: name_sound_def)
  show ?case
  proof (cases "length (nm_iter D n) > 1")
    case True
    then obtain l ls where ls: "nm_iter D n = l # ls" "ls \<noteq> []" by (cases "nm_iter D n") auto
    have wild: "nm_iter D (nm_into_wildcard D n) = wildcard_label # ls" using assms(1) ls by (simp add: name_sound_def)
    have "wildcard_loop D (nm_base_name D n) (acc @ [nm_into_wildcard D n]) = Some out"
      using less.prems(2) True num by (simp add: wildcard_loop.simps [of D n])
    with less.hyps [of "nm_base_name D n"] base ls less.prems(1)
    have "map (nm_iter D) out = map (nm_iter D) (acc @ [nm_into_wildcard D n]) @
        map (\<lambda>k. wildcard_label # drop k ls) [1..<length ls]" by simp
    moreover have "[1..<Suc (length ls)] = 1 # map Suc [1..<length ls]"
      using ls(2) by (cases ls) (simp_all add: upt_conv_Cons map_Suc_upt del: upt_Suc)
    ultimately show ?thesis using wild ls by (simp add: o_def del: upt_Suc)
  qed (use less.prems(2) num in \<open>simp add: wildcard_loop.simps [of D n]\<close>)
qed

text \<open>The names tried for a host without wildcards: the host, then ever shorter wildcard domains.\<close>

lemma get_wildcards_labels:
  assumes "name_sound D" "wildcard_label \<notin> set (nm_iter D n)"
  shows "\<exists>ns. get_wildcards D n = Some ns \<and>
    map (nm_iter D) ns = nm_iter D n # map (\<lambda>k. wildcard_label # drop k (nm_iter D n)) [1..<length (nm_iter D n)]"
  using get_wildcards_returns [OF assms(1), of n] wildcard_loop_labels [OF assms, of "[n]"] by (auto simp: get_wildcards_def)

subsection \<open>The search\<close>

lemma host_services_usable:
  assumes "svc_suffix D st = Some domain"
  shows "host_services D st s host =
    Some (filter (\<lambda>service. sv_vips service \<noteq> [] \<or> suffix domain (sv_hostname service))
      (case get_by_host (px_services s) host of None \<Rightarrow> [] | Some services \<Rightarrow> services))"
  using assms by (auto simp: host_services_def split: option.splits list.splits)

lemma find_in_names_first:
  assumes "svc_suffix D st = Some domain"
  shows "find_in_names D st s client alias ns = Some (find_map (match_at D st domain s client) (map (Pair alias) ns))"
  by (induction ns)
    (auto simp: host_services_usable [OF assms] match_at_def usable_service_def server_match_def split: option.splits)

lemma find_map_append: "find_map f (xs @ ys) = (case find_map f xs of None \<Rightarrow> find_map f ys | Some y \<Rightarrow> Some y)"
  by (induction xs) (auto split: option.splits)

lemma find_in_aliases_first:
  assumes "name_sound D" "svc_suffix D st = Some domain"
  shows "find_in_aliases D st s client aliases = Some (find_map (match_at D st domain s client) (dns_candidates D aliases))"
proof (induction aliases)
  case (Cons al als)
  obtain ns where ns: "get_wildcards D (al_name al) = Some ns" using get_wildcards_returns [OF assms(1)] by blast
  with Cons show ?case
    by (simp add: find_in_names_first [OF assms(2)] dns_candidates_def find_map_append split: option.split)
qed (simp add: dns_candidates_def)

lemma find_map_find:
  "find_map f xs = (case find (\<lambda>x. f x \<noteq> None) xs of None \<Rightarrow> None | Some x \<Rightarrow> f x)"
  by (induction xs) (auto split: option.splits)

lemma best_match_in: "find_best_match services ns preferred = Some s \<Longrightarrow> s \<in> set services"
  by (auto simp: find_best_match_eq best_match_spec_def split: option.splits list.splits dest: find_Some_in)

lemma usable_service_host:
  assumes "ss_inv (px_services s)" "usable_service st domain s client host = Some service"
  shows "sv_hostname service = host"
proof (cases "get_by_host (px_services s) host")
  case None
  then show ?thesis using best_match_in [OF assms(2) [unfolded usable_service_def]] by simp
next
  case (Some services)
  then have "service \<in> set services" using best_match_in [OF assms(2) [unfolded usable_service_def]] by simp
  then show ?thesis using ss_inv_host [OF assms(1)] Some by (simp add: get_by_host_def host_ok_def list_all_iff)
qed

subsection \<open>The answer\<close>

lemma ip_records_append: "ip_records n addrs out = out @ ip_records n addrs []"
proof (induction addrs arbitrary: out)
  case (Cons a addrs)
  show ?case
  proof (cases a)
    case (V4 x)
    then show ?thesis using Cons [of "out @ [to_record n (RdA x)]"] Cons [of "[to_record n (RdA x)]"] by simp
  next
    case (V6 x)
    then show ?thesis using Cons [of "out @ [to_record n (RdAAAA x)]"] Cons [of "[to_record n (RdAAAA x)]"] by simp
  qed
qed simp

lemma ip_records_map: "ip_records n addrs out = out @ map (ip_record n) addrs"
proof (induction addrs arbitrary: out)
  case (Cons a addrs)
  then show ?case by (cases a) (simp_all add: ip_record_def)
qed simp

lemma rdata_ip_record [simp]: "rdata_address (rr_data (ip_record n a)) = Some a"
  by (cases a) (simp_all add: ip_record_def to_record_def)

lemma shuffle_set: "shuffle_sound shuffle \<Longrightarrow> set (shuffle xs) = set xs"
  unfolding shuffle_sound_def by (metis set_mset_mset)

lemma usable_address: "is_record_type a t \<and> record_type_enabled st a \<longleftrightarrow> answerable st t a"
  by (cases a) (auto simp: answerable_def record_type_enabled_def is_ipv6_def)

lemma set_get_addresses:
  assumes "shuffle_sound shuffle" "service_family_allowed (AddressService service) t (st_ipv6_enabled st)"
  shows "set (get_addresses shuffle st s client (AddressService service) t) = dns_addresses st s client service t"
proof -
  have family: "(sv_ip_families service = Some IPv4 \<longrightarrow> is_ipv4 a) \<and> (sv_ip_families service = Some IPv6 \<longrightarrow> is_ipv6 a)"
    if "answerable st t a" for a
    using that assms(2) by (cases a) (auto simp: answerable_def service_family_allowed_def is_ipv6_def split: if_splits)
  have found: "answerable st t a" if "find (answerable st t) ips = Some a" for a ips
    using find_Some_in [OF that] by simp
  have usable: "(\<lambda>a. is_record_type a t \<and> record_type_enabled st a) = answerable st t"
    using usable_address by blast
  have vip: "(is_record_type a t \<and> b \<and> record_type_enabled st a) = (answerable st t a \<and> b)" for a b
    using usable_address by blast
  show ?thesis
  proof (cases "sv_vips service = []")
    case True
    then show ?thesis
      using family found
      by (auto simp: get_addresses_def dns_addresses_def shuffle_set [OF assms(1)] set_map_filter usable
          split: option.splits) blast+
  next
    case False
    then show ?thesis
      using family
      by (auto simp: get_addresses_def dns_addresses_def shuffle_set [OF assms(1)] set_map_filter vip Let_def
          split: if_splits)
  qed
qed

lemma dns_addresses_refused:
  assumes "\<not> service_family_allowed (AddressService service) t (st_ipv6_enabled st)"
  shows "dns_addresses st s client service t = {}"
proof -
  have False if "a \<in> dns_addresses st s client service t" for a
    using that assms by (cases a) (auto simp: dns_addresses_def answerable_def service_family_allowed_def is_ipv6_def
        split: if_splits option.splits IpFamily.splits)
  then show ?thesis by blast
qed

lemma answer_match_exact:
  fixes D :: "'n name_ops" and st s client query al n service
  assumes "name_sound D" "shuffle_sound shuffle"
  defines "a \<equiv> answer_match D shuffle st s client query (server_match D al n service)"
    and "owner \<equiv> answer_name D al n (q_name query)"
  shows "ans_is_authoritative a" and "set (record_addresses a) = dns_addresses st s client service (q_type query)"
    and "r \<in> set (ans_records a) \<Longrightarrow>
      r = cname_record (q_name query) owner \<and> al_stripped al = Some owner \<or>
      rr_name r = owner \<and> rr_ttl r = 30 \<and> rdata_address (rr_data r) \<noteq> None"
proof -
  let ?as = "get_addresses shuffle st s client (AddressService service) (q_type query)"
  let ?ok = "service_family_allowed (AddressService service) (q_type query) (st_ipv6_enabled st)"
  let ?pre = "if owner = q_name query \<and> (al_stripped al = None \<or> starts_wild (nm_iter D n)) then [] else [cname_record (q_name query) owner]"
  have wild: "nm_is_wildcard D (nm_set_fqdn D True (nm_set_fqdn D False n)) = starts_wild (nm_iter D n)"
    using assms(1) by (simp add: name_sound_def)
  have records: "ans_records a = (if \<not> ?ok \<or> ?as = [] then [] else
      (if al_stripped al = None \<or> starts_wild (nm_iter D n) then [] else [cname_record (q_name query) owner]) @ map (ip_record owner) ?as)"
    by (auto simp: a_def owner_def answer_match_def server_match_def answer_name_def Answer_new_def ip_records_map wild
        Let_def split: option.splits)
  show "ans_is_authoritative a"
    by (auto simp: a_def answer_match_def Answer_new_def Let_def split: prod.splits)
  have "record_addresses a = (if ?ok then ?as else [])"
    by (auto simp: record_addresses_def records List.map_filter_def cname_record_def to_record_def comp_def)
  then show "set (record_addresses a) = dns_addresses st s client service (q_type query)"
    by (cases ?ok) (simp_all add: set_get_addresses [OF assms(2)] dns_addresses_refused)
  have ttl: "rr_ttl (ip_record owner x) = 30" for x by (simp add: ip_record_def to_record_def DEFAULT_TTL_SECONDS_def)
  have named: "rr_name (ip_record owner x) = owner" for x by (simp add: ip_record_def to_record_def)
  have stripped: "al_stripped al = Some owner" if "al_stripped al \<noteq> None" "\<not> starts_wild (nm_iter D n)"
    using that by (auto simp: owner_def answer_name_def)
  show "r = cname_record (q_name query) owner \<and> al_stripped al = Some owner \<or>
      rr_name r = owner \<and> rr_ttl r = 30 \<and> rdata_address (rr_data r) \<noteq> None" if "r \<in> set (ans_records a)"
    using that ttl named stripped unfolding records by (auto split: if_splits)
qed

lemma example_names_sound: "name_sound example_names"
  by (simp add: name_sound_def example_names_def)

section \<open>Properties\<close>

text \<open>
  C36. A query for addresses is settled by the first name of the search, exact hosts before wildcards and
  the requested name before its expansions, for which a service can answer. That service is the one
  registered under the name; its answer is authoritative and carries exactly the addresses the client
  may be given, owned by the requested name or, behind a CNAME record, by the name without its search
  domain. When no name has such a service the query goes to the upstream resolver and is counted as
  forwarded. The lookup always returns.
\<close>

theorem dns_answer_exact:
  fixes upstream s_addr m
  assumes "name_sound D" "shuffle_sound shuffle" "ss_inv (px_services s_find)" "svc_suffix D st = Some domain"
    and "rq_info request = Inr query" "is_record_type_supported (q_type query)"
    and "get_aliases D st client (q_name query) = Some als"
  defines "usable \<equiv> \<lambda>n. usable_service st domain s_find client (search_host D n)"
    and "r \<equiv> store_lookup D upstream shuffle st s_find s_addr (Some client) request m"
  shows "case find (\<lambda>(al, n). usable n \<noteq> None) (dns_candidates D als) of
      None \<Rightarrow> r = Some (store_forward upstream request m)
    | Some (al, n) \<Rightarrow> \<exists>service a.
        usable n = Some service \<and> sv_hostname service = search_host D n \<and>
        r = Some (m\<lparr>dm_requests := Suc (dm_requests m)\<rparr>, Inr a) \<and> ans_is_authoritative a \<and>
        set (record_addresses a) = dns_addresses st s_addr client service (q_type query) \<and>
        (\<forall>rec \<in> set (ans_records a).
           rec = cname_record (q_name query) (answer_name D al n (q_name query)) \<and>
             al_stripped al = Some (answer_name D al n (q_name query)) \<or>
           rr_name rec = answer_name D al n (q_name query) \<and> rr_ttl rec = 30 \<and> rdata_address (rr_data rec) \<noteq> None)"
proof -
  have search: "find_server D st s_find client (q_name query) =
      Some (case find (\<lambda>(al, n). usable n \<noteq> None) (dns_candidates D als) of
              None \<Rightarrow> None | Some c \<Rightarrow> match_at D st domain s_find client c)"
    by (simp add: find_server_def assms(7) find_in_aliases_first [OF assms(1,4)] find_map_find match_at_def
        usable_def case_prod_unfold)
  show ?thesis
  proof (cases "find (\<lambda>(al, n). usable n \<noteq> None) (dns_candidates D als)")
    case None
    then show ?thesis using search assms(5,6) by (simp add: r_def store_lookup_def)
  next
    case (Some c)
    obtain al n where c: "c = (al, n)" by (cases c)
    with Some obtain service where service: "usable n = Some service" using find_Some_in by fastforce
    let ?a = "answer_match D shuffle st s_addr client query (server_match D al n service)"
    have "r = Some (m\<lparr>dm_requests := Suc (dm_requests m)\<rparr>, Inr ?a)"
      using search Some c service assms(5,6) by (simp add: r_def store_lookup_def match_at_def usable_def)
    moreover have "sv_hostname service = search_host D n"
      using usable_service_host [OF assms(3)] service by (simp add: usable_def)
    ultimately show ?thesis
      using Some c service answer_match_exact [OF assms(1,2)] by (auto intro!: exI [of _ service] exI [of _ ?a])
  qed
qed

theorem dns_answer_exact_witness:
  "store_lookup example_names (\<lambda>_ _. Inl LeIo) id example_dns example_state example_state (Some example_workload)
     example_dns_request \<lparr>dm_requests = 0, dm_forwarded_requests = 0, dm_forwarded_failures = 0\<rparr> =
   Some (\<lparr>dm_requests = 1, dm_forwarded_requests = 0, dm_forwarded_failures = 0\<rparr>,
     Inr (Answer_new [to_record (q_name example_query) (RdA 0x0A600001)] True)) \<and>
   dns_addresses example_dns example_state example_workload (the (usable_service example_dns ''.svc.cluster.local'' example_state
     example_workload ''web.prod.svc'')) RtA = {V4 0x0A600001}"
proof -
  let ?m = "\<lparr>dm_requests = 0, dm_forwarded_requests = 0, dm_forwarded_failures = 0\<rparr>"
  let ?als = "the (get_aliases example_names example_dns example_workload (q_name example_query))"
  let ?usable = "\<lambda>n. usable_service example_dns ''.svc.cluster.local'' example_state example_workload (search_host example_names n)"
  let ?a = "Answer_new [to_record (q_name example_query) (RdA 0x0A600001)] True"
  have eval: "store_lookup example_names (\<lambda>_ _. Inl LeIo) id example_dns example_state example_state (Some example_workload)
      example_dns_request ?m = Some (?m\<lparr>dm_requests := 1\<rparr>, Inr ?a)" by code_simp
  have domain: "svc_suffix example_names example_dns = Some ''.svc.cluster.local''" by code_simp
  have query: "rq_info example_dns_request = Inr example_query" "is_record_type_supported (q_type example_query)"
    by (simp_all add: example_dns_request_def example_query_def is_record_type_supported_def)
  have als: "get_aliases example_names example_dns example_workload (q_name example_query) = Some ?als" by code_simp
  have first: "find (\<lambda>(al, n). ?usable n \<noteq> None) (dns_candidates example_names ?als) =
     Some (\<lparr>al_name = q_name example_query, al_stripped = None\<rparr>, q_name example_query)" by code_simp
  have host: "search_host example_names (q_name example_query) = ''web.prod.svc''" by code_simp
  have inv: "ss_inv (px_services example_state)"
    by (simp add: example_state_def ss_inv_insert ss_inv_insert_endpoint ss_inv_default)
  have "shuffle_sound id" by (simp add: shuffle_sound_def)
  from dns_answer_exact [OF example_names_sound this inv domain query als, of "\<lambda>_ _. Inl LeIo" example_state ?m]
  obtain service a where service: "?usable (q_name example_query) = Some service"
    and a: "store_lookup example_names (\<lambda>_ _. Inl LeIo) id example_dns example_state example_state
      (Some example_workload) example_dns_request ?m = Some (?m\<lparr>dm_requests := Suc (dm_requests ?m)\<rparr>, Inr a)"
    and addresses: "set (record_addresses a) = dns_addresses example_dns example_state example_workload service (q_type example_query)"
    unfolding first option.case prod.case by (elim exE conjE) (rule that)
  have "a = ?a" using a unfolding eval by simp
  moreover have "usable_service example_dns ''.svc.cluster.local'' example_state example_workload ''web.prod.svc'' = Some service"
    using service unfolding host .
  ultimately show ?thesis
    using addresses eval
    by (simp add: record_addresses_def Answer_new_def to_record_def List.map_filter_def example_query_def)
qed

end
