(* ===== verification/FwControl.thy ===== *)
theory FwControl
  imports Nft Ipt ProxyState "HOL-Library.Multiset"
begin

text \<open>
  The firewall controllers: detection of a backend (\<^verbatim>\<open>src/firewall/detect.rs\<close>), its construction
  (\<^verbatim>\<open>src/firewall/backend.rs\<close>), the resolution of a workload's rules (\<^verbatim>\<open>src/firewall/convert.rs\<close>), the
  controller of all pods of a node (\<^verbatim>\<open>src/firewall/inpod.rs\<close>), the controller of a dedicated proxy
  (\<^verbatim>\<open>src/firewall/dedicated.rs\<close>) and the debouncing of policy changes (\<^verbatim>\<open>src/time.rs\<close>).

  What a command prints and whether it succeeds is a parameter. The rules the kernel holds are kept per
  network namespace. An \<open>apply\<close> has three outcomes: the rules are replaced, they are not and the command
  fails, or they are replaced although the command is reported as failed, which the time limit on the
  child process makes possible. The hash of the policies is a parameter.
\<close>

section \<open>Detection\<close>

record IptablesVariant =
  iv_binary :: string
  iv_restore_binary :: string
  iv_existing_rules :: bool

datatype FirewallBackend = Nftables | Iptables string string

datatype FirewallBackendMode = FbmAuto | FbmIptables

record cmd_output =
  co_success :: bool
  co_stdout :: string

text \<open>A command line is run to its output, or cannot be started.\<close>

type_synonym runner = "string list \<Rightarrow> cmd_output option"

definition probe_iptables :: "runner \<Rightarrow> string \<Rightarrow> IptablesVariant option" where
  "probe_iptables run bin =
     (case run [bin @ ''-save''] of
        None \<Rightarrow> None
      | Some save \<Rightarrow>
          if \<not> co_success save then None
          else case run [bin, ''-t'', ''filter'', ''-L'', ''-n''] of
                 None \<Rightarrow> None
               | Some listed \<Rightarrow>
                   if \<not> co_success listed then None
                   else Some \<lparr>iv_binary = bin, iv_restore_binary = bin @ ''-restore'',
                              iv_existing_rules = contains_str ''ISTIO_FW_FILTER_IN'' (co_stdout save) \<or>
                                contains_str ''ISTIO_FW_FILTER_OUT'' (co_stdout save)\<rparr>)"

definition probe_nft :: "runner \<Rightarrow> bool" where
  "probe_nft run = (case run [''nft'', ''list'', ''tables''] of None \<Rightarrow> False | Some listed \<Rightarrow> co_success listed)"

definition choose_iptables_variant ::
  "IptablesVariant option \<Rightarrow> IptablesVariant option \<Rightarrow> IptablesVariant option \<Rightarrow> IptablesVariant option"
where
  "choose_iptables_variant legacy nft plain =
     (if (case legacy of Some v \<Rightarrow> iv_existing_rules v | None \<Rightarrow> False) then legacy
      else case nft of
             Some v \<Rightarrow> Some v
           | None \<Rightarrow> (case plain of Some v \<Rightarrow> Some v | None \<Rightarrow> legacy))"

definition detect_iptables :: "runner \<Rightarrow> IptablesVariant option" where
  "detect_iptables run =
     choose_iptables_variant (probe_iptables run ''iptables-legacy'') (probe_iptables run ''iptables-nft'')
       (probe_iptables run ''iptables'')"

definition detect_backend :: "runner \<Rightarrow> FirewallBackendMode \<Rightarrow> bool \<Rightarrow> FirewallBackend option" where
  "detect_backend run mode dedicated_mode =
     (let ipt = detect_iptables run;
          nft_ok = (mode = FbmAuto \<and> probe_nft run)
      in if dedicated_mode \<and> (case ipt of Some v \<Rightarrow> iv_existing_rules v | None \<Rightarrow> False)
         then map_option (\<lambda>v. Iptables (iv_binary v) (iv_restore_binary v)) ipt
         else if nft_ok then Some Nftables
         else map_option (\<lambda>v. Iptables (iv_binary v) (iv_restore_binary v)) ipt)"

section \<open>Backends\<close>

record BackendBuilder =
  bb_detected :: FirewallBackend
  bb_netns_path :: "string option"
  bb_proxy_mark :: "u32 option"
  bb_dns_proxy :: bool
  bb_workload_info :: "WorkloadInfo option"

definition BackendBuilder_new :: "FirewallBackend \<Rightarrow> BackendBuilder" where
  "BackendBuilder_new detected =
     \<lparr>bb_detected = detected, bb_netns_path = None, bb_proxy_mark = None, bb_dns_proxy = False, bb_workload_info = None\<rparr>"

datatype Backend = BackendNft NftBackend | BackendIpt IptBackend

definition on_some :: "('a \<Rightarrow> 'b \<Rightarrow> 'b) \<Rightarrow> 'a option \<Rightarrow> 'b \<Rightarrow> 'b" where
  "on_some f x b = (case x of None \<Rightarrow> b | Some a \<Rightarrow> f a b)"

definition builder_build :: "BackendBuilder \<Rightarrow> Backend" where
  "builder_build bb =
     (case bb_detected bb of
        Nftables \<Rightarrow>
          BackendNft
            (on_some (\<lambda>info. nft_with_workload_info (wi_name info) (wi_namespace info)) (bb_workload_info bb)
              (on_some nft_skip_mark (bb_proxy_mark bb) (on_some nft_in_netns (bb_netns_path bb) nft_new)))
      | Iptables iptables_bin restore_bin \<Rightarrow>
          BackendIpt
            (on_some (\<lambda>info. ipt_with_workload_info (wi_name info) (wi_namespace info)) (bb_workload_info bb)
              (ipt_dns_proxy (bb_dns_proxy bb)
                (on_some ipt_skip_mark (bb_proxy_mark bb)
                  (on_some ipt_in_netns (bb_netns_path bb) (ipt_with_binaries iptables_bin restore_bin ipt_new))))))"

definition make_nsenter_cmd :: "string option \<Rightarrow> string \<Rightarrow> string list" where
  "make_nsenter_cmd netns_path program =
     (case netns_path of
        Some path \<Rightarrow> [''/usr/bin/nsenter'', ''--net='' @ path, ''--'', program]
      | None \<Rightarrow> [program])"

text \<open>The commands that create the chains and jumps of iptables; any other failure ends the set-up.\<close>

definition init_chain :: "(string list \<Rightarrow> (bool \<times> string) option) \<Rightarrow> IptBackend \<Rightarrow> string \<times> string \<Rightarrow> bool" where
  "init_chain run b c =
     (let cmd = make_nsenter_cmd (ib_netns_path b) (ib_iptables_bin b) @ [''-t'', ''filter'']
      in case run (cmd @ [''-N'', fst c]) of
           None \<Rightarrow> False
         | Some (created, stderr) \<Rightarrow>
             if \<not> created \<and> \<not> contains_str ''Chain already exists'' stderr then False
             else case run (cmd @ [''-C'', snd c, ''-j'', fst c]) of
                    None \<Rightarrow> False
                  | Some (present, _) \<Rightarrow>
                      present \<or>
                      (case run (cmd @ [''-I'', snd c, ''1'', ''-j'', fst c]) of
                         None \<Rightarrow> False
                       | Some (inserted, _) \<Rightarrow> inserted))"

definition ipt_do_init :: "(string list \<Rightarrow> (bool \<times> string) option) \<Rightarrow> IptBackend \<Rightarrow> bool" where
  "ipt_do_init run b = list_all (init_chain run b) [(''ISTIO_FW_FILTER_IN'', ''INPUT''), (''ISTIO_FW_FILTER_OUT'', ''OUTPUT'')]"

text \<open>What the kernel holds for a namespace, and what \<open>apply\<close> asks it to hold.\<close>

datatype Installed = InstalledNft NftScript | InstalledIpt "ipt_cmd list"

fun backend_compile :: "Backend \<Rightarrow> FwRuleSet \<Rightarrow> Installed" where
  "backend_compile (BackendNft b) ruleset = InstalledNft (nft_compile b ruleset)"
| "backend_compile (BackendIpt b) ruleset = InstalledIpt (ipt_compile b ruleset)"

datatype apply_outcome = Replaced | Refused | ReplacedUnreported

section \<open>Resolution of a workload's rules\<close>

type_synonym fw_key = "strng \<times> policies \<times> (strng \<times> TrafficPolicy option) option"

text \<open>What is fed to the hasher.\<close>

definition policy_key :: "ProxyState \<Rightarrow> Workload \<Rightarrow> fw_key" where
  "policy_key s workload =
     (wl_uid workload, traffic_policies workload (px_policies s),
      map_option (\<lambda>sb. (sb_uid sb, sb_traffic_policy sb)) (fetch_sandbox s workload))"

definition resolve_workload_firewall ::
  "(fw_key \<Rightarrow> u64) \<Rightarrow> ProxyState \<Rightarrow> WorkloadInfo \<Rightarrow> u64 option \<Rightarrow> (FwRuleSet \<times> u64) option"
where
  "resolve_workload_firewall H s info applied_hash =
     (case ws_find_by_info (px_workloads s) info of
        None \<Rightarrow> None
      | Some workload \<Rightarrow>
          let hash = H (policy_key s workload) in
          if applied_hash = Some hash then None
          else Some (workload_ruleset (traffic_policies workload (px_policies s))
                       (Option.bind (fetch_sandbox s workload) sb_traffic_policy), hash))"

section \<open>The controller of all pods\<close>

definition MAX_INIT_RETRIES :: u8 where
  "MAX_INIT_RETRIES = 5"

record Netns =
  ns_inode :: nat
  ns_dev :: nat
  ns_fd :: nat

definition netns_id :: "Netns \<Rightarrow> nat \<times> nat" where
  "netns_id n = (ns_inode n, ns_dev n)"

datatype PodState = Enrolled | PendingWorkload | InitFailed u8

record PodFirewallState =
  pf_netns :: Netns
  pf_workload_info :: WorkloadInfo
  pf_last_policy_hash :: u64
  pf_state :: PodState

type_synonym fw_pods = "(strng, PodFirewallState) hashmap"
type_synonym fw_kernel = "(nat \<times> nat, Installed) hashmap"

record FwController =
  fc_backend_kind :: FirewallBackend
  fc_proxy_mark :: u32
  fc_dns_proxy :: bool
  fc_pid :: nat
  fc_pods :: fw_pods

text \<open>One call of a handler: for each pod, whether \<open>init\<close> succeeds, what \<open>apply\<close> does and whether \<open>cleanup\<close> flushes the rules, and the order in which concurrent applies complete.\<close>

type_synonym fw_item = "strng \<times> Netns \<times> WorkloadInfo \<times> FwRuleSet \<times> u64"

record fw_env =
  fe_init :: "strng \<Rightarrow> bool"
  fe_apply :: "strng \<Rightarrow> apply_outcome"
  fe_cleanup :: "strng \<Rightarrow> bool"
  fe_order :: "fw_item list \<Rightarrow> fw_item list"

datatype FirewallEvent = AddPod strng WorkloadInfo Netns | RemovePod strng

definition make_backend_for_netns :: "FwController \<Rightarrow> Netns \<Rightarrow> WorkloadInfo \<Rightarrow> Backend" where
  "make_backend_for_netns c netns info =
     builder_build
       ((BackendBuilder_new (fc_backend_kind c))
         \<lparr>bb_netns_path := Some (''/proc/'' @ show_nat (fc_pid c) @ ''/fd/'' @ show_nat (ns_fd netns)),
          bb_proxy_mark := Some (fc_proxy_mark c), bb_dns_proxy := fc_dns_proxy c, bb_workload_info := Some info\<rparr>)"

definition backend_apply :: "apply_outcome \<Rightarrow> Netns \<Rightarrow> Installed \<Rightarrow> fw_kernel \<Rightarrow> fw_kernel \<times> bool" where
  "backend_apply outcome netns rules kern =
     (case outcome of
        Replaced \<Rightarrow> (hm_insert (netns_id netns) rules kern, True)
      | Refused \<Rightarrow> (kern, False)
      | ReplacedUnreported \<Rightarrow> (hm_insert (netns_id netns) rules kern, False))"

definition try_init_and_apply ::
  "(fw_key \<Rightarrow> u64) \<Rightarrow> ProxyState \<Rightarrow> fw_env \<Rightarrow> FwController \<Rightarrow> strng \<Rightarrow> WorkloadInfo \<Rightarrow> Netns \<Rightarrow> fw_kernel \<Rightarrow>
   PodState \<times> u64 \<times> fw_kernel"
where
  "try_init_and_apply H s env c uid info netns kern =
     (if \<not> fe_init env uid then (InitFailed 0, 0, kern)
      else case resolve_workload_firewall H s info None of
             None \<Rightarrow> (PendingWorkload, 0, kern)
           | Some (ruleset, policy_hash) \<Rightarrow>
               (case backend_apply (fe_apply env uid) netns (backend_compile (make_backend_for_netns c netns info) ruleset) kern of
                  (kern', True) \<Rightarrow> (Enrolled, policy_hash, kern')
                | (kern', False) \<Rightarrow> (InitFailed 0, 0, kern')))"

definition handle_remove_pod :: "fw_env \<Rightarrow> strng \<Rightarrow> FwController \<times> fw_kernel \<Rightarrow> FwController \<times> fw_kernel" where
  "handle_remove_pod env uid w =
     (case hm_get (fc_pods (fst w)) uid of
        None \<Rightarrow> w
      | Some pod_state \<Rightarrow>
          ((fst w)\<lparr>fc_pods := hm_remove uid (fc_pods (fst w))\<rparr>,
           if fe_cleanup env uid then hm_remove (netns_id (pf_netns pod_state)) (snd w) else snd w))"

definition handle_add_pod ::
  "(fw_key \<Rightarrow> u64) \<Rightarrow> ProxyState \<Rightarrow> fw_env \<Rightarrow> strng \<Rightarrow> WorkloadInfo \<Rightarrow> Netns \<Rightarrow> FwController \<times> fw_kernel \<Rightarrow>
   FwController \<times> fw_kernel"
where
  "handle_add_pod H s env uid info netns w =
     (let register = (\<lambda>(c, kern).
            let (st, hash, kern') = try_init_and_apply H s env c uid info netns kern in
            (c\<lparr>fc_pods := hm_insert uid \<lparr>pf_netns = netns, pf_workload_info = info, pf_last_policy_hash = hash,
                                         pf_state = st\<rparr> (fc_pods c)\<rparr>, kern'))
      in case hm_get (fc_pods (fst w)) uid of
           Some existing \<Rightarrow>
             if netns_id (pf_netns existing) = netns_id netns then w
             else register (handle_remove_pod env uid w)
         | None \<Rightarrow> register w)"

fun handle_pod_event ::
  "(fw_key \<Rightarrow> u64) \<Rightarrow> ProxyState \<Rightarrow> fw_env \<Rightarrow> FirewallEvent \<Rightarrow> FwController \<times> fw_kernel \<Rightarrow> FwController \<times> fw_kernel"
where
  "handle_pod_event H s env (AddPod uid info netns) w = handle_add_pod H s env uid info netns w"
| "handle_pod_event H s env (RemovePod uid) w = handle_remove_pod env uid w"

text \<open>The numbers of enrolled, pending and failed pods that are reported.\<close>

definition sync_pod_metrics :: "fw_pods \<Rightarrow> nat \<times> nat \<times> nat" where
  "sync_pod_metrics pods =
     (length (filter (\<lambda>p. pf_state p = Enrolled) (hm_values pods)),
      length (filter (\<lambda>p. pf_state p = PendingWorkload) (hm_values pods)),
      length (filter (\<lambda>p. pf_state p \<noteq> Enrolled \<and> pf_state p \<noteq> PendingWorkload) (hm_values pods)))"

fun is_init_failed :: "PodState \<Rightarrow> bool" where
  "is_init_failed (InitFailed _) = True"
| "is_init_failed _ = False"

definition rebuild_item ::
  "(fw_key \<Rightarrow> u64) \<Rightarrow> ProxyState \<Rightarrow> strng \<times> PodFirewallState \<Rightarrow> fw_item option"
where
  "rebuild_item H s e =
     (case e of (uid, pod_state) \<Rightarrow>
        if is_init_failed (pf_state pod_state) then None
        else case resolve_workload_firewall H s (pf_workload_info pod_state) (Some (pf_last_policy_hash pod_state)) of
               None \<Rightarrow> None
             | Some (ruleset, policy_hash) \<Rightarrow>
                 Some (uid, pf_netns pod_state, pf_workload_info pod_state, ruleset, policy_hash))"

fun run_applies :: "FwController \<Rightarrow> fw_env \<Rightarrow> fw_item list \<Rightarrow> fw_kernel \<Rightarrow> fw_kernel \<times> (strng \<times> u64 \<times> bool) list" where
  "run_applies c env [] kern = (kern, [])"
| "run_applies c env ((uid, netns, info, ruleset, policy_hash) # items) kern =
     (let (kern1, ok) = backend_apply (fe_apply env uid) netns
            (backend_compile (make_backend_for_netns c netns info) ruleset) kern;
          (kern2, results) = run_applies c env items kern1
      in (kern2, (uid, policy_hash, ok) # results))"

definition note_result :: "strng \<times> u64 \<times> bool \<Rightarrow> fw_pods \<Rightarrow> fw_pods" where
  "note_result r pods =
     (case r of (uid, policy_hash, ok) \<Rightarrow>
        if ok then
          (case hm_get pods uid of
             None \<Rightarrow> pods
           | Some ps \<Rightarrow> hm_insert uid (ps\<lparr>pf_last_policy_hash := policy_hash, pf_state := Enrolled\<rparr>) pods)
        else pods)"

definition rebuild_all_pods ::
  "(fw_key \<Rightarrow> u64) \<Rightarrow> ProxyState \<Rightarrow> fw_env \<Rightarrow> FwController \<times> fw_kernel \<Rightarrow> FwController \<times> fw_kernel"
where
  "rebuild_all_pods H s env w =
     (let to_apply = List.map_filter (rebuild_item H s) (fc_pods (fst w));
          (kern', results) = run_applies (fst w) env (fe_order env to_apply) (snd w)
      in ((fst w)\<lparr>fc_pods := fold note_result results (fc_pods (fst w))\<rparr>, kern'))"

definition debounce_and_rebuild ::
  "(fw_key \<Rightarrow> u64) \<Rightarrow> (FirewallEvent \<times> ProxyState \<times> fw_env) list \<Rightarrow> ProxyState \<Rightarrow> fw_env \<Rightarrow> FwController \<times> fw_kernel \<Rightarrow>
   FwController \<times> fw_kernel"
where
  "debounce_and_rebuild H events s env w =
     rebuild_all_pods H s env (fold (\<lambda>(event, s', env'). handle_pod_event H s' env' event) events w)"

definition pending_item ::
  "(fw_key \<Rightarrow> u64) \<Rightarrow> ProxyState \<Rightarrow> strng \<times> PodFirewallState \<Rightarrow> fw_item option"
where
  "pending_item H s e =
     (case e of (uid, pod_state) \<Rightarrow>
        if pf_state pod_state \<noteq> PendingWorkload then None
        else case resolve_workload_firewall H s (pf_workload_info pod_state) None of
               None \<Rightarrow> None
             | Some (ruleset, policy_hash) \<Rightarrow>
                 Some (uid, pf_netns pod_state, pf_workload_info pod_state, ruleset, policy_hash))"

fun process_pending :: "fw_env \<Rightarrow> fw_item list \<Rightarrow> FwController \<times> fw_kernel \<Rightarrow> FwController \<times> fw_kernel" where
  "process_pending env [] w = w"
| "process_pending env ((uid, netns, info, ruleset, policy_hash) # items) w =
     (let (kern', ok) = backend_apply (fe_apply env uid) netns
            (backend_compile (make_backend_for_netns (fst w) netns info) ruleset) (snd w)
      in process_pending env items
           ((fst w)\<lparr>fc_pods := note_result (uid, policy_hash, ok) (fc_pods (fst w))\<rparr>, kern'))"

definition rebuild_pending_workload_pods ::
  "(fw_key \<Rightarrow> u64) \<Rightarrow> ProxyState \<Rightarrow> fw_env \<Rightarrow> FwController \<times> fw_kernel \<Rightarrow> FwController \<times> fw_kernel"
where
  "rebuild_pending_workload_pods H s env w =
     process_pending env (List.map_filter (pending_item H s) (fc_pods (fst w))) w"

fun retryable :: "PodState \<Rightarrow> bool" where
  "retryable (InitFailed retries) = (retries < MAX_INIT_RETRIES)"
| "retryable _ = False"

definition has_retryable_pods :: "fw_pods \<Rightarrow> bool" where
  "has_retryable_pods pods = list_ex (\<lambda>p. retryable (pf_state p)) (hm_values pods)"

text \<open>\<open>retries + 1\<close> is checked arithmetic on \<open>u8\<close>; a retried pod has fewer than five retries.\<close>

definition retry_pod ::
  "(fw_key \<Rightarrow> u64) \<Rightarrow> ProxyState \<Rightarrow> fw_env \<Rightarrow> strng \<Rightarrow> FwController \<times> fw_kernel \<Rightarrow> FwController \<times> fw_kernel"
where
  "retry_pod H s env uid w =
     (case hm_get (fc_pods (fst w)) uid of
        None \<Rightarrow> w
      | Some pod_state \<Rightarrow>
          (case pf_state pod_state of
             InitFailed retries \<Rightarrow>
               (case try_init_and_apply H s env (fst w) uid (pf_workload_info pod_state) (pf_netns pod_state) (snd w) of
                  (InitFailed _, _, kern') \<Rightarrow>
                    ((fst w)\<lparr>fc_pods := hm_insert uid (pod_state\<lparr>pf_state := InitFailed (retries + 1)\<rparr>) (fc_pods (fst w))\<rparr>, kern')
                | (new_state, policy_hash, kern') \<Rightarrow>
                    ((fst w)\<lparr>fc_pods := hm_insert uid (pod_state\<lparr>pf_state := new_state, pf_last_policy_hash := policy_hash\<rparr>)
                       (fc_pods (fst w))\<rparr>, kern'))
           | _ \<Rightarrow> w))"

definition retry_init_failed_pods ::
  "(fw_key \<Rightarrow> u64) \<Rightarrow> ProxyState \<Rightarrow> fw_env \<Rightarrow> FwController \<times> fw_kernel \<Rightarrow> FwController \<times> fw_kernel"
where
  "retry_init_failed_pods H s env w =
     fold (retry_pod H s env) (map fst (filter (\<lambda>(_, p). retryable (pf_state p)) (fc_pods (fst w)))) w"

datatype fw_event = PodEvent FirewallEvent | PoliciesChanged | WorkloadsChanged | RetryTick

text \<open>One turn of the loop in \<open>run\<close>. Pod events that arrive while policy changes are debounced are turns of their own before the rebuild.\<close>

fun fw_turn ::
  "(fw_key \<Rightarrow> u64) \<Rightarrow> ProxyState \<Rightarrow> fw_env \<Rightarrow> fw_event \<Rightarrow> FwController \<times> fw_kernel \<Rightarrow> FwController \<times> fw_kernel"
where
  "fw_turn H s env (PodEvent event) w = handle_pod_event H s env event w"
| "fw_turn H s env PoliciesChanged w = rebuild_all_pods H s env w"
| "fw_turn H s env WorkloadsChanged w = rebuild_pending_workload_pods H s env w"
| "fw_turn H s env RetryTick w = (if has_retryable_pods (fc_pods (fst w)) then retry_init_failed_pods H s env w else w)"

section \<open>The dedicated controller and debouncing\<close>

text \<open>Times are natural numbers.\<close>

record Debouncer =
  db_quiet_deadline :: nat
  db_max_deadline :: nat
  db_debounce_interval :: nat

definition Debouncer_new :: "nat \<Rightarrow> nat \<Rightarrow> nat \<Rightarrow> Debouncer" where
  "Debouncer_new now debounce_interval max_debounce_time =
     \<lparr>db_quiet_deadline = now + debounce_interval, db_max_deadline = now + max_debounce_time,
      db_debounce_interval = debounce_interval\<rparr>"

definition debouncer_extend :: "nat \<Rightarrow> Debouncer \<Rightarrow> Debouncer" where
  "debouncer_extend now d = d\<lparr>db_quiet_deadline := now + db_debounce_interval d\<rparr>"

definition debouncer_deadline :: "Debouncer \<Rightarrow> nat" where
  "debouncer_deadline d = min (db_quiet_deadline d) (db_max_deadline d)"

datatype DebounceResult = Ready | Draining | Closed

datatype debounce_event = PolicyChange nat | DrainBegins nat | NotifierClosed nat

fun event_time :: "debounce_event \<Rightarrow> nat" where
  "event_time (PolicyChange t) = t"
| "event_time (DrainBegins t) = t"
| "event_time (NotifierClosed t) = t"

text \<open>The loop of \<open>wait_for_policy_debounce\<close> on the events that arrive, each with its time: the result and the time of it.\<close>

fun debounce_loop :: "Debouncer \<Rightarrow> debounce_event list \<Rightarrow> DebounceResult \<times> nat" where
  "debounce_loop d [] = (Ready, debouncer_deadline d)"
| "debounce_loop d (e # es) =
     (if debouncer_deadline d \<le> event_time e then (Ready, debouncer_deadline d)
      else case e of
             PolicyChange t \<Rightarrow> debounce_loop (debouncer_extend t d) es
           | DrainBegins t \<Rightarrow> (Draining, t)
           | NotifierClosed t \<Rightarrow> (Closed, t))"

definition wait_for_policy_debounce :: "nat \<Rightarrow> nat \<Rightarrow> nat \<Rightarrow> debounce_event list \<Rightarrow> DebounceResult \<times> nat" where
  "wait_for_policy_debounce now debounce_interval max_debounce_time events =
     debounce_loop (Debouncer_new now debounce_interval max_debounce_time) events"

record Dedicated =
  dd_backend :: Backend
  dd_workload_info :: WorkloadInfo
  dd_last_policy_hash :: "u64 option"
  dd_installed :: "Installed option"
  dd_running :: bool

definition dedicated_new :: "FirewallBackend \<Rightarrow> WorkloadInfo \<Rightarrow> Installed option \<Rightarrow> Dedicated" where
  "dedicated_new detected info installed =
     \<lparr>dd_backend = builder_build ((BackendBuilder_new detected)\<lparr>bb_workload_info := Some info\<rparr>),
      dd_workload_info = info, dd_last_policy_hash = None, dd_installed = installed, dd_running = True\<rparr>"

definition dedicated_apply :: "(fw_key \<Rightarrow> u64) \<Rightarrow> ProxyState \<Rightarrow> apply_outcome \<Rightarrow> Dedicated \<Rightarrow> Dedicated" where
  "dedicated_apply H s outcome d =
     (case resolve_workload_firewall H s (dd_workload_info d) (dd_last_policy_hash d) of
        None \<Rightarrow> d
      | Some (ruleset, policy_hash) \<Rightarrow>
          let rules = Some (backend_compile (dd_backend d) ruleset) in
          (case outcome of
             Replaced \<Rightarrow> d\<lparr>dd_installed := rules, dd_last_policy_hash := Some policy_hash\<rparr>
           | Refused \<Rightarrow> d
           | ReplacedUnreported \<Rightarrow> d\<lparr>dd_installed := rules\<rparr>))"

definition drain_cleanup :: "bool \<Rightarrow> Dedicated \<Rightarrow> Dedicated" where
  "drain_cleanup flushed d = (if flushed then d\<lparr>dd_installed := None\<rparr> else d)"

definition dedicated_start :: "(fw_key \<Rightarrow> u64) \<Rightarrow> ProxyState \<Rightarrow> bool \<Rightarrow> apply_outcome \<Rightarrow> Dedicated \<Rightarrow> Dedicated" where
  "dedicated_start H s init_ok outcome d =
     (if init_ok then dedicated_apply H s outcome d else d\<lparr>dd_running := False\<rparr>)"

text \<open>A policy change, with the result of its debouncing.\<close>

definition dedicated_policies_changed ::
  "(fw_key \<Rightarrow> u64) \<Rightarrow> ProxyState \<Rightarrow> DebounceResult \<Rightarrow> apply_outcome \<Rightarrow> bool \<Rightarrow> Dedicated \<Rightarrow> Dedicated"
where
  "dedicated_policies_changed H s result outcome flushed d =
     (case result of
        Ready \<Rightarrow> dedicated_apply H s outcome d
      | Draining \<Rightarrow> (drain_cleanup flushed d)\<lparr>dd_running := False\<rparr>
      | Closed \<Rightarrow> d\<lparr>dd_running := False\<rparr>)"

section \<open>Specification\<close>

text \<open>
  The rules of a set of policies. \<open>K\<close> is the set of policies the states of a run can show a workload with.
  Pods own their network namespaces; the rules a namespace holds for an enrolled pod are those of
  policies with the remembered hash.
\<close>

definition key_rules :: "fw_key \<Rightarrow> FwRuleSet" where
  "key_rules key = (case key of (_, ps, sandbox) \<Rightarrow> workload_ruleset ps (Option.bind sandbox snd))"

definition keys_within :: "fw_key set \<Rightarrow> ProxyState \<Rightarrow> bool" where
  "keys_within K s \<longleftrightarrow> (\<forall>info wl. ws_find_by_info (px_workloads s) info = Some wl \<longrightarrow> policy_key s wl \<in> K)"

definition exclusive :: "fw_pods \<Rightarrow> bool" where
  "exclusive pods \<longleftrightarrow>
     (\<forall>u v p q. hm_get pods u = Some p \<and> hm_get pods v = Some q \<and> netns_id (pf_netns p) = netns_id (pf_netns q) \<longrightarrow> u = v)"

definition pod_rules :: "FwController \<Rightarrow> PodFirewallState \<Rightarrow> FwRuleSet \<Rightarrow> Installed" where
  "pod_rules c p ruleset = backend_compile (make_backend_for_netns c (pf_netns p) (pf_workload_info p)) ruleset"

definition pod_ok :: "(fw_key \<Rightarrow> u64) \<Rightarrow> fw_key set \<Rightarrow> FwController \<Rightarrow> fw_kernel \<Rightarrow> PodFirewallState \<Rightarrow> bool" where
  "pod_ok H K c kern p \<longleftrightarrow>
     (case pf_state p of
        Enrolled \<Rightarrow> \<exists>key \<in> K. pf_last_policy_hash p = H key \<and>
          hm_get kern (netns_id (pf_netns p)) = Some (pod_rules c p (key_rules key))
      | PendingWorkload \<Rightarrow> pf_last_policy_hash p = 0
      | InitFailed retries \<Rightarrow> retries \<le> MAX_INIT_RETRIES)"

definition fw_inv :: "(fw_key \<Rightarrow> u64) \<Rightarrow> fw_key set \<Rightarrow> FwController \<times> fw_kernel \<Rightarrow> bool" where
  "fw_inv H K w \<longleftrightarrow>
     hm_wf (fc_pods (fst w)) \<and> exclusive (fc_pods (fst w)) \<and>
     (\<forall>uid p. hm_get (fc_pods (fst w)) uid = Some p \<longrightarrow> pod_ok H K (fst w) (snd w) p)"

definition env_ok :: "fw_env \<Rightarrow> bool" where
  "env_ok env \<longleftrightarrow> (\<forall>uid. fe_apply env uid \<noteq> ReplacedUnreported) \<and> (\<forall>items. mset (fe_order env items) = mset items)"

fun event_ok :: "fw_event \<Rightarrow> fw_pods \<Rightarrow> bool" where
  "event_ok (PodEvent (AddPod uid info netns)) pods =
     (\<forall>v p. hm_get pods v = Some p \<and> netns_id (pf_netns p) = netns_id netns \<longrightarrow> v = uid)"
| "event_ok _ _ = True"

definition item_ok :: "(fw_key \<Rightarrow> u64) \<Rightarrow> fw_key set \<Rightarrow> fw_pods \<Rightarrow> fw_item \<Rightarrow> bool" where
  "item_ok H K pods item =
     (case item of (uid, netns, info, rs, hash) \<Rightarrow>
        (\<exists>p. hm_get pods uid = Some p \<and> netns = pf_netns p \<and> info = pf_workload_info p) \<and>
        (\<exists>key \<in> K. rs = key_rules key \<and> hash = H key))"

definition enroll :: "u64 \<Rightarrow> PodFirewallState \<Rightarrow> PodFirewallState" where
  "enroll hash p = p\<lparr>pf_last_policy_hash := hash, pf_state := Enrolled\<rparr>"

inductive fw_reach :: "(fw_key \<Rightarrow> u64) \<Rightarrow> fw_key set \<Rightarrow> FwController \<times> fw_kernel \<Rightarrow> bool"
  for H :: "fw_key \<Rightarrow> u64" and K :: "fw_key set"
where
  start: "fc_pods (fst w) = [] \<Longrightarrow> fw_reach H K w"
| turn: "fw_reach H K w \<Longrightarrow> keys_within K s \<Longrightarrow> env_ok env \<Longrightarrow> event_ok ev (fc_pods (fst w)) \<Longrightarrow>
    fw_reach H K (fw_turn H s env ev w)"

text \<open>What installed rules decide, the packets the fixed rules let through, and the packets a backend handles.\<close>

definition installed_accepts :: "ipnet_ops \<Rightarrow> Installed \<Rightarrow> FwDirection \<Rightarrow> PacketCtx \<Rightarrow> bool" where
  "installed_accepts N rules d cx =
     (case rules of InstalledNft script \<Rightarrow> nft_accepts N script d cx | InstalledIpt cmds \<Rightarrow> ipt_accepts N cmds d cx)"

definition backend_bypass :: "Backend \<Rightarrow> FwDirection \<Rightarrow> PacketCtx \<Rightarrow> bool" where
  "backend_bypass b d cx = (case b of BackendNft n \<Rightarrow> nft_bypass n d cx | BackendIpt i \<Rightarrow> ipt_bypass i d cx)"

definition backend_sees :: "Backend \<Rightarrow> Packet \<Rightarrow> bool" where
  "backend_sees b p = (case b of BackendNft _ \<Rightarrow> True | BackendIpt _ \<Rightarrow> is_ipv4 (pk_dst p))"

definition example_fw_env :: fw_env where
  "example_fw_env = \<lparr>fe_init = (\<lambda>_. True), fe_apply = (\<lambda>_. Replaced), fe_cleanup = (\<lambda>_. True), fe_order = id\<rparr>"

definition example_netns :: Netns where
  "example_netns = \<lparr>ns_inode = 4026532000, ns_dev = 4, ns_fd = 11\<rparr>"

definition example_controller :: FwController where
  "example_controller = \<lparr>fc_backend_kind = Nftables, fc_proxy_mark = 1337, fc_dns_proxy = False, fc_pid = 1, fc_pods = []\<rparr>"

definition example_pod :: PodFirewallState where
  "example_pod = \<lparr>pf_netns = example_netns, pf_workload_info = example_info, pf_last_policy_hash = 7, pf_state = Enrolled\<rparr>"

definition example_fw :: "FwController \<times> fw_kernel" where
  "example_fw = fw_turn (\<lambda>_. 7) example_state example_fw_env (PodEvent (AddPod ''pod-1'' example_info example_netns)) (example_controller, [])"

section \<open>Lemmas\<close>

lemma pods_update_simps [simp]:
  "make_backend_for_netns (c\<lparr>fc_pods := pods\<rparr>) netns info = make_backend_for_netns c netns info"
  "pod_rules (c\<lparr>fc_pods := pods\<rparr>) p rs = pod_rules c p rs"
  "pod_ok H K (c\<lparr>fc_pods := pods\<rparr>) kern p = pod_ok H K c kern p"
  by (simp_all add: make_backend_for_netns_def pod_rules_def pod_ok_def split: PodState.split)

lemma pod_ok_kernel:
  "hm_get kern' (netns_id (pf_netns p)) = hm_get kern (netns_id (pf_netns p)) \<Longrightarrow>
     pod_ok H K c kern' p = pod_ok H K c kern p"
  by (simp add: pod_ok_def split: PodState.split)

lemma exclusive_insert:
  assumes "exclusive pods" "\<And>v q. hm_get pods v = Some q \<Longrightarrow> netns_id (pf_netns q) = netns_id (pf_netns p) \<Longrightarrow> v = uid"
  shows "exclusive (hm_insert uid p pods)"
proof -
  have "u = v" if a: "hm_get (hm_insert uid p pods) u = Some a" and b: "hm_get (hm_insert uid p pods) v = Some b"
    and same: "netns_id (pf_netns a) = netns_id (pf_netns b)" for u v a b
  proof (cases "u = uid")
    case True
    then have "a = p" using a by (simp add: hm.get_ins)
    then show ?thesis using True assms(2) [of v b] b same by (cases "v = uid") (auto simp: hm.get_ins)
  next
    case False
    then have a': "hm_get pods u = Some a" using a by (simp add: hm.get_ins)
    show ?thesis
    proof (cases "v = uid")
      case True
      then have "b = p" using b by (simp add: hm.get_ins)
      then show ?thesis using assms(2) [OF a'] same True by simp
    next
      case False
      then have "hm_get pods v = Some b" using b by (simp add: hm.get_ins)
      then show ?thesis using assms(1) a' same unfolding exclusive_def by blast
    qed
  qed
  then show ?thesis unfolding exclusive_def by blast
qed

text \<open>A handler that works on one pod: it may change the rules of the pod's namespace and the pod's entry.\<close>

lemma fw_inv_set:
  assumes "fw_inv H K (c, kern)" "pod_ok H K c kern' p"
    and "\<And>v q. hm_get (fc_pods c) v = Some q \<Longrightarrow> netns_id (pf_netns q) = netns_id (pf_netns p) \<Longrightarrow> v = uid"
    and "\<And>k. k \<noteq> netns_id (pf_netns p) \<Longrightarrow> hm_get kern' k = hm_get kern k"
  shows "fw_inv H K (c\<lparr>fc_pods := hm_insert uid p (fc_pods c)\<rparr>, kern')"
proof -
  have "pod_ok H K c kern' q" if "hm_get (hm_insert uid p (fc_pods c)) v = Some q" for v q
  proof (cases "v = uid")
    case True
    then show ?thesis using that assms(2) by (simp add: hm.get_ins)
  next
    case False
    then have "hm_get (fc_pods c) v = Some q" using that by (simp add: hm.get_ins)
    with False assms(1,3) have "pod_ok H K c kern q" "netns_id (pf_netns q) \<noteq> netns_id (pf_netns p)"
      by (auto simp: fw_inv_def)
    then show ?thesis using pod_ok_kernel assms(4) by metis
  qed
  with assms(1,3) show ?thesis by (simp add: fw_inv_def exclusive_insert hm.wf_ins)
qed

subsection \<open>Resolution\<close>

lemma key_rules_policy_key:
  "key_rules (policy_key s wl) =
     workload_ruleset (traffic_policies wl (px_policies s)) (Option.bind (fetch_sandbox s wl) sb_traffic_policy)"
  by (cases "fetch_sandbox s wl") (simp_all add: key_rules_def policy_key_def)

lemma resolve_Some:
  "resolve_workload_firewall H s info h = Some (rs, hash) \<longleftrightarrow>
     (\<exists>wl. ws_find_by_info (px_workloads s) info = Some wl \<and> h \<noteq> Some (H (policy_key s wl)) \<and>
       rs = key_rules (policy_key s wl) \<and> hash = H (policy_key s wl))"
  by (auto simp: resolve_workload_firewall_def key_rules_policy_key Let_def split: option.splits)

lemma resolve_None:
  "resolve_workload_firewall H s info h = None \<longleftrightarrow>
     (case ws_find_by_info (px_workloads s) info of None \<Rightarrow> True | Some wl \<Rightarrow> h = Some (H (policy_key s wl)))"
  by (simp add: resolve_workload_firewall_def Let_def split: option.splits)

lemma resolve_key:
  "keys_within K s \<Longrightarrow> resolve_workload_firewall H s info h = Some (rs, hash) \<Longrightarrow>
     \<exists>key \<in> K. rs = key_rules key \<and> hash = H key"
  by (auto simp: resolve_Some keys_within_def)

subsection \<open>Each handler keeps the invariant\<close>

lemma backend_apply_cases:
  assumes "env_ok env"
  shows "backend_apply (fe_apply env uid) netns rules kern =
    (if fe_apply env uid = Replaced then (hm_insert (netns_id netns) rules kern, True) else (kern, False))"
  using assms by (cases "fe_apply env uid") (auto simp: backend_apply_def env_ok_def)

lemma pod_ok_simps:
  "pod_ok H K c kern \<lparr>pf_netns = n, pf_workload_info = i, pf_last_policy_hash = h, pf_state = InitFailed r\<rparr> = (r \<le> MAX_INIT_RETRIES)"
  "pod_ok H K c kern \<lparr>pf_netns = n, pf_workload_info = i, pf_last_policy_hash = h, pf_state = PendingWorkload\<rparr> = (h = 0)"
  by (simp_all add: pod_ok_def)

lemma try_init_ok:
  assumes "env_ok env" "keys_within K s" "try_init_and_apply H s env c uid info netns kern = (st, hash, kern')"
  shows "pod_ok H K c kern' \<lparr>pf_netns = netns, pf_workload_info = info, pf_last_policy_hash = hash, pf_state = st\<rparr>"
    and "k \<noteq> netns_id netns \<Longrightarrow> hm_get kern' k = hm_get kern k"
    and "is_init_failed st \<Longrightarrow> kern' = kern \<and> st = InitFailed 0"
proof -
  have "pod_ok H K c kern' \<lparr>pf_netns = netns, pf_workload_info = info, pf_last_policy_hash = hash, pf_state = st\<rparr> \<and>
      (k \<noteq> netns_id netns \<longrightarrow> hm_get kern' k = hm_get kern k) \<and> (is_init_failed st \<longrightarrow> kern' = kern \<and> st = InitFailed 0)"
  proof (cases "resolve_workload_firewall H s info None")
    case None
    then show ?thesis
      using assms(3) by (auto simp: try_init_and_apply_def pod_ok_simps MAX_INIT_RETRIES_def split: if_splits)
  next
    case (Some r)
    obtain rs h where r: "r = (rs, h)" by (cases r)
    with resolve_key [OF assms(2)] Some obtain key where "key \<in> K" "rs = key_rules key" "h = H key" by blast
    then show ?thesis
      using assms(3) Some r
      by (auto simp: try_init_and_apply_def backend_apply_cases [OF assms(1)] pod_ok_simps MAX_INIT_RETRIES_def
          pod_ok_def pod_rules_def hm.get_ins split: if_splits)
  qed
  then show "pod_ok H K c kern' \<lparr>pf_netns = netns, pf_workload_info = info, pf_last_policy_hash = hash, pf_state = st\<rparr>"
    and "k \<noteq> netns_id netns \<Longrightarrow> hm_get kern' k = hm_get kern k"
    and "is_init_failed st \<Longrightarrow> kern' = kern \<and> st = InitFailed 0"
    by blast+
qed

lemma fw_inv_remove:
  assumes "fw_inv H K w"
  shows "fw_inv H K (handle_remove_pod env uid w)"
proof (cases "hm_get (fc_pods (fst w)) uid")
  case (Some p)
  let ?kern = "if fe_cleanup env uid then hm_remove (netns_id (pf_netns p)) (snd w) else snd w"
  have keep: "pod_ok H K (fst w) ?kern q" if "hm_get (fc_pods (fst w)) v = Some q" "v \<noteq> uid" for v q
  proof -
    have "netns_id (pf_netns q) \<noteq> netns_id (pf_netns p)"
      using assms that Some by (auto simp: fw_inv_def exclusive_def)
    then have "hm_get ?kern (netns_id (pf_netns q)) = hm_get (snd w) (netns_id (pf_netns q))" by (simp add: hm.get_del)
    then show ?thesis using pod_ok_kernel assms that(1) unfolding fw_inv_def by metis
  qed
  have "exclusive (hm_remove uid (fc_pods (fst w)))"
    using assms unfolding fw_inv_def exclusive_def hm.get_del by (metis option.distinct(1))
  then show ?thesis
    using assms keep Some by (auto simp: fw_inv_def handle_remove_pod_def hm.wf_del hm.get_del split: if_splits)
qed (use assms in \<open>simp add: handle_remove_pod_def\<close>)

lemma remove_pods:
  "fc_pods (fst (handle_remove_pod env uid w)) = (if hm_get (fc_pods (fst w)) uid = None then fc_pods (fst w) else hm_remove uid (fc_pods (fst w)))"
  by (simp add: handle_remove_pod_def split: option.splits)

lemma fw_inv_register:
  assumes "fw_inv H K (c, kern)" "env_ok env" "keys_within K s"
    and "\<And>v q. hm_get (fc_pods c) v = Some q \<Longrightarrow> netns_id (pf_netns q) = netns_id netns \<Longrightarrow> v = uid"
    and "try_init_and_apply H s env c uid info netns kern = (st, hash, kern')"
  shows "fw_inv H K (c\<lparr>fc_pods := hm_insert uid \<lparr>pf_netns = netns, pf_workload_info = info, pf_last_policy_hash = hash,
    pf_state = st\<rparr> (fc_pods c)\<rparr>, kern')"
  using fw_inv_set [OF assms(1) try_init_ok(1) [OF assms(2,3,5)]] assms(4) try_init_ok(2) [OF assms(2,3,5)] by simp

lemma fw_inv_add:
  assumes "fw_inv H K w" "env_ok env" "keys_within K s" "event_ok (PodEvent (AddPod uid info netns)) (fc_pods (fst w))"
  shows "fw_inv H K (handle_add_pod H s env uid info netns w)"
proof -
  let ?w = "if hm_get (fc_pods (fst w)) uid = None then w else handle_remove_pod env uid w"
  have inv: "fw_inv H K (fst ?w, snd ?w)" using assms(1) fw_inv_remove by simp
  have own: "v = uid" if "hm_get (fc_pods (fst ?w)) v = Some q" "netns_id (pf_netns q) = netns_id netns" for v q
    using assms(4) that by (auto simp: remove_pods hm.get_del split: if_splits)
  obtain st hash kern' where t: "try_init_and_apply H s env (fst ?w) uid info netns (snd ?w) = (st, hash, kern')"
    by (cases "try_init_and_apply H s env (fst ?w) uid info netns (snd ?w)")
  have "handle_add_pod H s env uid info netns w = w \<or>
      handle_add_pod H s env uid info netns w = ((fst ?w)\<lparr>fc_pods := hm_insert uid \<lparr>pf_netns = netns, pf_workload_info = info,
        pf_last_policy_hash = hash, pf_state = st\<rparr> (fc_pods (fst ?w))\<rparr>, kern')"
    using t by (cases "hm_get (fc_pods (fst w)) uid") (auto simp: handle_add_pod_def case_prod_unfold)
  then show ?thesis using assms(1) fw_inv_register [OF inv assms(2,3) own t] by auto
qed

text \<open>The concurrent applies of a rebuild have the effect of the sequential loop over their order of completion.\<close>

lemma run_applies_sequential:
  "run_applies c env items kern = (kern', results) \<Longrightarrow>
     process_pending env items (c\<lparr>fc_pods := pods\<rparr>, kern) = (c\<lparr>fc_pods := fold note_result results pods\<rparr>, kern')"
proof (induction c env items kern arbitrary: pods results rule: run_applies.induct)
  case (2 c env uid netns info ruleset policy_hash items kern)
  then show ?case by (auto simp: Let_def split: prod.splits)
qed simp

lemma rebuild_sequential:
  "rebuild_all_pods H s env w = process_pending env (fe_order env (List.map_filter (rebuild_item H s) (fc_pods (fst w)))) w"
proof -
  obtain kern' results where r: "run_applies (fst w) env (fe_order env (List.map_filter (rebuild_item H s) (fc_pods (fst w)))) (snd w) = (kern', results)"
    by fastforce
  from run_applies_sequential [OF this, of "fc_pods (fst w)"] r show ?thesis by (simp add: rebuild_all_pods_def)
qed

lemma note_result_enroll:
  "hm_get pods uid = Some p \<Longrightarrow> note_result (uid, hash, True) pods = hm_insert uid (enroll hash p) pods"
  "note_result (uid, hash, False) pods = pods"
  by (simp_all add: note_result_def enroll_def)

lemma enroll_fields [simp]:
  "pf_netns (enroll hash p) = pf_netns p" "pf_workload_info (enroll hash p) = pf_workload_info p"
  "pf_state (enroll hash p) = Enrolled" "pf_last_policy_hash (enroll hash p) = hash"
  "pod_rules c (enroll hash p) rs = pod_rules c p rs"
  by (simp_all add: enroll_def pod_rules_def)

lemma process_step:
  assumes "env_ok env" "hm_get (fc_pods (fst w)) uid = Some p" "netns = pf_netns p" "info = pf_workload_info p"
  shows "process_pending env ((uid, netns, info, rs, hash) # items) w =
    process_pending env items (if fe_apply env uid = Replaced
      then ((fst w)\<lparr>fc_pods := hm_insert uid (enroll hash p) (fc_pods (fst w))\<rparr>,
            hm_insert (netns_id (pf_netns p)) (pod_rules (fst w) p rs) (snd w))
      else w)"
  using assms(2-4) by (simp add: backend_apply_cases [OF assms(1)] note_result_enroll pod_rules_def)

lemma item_ok_insert:
  assumes "item_ok H K pods item" "hm_get pods uid = Some p"
  shows "item_ok H K (hm_insert uid (enroll hash p) pods) item"
  using assms by (auto simp: item_ok_def hm.get_ins split: prod.splits)

lemma fw_inv_process:
  assumes "env_ok env" "fw_inv H K w" "list_all (item_ok H K (fc_pods (fst w))) items"
  shows "fw_inv H K (process_pending env items w)"
  using assms(2,3)
proof (induction items arbitrary: w)
  case (Cons item items)
  obtain uid netns info rs hash where item: "item = (uid, netns, info, rs, hash)" by (cases item)
  with Cons.prems(2) obtain p key where p: "hm_get (fc_pods (fst w)) uid = Some p" "netns = pf_netns p" "info = pf_workload_info p"
    and key: "key \<in> K" "rs = key_rules key" "hash = H key" by (auto simp: item_ok_def)
  let ?w = "((fst w)\<lparr>fc_pods := hm_insert uid (enroll hash p) (fc_pods (fst w))\<rparr>,
      hm_insert (netns_id (pf_netns p)) (pod_rules (fst w) p rs) (snd w))"
  have "pod_ok H K (fst w) (snd ?w) (enroll hash p)" using key by (auto simp: pod_ok_def hm.get_ins)
  moreover have "v = uid" if "hm_get (fc_pods (fst w)) v = Some q" "netns_id (pf_netns q) = netns_id (pf_netns p)" for v q
    using Cons.prems(1) that p(1) unfolding fw_inv_def exclusive_def by blast
  ultimately have "fw_inv H K ?w"
    using fw_inv_set [of H K "fst w" "snd w" "snd ?w" "enroll hash p" uid] Cons.prems(1) by (simp add: hm.get_ins)
  moreover have "list_all (item_ok H K (fc_pods (fst ?w))) items"
    using Cons.prems(2) item_ok_insert [OF _ p(1)] by (auto simp: list_all_iff)
  ultimately show ?case
    using Cons.IH Cons.prems process_step [OF assms(1) p] by (simp add: item)
qed simp

lemma process_controller: "\<exists>pods. fst (process_pending env items w) = (fst w)\<lparr>fc_pods := pods\<rparr>"
proof (induction env items w rule: process_pending.induct)
  case (2 env uid netns info ruleset policy_hash items w)
  obtain kern' ok where b: "backend_apply (fe_apply env uid) netns
      (backend_compile (make_backend_for_netns (fst w) netns info) ruleset) (snd w) = (kern', ok)" by fastforce
  from 2 [OF refl b [symmetric]] b show ?case by auto
next
  case (1 env w)
  show ?case by (intro exI [of _ "fc_pods (fst w)"]) simp
qed

lemma process_other:
  assumes "env_ok env" "exclusive (fc_pods (fst w))" "list_all (item_ok H K (fc_pods (fst w))) items"
    and "hm_get (fc_pods (fst w)) v = Some q" "v \<notin> fst ` set items"
  shows "hm_get (fc_pods (fst (process_pending env items w))) v = Some q \<and>
    hm_get (snd (process_pending env items w)) (netns_id (pf_netns q)) = hm_get (snd w) (netns_id (pf_netns q))"
  using assms(2-5)
proof (induction items arbitrary: w)
  case (Cons item items)
  obtain uid netns info rs hash where item: "item = (uid, netns, info, rs, hash)" by (cases item)
  with Cons.prems(2) obtain p where p: "hm_get (fc_pods (fst w)) uid = Some p" "netns = pf_netns p" "info = pf_workload_info p"
    by (auto simp: item_ok_def)
  let ?w = "if fe_apply env uid = Replaced
      then ((fst w)\<lparr>fc_pods := hm_insert uid (enroll hash p) (fc_pods (fst w))\<rparr>,
            hm_insert (netns_id (pf_netns p)) (pod_rules (fst w) p rs) (snd w))
      else w"
  have "v \<noteq> uid" using Cons.prems(4) item by auto
  then have apart: "netns_id (pf_netns q) \<noteq> netns_id (pf_netns p)"
    using Cons.prems(1,3) p(1) unfolding exclusive_def by blast
  have own: "v' = uid" if "hm_get (fc_pods (fst w)) v' = Some q'" "netns_id (pf_netns q') = netns_id (pf_netns p)" for v' q'
    using Cons.prems(1) that p(1) unfolding exclusive_def by blast
  have "exclusive (fc_pods (fst ?w))"
    using Cons.prems(1) exclusive_insert [of "fc_pods (fst w)" "enroll hash p" uid] own by simp
  moreover have "list_all (item_ok H K (fc_pods (fst ?w))) items"
    using Cons.prems(2) item_ok_insert [OF _ p(1)] by (auto simp: list_all_iff)
  moreover have "hm_get (fc_pods (fst ?w)) v = Some q" using Cons.prems(3) \<open>v \<noteq> uid\<close> by (simp add: hm.get_ins)
  moreover have "hm_get (snd ?w) (netns_id (pf_netns q)) = hm_get (snd w) (netns_id (pf_netns q))"
    using apart by (simp add: hm.get_ins)
  ultimately show ?case
    using Cons.IH [of ?w] Cons.prems(4) process_step [OF assms(1) p, of rs hash items] by (simp add: item)
qed simp

lemma process_enrolls:
  assumes "env_ok env" "\<And>uid. fe_apply env uid = Replaced" "exclusive (fc_pods (fst w))"
    and "list_all (item_ok H K (fc_pods (fst w))) items" "distinct (map fst items)"
    and "(v, netns, info, rs, hash) \<in> set items" "hm_get (fc_pods (fst w)) v = Some q"
  shows "hm_get (fc_pods (fst (process_pending env items w))) v = Some (enroll hash q) \<and>
    hm_get (snd (process_pending env items w)) (netns_id (pf_netns q)) = Some (pod_rules (fst w) q rs)"
  using assms(3-7)
proof (induction items arbitrary: w)
  case (Cons item items)
  obtain uid netns1 info1 rs1 hash1 where item: "item = (uid, netns1, info1, rs1, hash1)" by (cases item)
  with Cons.prems(2) obtain p where p: "hm_get (fc_pods (fst w)) uid = Some p" "netns1 = pf_netns p" "info1 = pf_workload_info p"
    by (auto simp: item_ok_def)
  let ?w = "((fst w)\<lparr>fc_pods := hm_insert uid (enroll hash1 p) (fc_pods (fst w))\<rparr>,
            hm_insert (netns_id (pf_netns p)) (pod_rules (fst w) p rs1) (snd w))"
  have step: "process_pending env (item # items) w = process_pending env items ?w"
    using process_step [OF assms(1) p, of rs1 hash1 items] assms(2) by (simp add: item)
  have own: "v' = uid" if "hm_get (fc_pods (fst w)) v' = Some q'" "netns_id (pf_netns q') = netns_id (pf_netns p)" for v' q'
    using Cons.prems(1) that p(1) unfolding exclusive_def by blast
  have excl: "exclusive (fc_pods (fst ?w))"
    using Cons.prems(1) exclusive_insert [of "fc_pods (fst w)" "enroll hash1 p" uid] own by simp
  have items: "list_all (item_ok H K (fc_pods (fst ?w))) items"
    using Cons.prems(2) item_ok_insert [OF _ p(1)] by (auto simp: list_all_iff)
  show ?case
  proof (cases "v = uid")
    case True
    with Cons.prems(3,4) item have eq: "rs1 = rs" "hash1 = hash" "q = p" "uid \<notin> fst ` set items"
      using Cons.prems(5) p(1) by (auto simp: image_iff)
    have "hm_get (fc_pods (fst ?w)) uid = Some (enroll hash1 p)" by (simp add: hm.get_ins)
    from process_other [OF assms(1) excl items this eq(4)] show ?thesis
      using True eq by (simp add: step hm.get_ins)
  next
    case False
    then have "(v, netns, info, rs, hash) \<in> set items" "hm_get (fc_pods (fst ?w)) v = Some q"
      using Cons.prems(4,5) item by (auto simp: hm.get_ins)
    from Cons.IH [OF excl items _ this] Cons.prems(3) show ?thesis by (simp add: step)
  qed
qed simp

lemma rebuild_item_ok:
  assumes "hm_wf pods" "keys_within K s" "e \<in> set pods" "rebuild_item H s e = Some item \<or> pending_item H s e = Some item"
  shows "item_ok H K pods item \<and> fst item = fst e"
proof -
  obtain uid p where e: "e = (uid, p)" by (cases e)
  obtain h rs hash where "resolve_workload_firewall H s (pf_workload_info p) h = Some (rs, hash)"
    and "item = (uid, pf_netns p, pf_workload_info p, rs, hash)"
    using assms(4) e by (auto simp: rebuild_item_def pending_item_def split: if_splits option.splits)
  then show ?thesis
    using resolve_key [OF assms(2)] assms(3) e hm.entries_get [OF assms(1), of uid p] by (auto simp: item_ok_def)
qed

lemma map_filter_keys:
  assumes "distinct (map fst xs)" "\<And>e y. e \<in> set xs \<Longrightarrow> f e = Some y \<Longrightarrow> fst y = fst e"
  shows "distinct (map fst (List.map_filter f xs))"
  using assms
proof (induction xs)
  case (Cons x xs)
  have "fst ` set (List.map_filter f xs) \<subseteq> fst ` set xs"
    using Cons.prems(2) by (force simp: set_map_filter image_iff)
  moreover have "fst y = fst x" if "f x = Some y" for y using Cons.prems(2) [of x] that by simp
  moreover have "distinct (map fst (List.map_filter f xs))" using Cons by simp
  ultimately show ?case using Cons.prems(1) by (cases "f x") (auto simp: List.map_filter_simps)
qed (simp add: List.map_filter_simps)

lemma fw_inv_retry:
  assumes "env_ok env" "keys_within K s" "fw_inv H K w"
    and "\<And>p. hm_get (fc_pods (fst w)) uid = Some p \<Longrightarrow> is_init_failed (pf_state p) \<Longrightarrow> retryable (pf_state p)"
  shows "fw_inv H K (retry_pod H s env uid w)"
proof (cases "hm_get (fc_pods (fst w)) uid")
  case (Some p)
  show ?thesis
  proof (cases "pf_state p")
    case (InitFailed r)
    obtain st hash kern' where t: "try_init_and_apply H s env (fst w) uid (pf_workload_info p) (pf_netns p) (snd w) = (st, hash, kern')"
      by (metis prod_cases3)
    note ok = try_init_ok [OF assms(1,2) t]
    let ?p = "if is_init_failed st then p\<lparr>pf_state := InitFailed (r + 1)\<rparr> else p\<lparr>pf_state := st, pf_last_policy_hash := hash\<rparr>"
    have "r < 5" using assms(4) [OF Some] InitFailed by (simp add: MAX_INIT_RETRIES_def)
    then have "r + 1 \<le> 5" by (simp add: inc_le)
    then have "pod_ok H K (fst w) kern' ?p"
      using ok(1) by (cases st) (simp_all add: pod_ok_def pod_rules_def MAX_INIT_RETRIES_def)
    moreover have "v = uid" if "hm_get (fc_pods (fst w)) v = Some q" "netns_id (pf_netns q) = netns_id (pf_netns p)" for v q
      using assms(3) that Some unfolding fw_inv_def exclusive_def by blast
    moreover have "pf_netns ?p = pf_netns p" by simp
    ultimately have "fw_inv H K ((fst w)\<lparr>fc_pods := hm_insert uid ?p (fc_pods (fst w))\<rparr>, kern')"
      using assms(3) ok(2) by (intro fw_inv_set [where kern = "snd w"]) (simp_all only: prod.collapse)
    then show ?thesis using Some InitFailed t by (cases st) (simp_all add: retry_pod_def)
  qed (use Some assms(3) in \<open>simp_all add: retry_pod_def\<close>)
qed (use assms(3) in \<open>simp add: retry_pod_def\<close>)

lemma retry_pod_other:
  "v \<noteq> uid \<Longrightarrow> hm_get (fc_pods (fst (retry_pod H s env uid w))) v = hm_get (fc_pods (fst w)) v"
  by (auto simp: retry_pod_def hm.get_ins split: option.splits PodState.splits prod.splits)

lemma fw_inv_retry_all:
  assumes "env_ok env" "keys_within K s" "fw_inv H K w" "distinct uids"
    and "\<And>uid p. uid \<in> set uids \<Longrightarrow> hm_get (fc_pods (fst w)) uid = Some p \<Longrightarrow> retryable (pf_state p)"
  shows "fw_inv H K (fold (retry_pod H s env) uids w)"
  using assms(3-5)
proof (induction uids arbitrary: w)
  case (Cons uid uids)
  have "fw_inv H K (retry_pod H s env uid w)" using Cons.prems by (intro fw_inv_retry [OF assms(1,2)]) auto
  moreover have "retryable (pf_state p)" if "v \<in> set uids" "hm_get (fc_pods (fst (retry_pod H s env uid w))) v = Some p" for v p
  proof -
    have "v \<noteq> uid" using that(1) Cons.prems(2) by auto
    with that(2) have "hm_get (fc_pods (fst w)) v = Some p" by (simp add: retry_pod_other)
    then show ?thesis using that(1) Cons.prems(3) [of v p] by simp
  qed
  ultimately show ?case using Cons.IH [of "retry_pod H s env uid w"] Cons.prems(2) by simp
qed simp

lemma fw_inv_turn:
  assumes "fw_inv H K w" "keys_within K s" "env_ok env" "event_ok ev (fc_pods (fst w))"
  shows "fw_inv H K (fw_turn H s env ev w)"
proof -
  have wf: "hm_wf (fc_pods (fst w))" using assms(1) by (simp add: fw_inv_def)
  note item = rebuild_item_ok [OF wf assms(2)]
  show ?thesis
  proof (cases ev)
    case (PodEvent e)
    then show ?thesis using assms fw_inv_add fw_inv_remove by (cases e) auto
  next
    case PoliciesChanged
    have "set (fe_order env items) = set items" for items using assms(3) unfolding env_ok_def by (metis set_mset_mset)
    then have "list_all (item_ok H K (fc_pods (fst w))) (fe_order env (List.map_filter (rebuild_item H s) (fc_pods (fst w))))"
      using item by (auto simp: list_all_iff set_map_filter)
    then show ?thesis using fw_inv_process [OF assms(3,1)] PoliciesChanged by (simp add: rebuild_sequential)
  next
    case WorkloadsChanged
    have "list_all (item_ok H K (fc_pods (fst w))) (List.map_filter (pending_item H s) (fc_pods (fst w)))"
      using item by (auto simp: list_all_iff set_map_filter)
    then show ?thesis using fw_inv_process [OF assms(3,1)] WorkloadsChanged by (simp add: rebuild_pending_workload_pods_def)
  next
    case RetryTick
    let ?uids = "map fst (filter (\<lambda>(_, p). retryable (pf_state p)) (fc_pods (fst w)))"
    have "distinct ?uids" using wf distinct_map_filter [of fst "fc_pods (fst w)"] by (simp add: hm_wf_def)
    moreover have "retryable (pf_state p)" if "uid \<in> set ?uids" "hm_get (fc_pods (fst w)) uid = Some p" for uid p
      using that hm.entries_get [OF wf] by auto
    ultimately have "fw_inv H K (retry_init_failed_pods H s env w)"
      unfolding retry_init_failed_pods_def by (rule fw_inv_retry_all [OF assms(3,2,1)])
    then show ?thesis using RetryTick assms(1) by simp
  qed
qed

lemma fw_inv_reach: "fw_reach H K w \<Longrightarrow> fw_inv H K w"
  by (induction rule: fw_reach.induct) (simp_all add: fw_inv_turn, simp add: fw_inv_def exclusive_def hm_wf_def hm_get_def)

subsection \<open>A rebuild without failures\<close>

lemma rebuild_current:
  assumes "fw_inv H K w" "keys_within K s" "env_ok env" "\<And>uid. fe_apply env uid = Replaced"
    and "inj_on H K" "0 \<notin> H ` K"
    and "hm_get (fc_pods (fst w)) uid = Some p" "\<not> is_init_failed (pf_state p)"
    and "ws_find_by_info (px_workloads s) (pf_workload_info p) = Some wl"
  shows "hm_get (fc_pods (fst (rebuild_all_pods H s env w))) uid = Some (enroll (H (policy_key s wl)) p) \<and>
    hm_get (snd (rebuild_all_pods H s env w)) (netns_id (pf_netns p)) = Some (pod_rules (fst w) p (key_rules (policy_key s wl)))"
proof -
  let ?items = "fe_order env (List.map_filter (rebuild_item H s) (fc_pods (fst w)))"
  have wf: "hm_wf (fc_pods (fst w))" and excl: "exclusive (fc_pods (fst w))" using assms(1) by (simp_all add: fw_inv_def)
  note item = rebuild_item_ok [OF wf assms(2)]
  have perm: "mset ?items = mset (List.map_filter (rebuild_item H s) (fc_pods (fst w)))" using assms(3) by (simp add: env_ok_def)
  have sets: "set ?items = set (List.map_filter (rebuild_item H s) (fc_pods (fst w)))" using perm by (metis set_mset_mset)
  have ok: "list_all (item_ok H K (fc_pods (fst w))) ?items" using item by (auto simp: list_all_iff sets set_map_filter)
  have "distinct (map fst (List.map_filter (rebuild_item H s) (fc_pods (fst w))))"
    using wf item by (intro map_filter_keys) (unfold hm_wf_def, assumption, blast)
  then have dist: "distinct (map fst ?items)" using perm by (metis mset_eq_imp_distinct_iff mset_map)
  have entry: "(uid, p) \<in> set (fc_pods (fst w))" using assms(7) hm.entries_get [OF wf] by simp
  let ?key = "policy_key s wl"
  have "?key \<in> K" using assms(2,9) by (auto simp: keys_within_def)
  show ?thesis
  proof (cases "pf_last_policy_hash p = H ?key")
    case True
    have pod: "pod_ok H K (fst w) (snd w) p" using assms(1,7) by (simp add: fw_inv_def)
    have "H ?key \<noteq> 0" using assms(6) \<open>?key \<in> K\<close> by force
    then have "pf_state p = Enrolled" using pod True assms(8) by (cases "pf_state p") (simp_all add: pod_ok_def)
    then obtain key where key: "key \<in> K" "pf_last_policy_hash p = H key"
        "hm_get (snd w) (netns_id (pf_netns p)) = Some (pod_rules (fst w) p (key_rules key))"
      using pod by (auto simp: pod_ok_def)
    then have "key = ?key" using assms(5) \<open>?key \<in> K\<close> True by (auto simp: inj_on_def)
    have "resolve_workload_firewall H s (pf_workload_info p) (Some (pf_last_policy_hash p)) = None"
      using assms(9) True by (simp add: resolve_None)
    then have "rebuild_item H s (uid, p) = None" by (simp add: rebuild_item_def)
    then have "uid \<notin> fst ` set ?items"
      using item entry hm.entries_get [OF wf] by (fastforce simp: sets set_map_filter)
    from process_other [OF assms(3) excl ok assms(7) this] show ?thesis
      using key(3) \<open>key = ?key\<close> \<open>pf_state p = Enrolled\<close> True by (cases p) (simp add: rebuild_sequential enroll_def)
  next
    case False
    then have "resolve_workload_firewall H s (pf_workload_info p) (Some (pf_last_policy_hash p)) = Some (key_rules ?key, H ?key)"
      using assms(9) by (auto simp: resolve_Some)
    then have "rebuild_item H s (uid, p) = Some (uid, pf_netns p, pf_workload_info p, key_rules ?key, H ?key)"
      using assms(8) by (simp add: rebuild_item_def)
    then have "(uid, pf_netns p, pf_workload_info p, key_rules ?key, H ?key) \<in> set ?items"
      using entry by (auto simp: sets set_map_filter)
    from process_enrolls [OF assms(3,4) excl ok dist this assms(7)] show ?thesis by (simp add: rebuild_sequential)
  qed
qed

lemma backend_compile_accepts:
  assumes "family_sound N" "packet_wf (cx_packet cx)" "pk_proto (cx_packet cx) \<noteq> L4Tcp" "backend_sees b (cx_packet cx)"
    and "stage_validated ps" "stage_validated (inline_stage inline)"
    and "length (stage_rules d ps) \<le> 2147483648" "length (stage_rules d (inline_stage inline)) \<le> 2147483648"
  shows "installed_accepts N (backend_compile b (workload_ruleset ps inline)) (fw_direction d) cx \<longleftrightarrow>
    backend_bypass b (fw_direction d) cx \<or>
    stage_verdict N d (inline_stage inline) (cx_packet cx) \<noteq> Some FwDeny \<and>
    stage_verdict N d ps (cx_packet cx) \<noteq> Some FwDeny"
proof (cases b)
  case (BackendNft n)
  then show ?thesis
    using nft.accepts_workload [OF assms(1-3) TrueI assms(5-8)] by (simp add: installed_accepts_def backend_bypass_def)
next
  case (BackendIpt i)
  then show ?thesis
    using ipt.accepts_workload [OF assms(1-3) _ assms(5-8)] assms(4)
    by (simp add: installed_accepts_def backend_bypass_def backend_sees_def)
qed

lemma example_find:
  "ws_find_by_info (px_workloads example_state) example_info = Some example_workload"
  by code_simp

lemma example_keys:
  assumes "ws_find_by_info (px_workloads example_state) info = Some wl"
  shows "wl = example_workload"
proof -
  have stored: "px_workloads example_state = ws_run None [WsInsert example_workload]"
    by (simp add: example_state_def ws_run_def)
  have "ws_by_uid (px_workloads example_state) = [(wl_uid example_workload, example_workload)]" by code_simp
  then have "ws_find_uid (px_workloads example_state) u = Some w \<Longrightarrow> w = example_workload" for u w
    by (simp add: ws_find_uid_def hm_get_def split: if_splits)
  moreover have "ws_inv (px_workloads example_state)" using ws_run_refines(1) [of None "[WsInsert example_workload]"] stored by simp
  ultimately show ?thesis using ws_find_by_info_iff [of "px_workloads example_state" info] assms by auto
qed

lemma example_fw_eq:
  "example_fw = (example_controller\<lparr>fc_pods := [(''pod-1'', example_pod)]\<rparr>,
     [(netns_id example_netns, pod_rules example_controller example_pod (key_rules (policy_key example_state example_workload)))])"
  by (simp add: example_fw_def handle_add_pod_def try_init_and_apply_def resolve_workload_firewall_def example_find
      example_fw_env_def example_controller_def backend_apply_def hm_get_def hm_insert_def example_pod_def
      pod_rules_def make_backend_for_netns_def key_rules_policy_key)

subsection \<open>Debouncing\<close>

lemma debounce_loop_bounds:
  assumes "debounce_loop d es = (r, t)" "sorted (map event_time es)"
    and "\<And>e. e \<in> set es \<Longrightarrow> db_quiet_deadline d \<le> event_time e + db_debounce_interval d"
  shows "t \<le> db_max_deadline d"
    and "r = Ready \<Longrightarrow> t < db_max_deadline d \<Longrightarrow>
      (\<forall>e \<in> set es. event_time e < t \<longrightarrow> event_time e + db_debounce_interval d \<le> t)"
proof -
  have "t \<le> db_max_deadline d \<and> (r = Ready \<longrightarrow> t < db_max_deadline d \<longrightarrow>
      db_quiet_deadline d \<le> t \<and> (\<forall>e \<in> set es. event_time e < t \<longrightarrow> event_time e + db_debounce_interval d \<le> t))"
    using assms
  proof (induction d es rule: debounce_loop.induct)
    case (2 d e es)
    show ?case
    proof (cases "debouncer_deadline d \<le> event_time e")
      case True
      then have "t = debouncer_deadline d" using 2(2) by simp
      moreover have "debouncer_deadline d \<le> event_time f" if "f \<in> set (e # es)" for f
        using that True 2(3) by (auto intro: order_trans)
      ultimately show ?thesis by (fastforce simp: debouncer_deadline_def)
    next
      case False
      show ?thesis
      proof (cases e)
        case (PolicyChange u)
        let ?d = "debouncer_extend u d"
        have "debounce_loop ?d es = (r, t)" using 2(2) False PolicyChange by simp
        moreover have "db_quiet_deadline ?d \<le> event_time f + db_debounce_interval ?d" if "f \<in> set es" for f
          using that 2(3) PolicyChange by (auto simp: debouncer_extend_def)
        ultimately have "t \<le> db_max_deadline ?d \<and> (r = Ready \<longrightarrow> t < db_max_deadline ?d \<longrightarrow>
            db_quiet_deadline ?d \<le> t \<and> (\<forall>f \<in> set es. event_time f < t \<longrightarrow> event_time f + db_debounce_interval ?d \<le> t))"
          using 2(1) [OF False PolicyChange] 2(3) by simp
        then show ?thesis
          using 2(4) [of e] PolicyChange by (auto simp: debouncer_extend_def)
      qed (use 2(2) False in \<open>auto simp: debouncer_deadline_def\<close>)
    qed
  qed (auto simp: debouncer_deadline_def)
  then show "t \<le> db_max_deadline d"
    and "r = Ready \<Longrightarrow> t < db_max_deadline d \<Longrightarrow>
      (\<forall>e \<in> set es. event_time e < t \<longrightarrow> event_time e + db_debounce_interval d \<le> t)" by blast+
qed

text \<open>
  Policy changes are applied in time: the wait ends at the latest when the maximal time is over, and when
  it ends before that no policy change fell into the last quiet interval.
\<close>

theorem debounce_bounded:
  assumes "wait_for_policy_debounce now interval limit es = (r, t)" "sorted (map event_time es)"
    and "\<forall>e \<in> set es. now \<le> event_time e"
  shows "t \<le> now + limit \<and>
    (r = Ready \<and> t < now + limit \<longrightarrow> (\<forall>e \<in> set es. event_time e < t \<longrightarrow> event_time e + interval \<le> t))"
  using debounce_loop_bounds [of "Debouncer_new now interval limit" es r t] assms
  by (simp add: wait_for_policy_debounce_def Debouncer_new_def)

text \<open>
  An apply that took effect although it was reported as failed is remembered under the old hash. When the
  policies return to what they were, the rebuild sees no change and leaves the wrong rules in place.
\<close>

theorem unreported_apply_stays:
  assumes "fc_pods c = [(uid, p)]" "pf_state p = Enrolled"
    and "ws_find_by_info (px_workloads s) (pf_workload_info p) = Some wl" "pf_last_policy_hash p = H (policy_key s wl)"
    and "ws_find_by_info (px_workloads s') (pf_workload_info p) = Some wl'" "H (policy_key s' wl') \<noteq> H (policy_key s wl)"
    and "fe_apply env uid = ReplacedUnreported" "fe_order env = id" "fe_order env' = id"
  shows "hm_get (snd (rebuild_all_pods H s env' (rebuild_all_pods H s' env (c, kern)))) (netns_id (pf_netns p)) =
    Some (pod_rules c p (key_rules (policy_key s' wl')))"
proof -
  have "rebuild_item H s' (uid, p) = Some (uid, pf_netns p, pf_workload_info p, key_rules (policy_key s' wl'), H (policy_key s' wl'))"
    using assms(2,4-6) by (auto simp: rebuild_item_def resolve_workload_firewall_def Let_def key_rules_policy_key)
  then have one: "rebuild_all_pods H s' env (c, kern) =
      (c, hm_insert (netns_id (pf_netns p)) (pod_rules c p (key_rules (policy_key s' wl'))) kern)"
    using assms(1,7,8) by (simp add: rebuild_all_pods_def List.map_filter_simps backend_apply_def note_result_def pod_rules_def)
  have "rebuild_item H s (uid, p) = None" using assms(2-4) by (simp add: rebuild_item_def resolve_workload_firewall_def)
  then show ?thesis
    unfolding one using assms(1,9) by (simp add: rebuild_all_pods_def List.map_filter_simps hm.get_ins)
qed

section \<open>Properties\<close>



end
