(* ===== verification/Secrets.thy ===== *)
theory Secrets
  imports Net
begin

text \<open>
  The secret manager of \<^verbatim>\<open>src/identity/manager.rs\<close>: the cache of workload certificates, the requests its
  clients post, and the worker that fetches and refreshes certificates by priority; with the clock
  conversions of \<^verbatim>\<open>src/time.rs\<close> and the refresh time of \<^verbatim>\<open>src/tls/certificate.rs\<close>.

  Times are milliseconds: an \<open>Instant\<close> is a natural number, a \<open>SystemTime\<close> an integer. The priority queue
  and the back-off policy are third-party code: a step that takes the next identity takes any identity
  of greatest priority, and the delays are the parameter \<open>backoff_ops\<close>. A request that a client has not
  yet put into the bounded channel waits in \<open>sm_posting\<close>.
\<close>

section \<open>Time and certificates\<close>

record Converter =
  cv_now :: nat
  cv_sys_now :: int

definition system_time_to_instant :: "Converter \<Rightarrow> int \<Rightarrow> nat option" where
  "system_time_to_instant c t =
     (if cv_sys_now c \<le> t then Some (cv_now c + nat (t - cv_sys_now c))
      else if nat (cv_sys_now c - t) \<le> cv_now c then Some (cv_now c - nat (cv_sys_now c - t)) else None)"

text \<open>A \<open>SystemTime\<close> holds a 64-bit count of seconds; the checked operations fail outside.\<close>

definition checked_system_time :: "int \<Rightarrow> int option" where
  "checked_system_time t = (if - (2 ^ 63) * 1000 \<le> t \<and> t < 2 ^ 63 * 1000 then Some t else None)"

definition instant_to_system_time :: "Converter \<Rightarrow> nat \<Rightarrow> int option" where
  "instant_to_system_time c t =
     checked_system_time
       (if cv_now c < t then cv_sys_now c + int (t - cv_now c) else cv_sys_now c - int (cv_now c - t))"

record WorkloadCertificate =
  wc_serial :: nat
  wc_not_before :: int
  wc_not_after :: int

definition refresh_at :: "WorkloadCertificate \<Rightarrow> int" where
  "refresh_at cert =
     (if wc_not_before cert \<le> wc_not_after cert
      then wc_not_before cert + (wc_not_after cert - wc_not_before cert) div 2
      else wc_not_after cert)"

section \<open>State\<close>

datatype Priority = Background | Warmup | RealTime

fun priority_rank :: "Priority \<Rightarrow> nat" where
  "priority_rank Background = 0"
| "priority_rank Warmup = 1"
| "priority_rank RealTime = 2"

datatype CertState = Initializing Priority | Available WorkloadCertificate | Unavailable string

datatype PendingPriority = PendingPriority Priority nat

text \<open>The order of pending refreshes: by priority, and the earlier of two times is the greater.\<close>

fun pending_less :: "PendingPriority \<Rightarrow> PendingPriority \<Rightarrow> bool" where
  "pending_less (PendingPriority p t) (PendingPriority q u) =
     (priority_rank p < priority_rank q \<or> priority_rank p = priority_rank q \<and> u < t)"

datatype SecretRequest = Fetch Identity Priority | Forget Identity

datatype fetch_state = Processing | Forgetting

record 'b backoff_ops =
  bo_new :: 'b
  bo_next :: "'b \<Rightarrow> nat option \<times> 'b"

definition CERT_REFRESH_FAILURE_RETRY_DELAY_MAX_INTERVAL :: nat where
  "CERT_REFRESH_FAILURE_RETRY_DELAY_MAX_INTERVAL = 150000"

record 'b SecretManager =
  sm_now :: nat
  sm_certs :: "(Identity, CertState) hashmap"
  sm_posting :: "SecretRequest list"
  sm_requests :: "SecretRequest list"
  sm_fetches :: "Identity list"
  sm_processing :: "(Identity, fetch_state) hashmap"
  sm_pending :: "(Identity, PendingPriority) hashmap"
  sm_pending_backoffs_by_id :: "(Identity, 'b) hashmap"

definition secrets_new :: "nat \<Rightarrow> 'b SecretManager" where
  "secrets_new now = \<lparr>sm_now = now, sm_certs = [], sm_posting = [], sm_requests = [], sm_fetches = [], sm_processing = [],
     sm_pending = [], sm_pending_backoffs_by_id = []\<rparr>"

section \<open>Clients\<close>

fun init_pri :: "CertState \<Rightarrow> Priority option" where
  "init_pri (Initializing pri) = Some pri"
| "init_pri _ = None"

definition start_fetch :: "Identity \<Rightarrow> Priority \<Rightarrow> 'b SecretManager \<Rightarrow> 'b SecretManager" where
  "start_fetch i pri w =
     (case hm_get (sm_certs w) i of
        Some st \<Rightarrow>
          (case init_pri st of
             Some existing_pri \<Rightarrow>
               if priority_rank existing_pri < priority_rank pri then w\<lparr>sm_posting := sm_posting w @ [Fetch i pri]\<rparr> else w
           | None \<Rightarrow> w)
      | None \<Rightarrow>
          w\<lparr>sm_certs := hm_insert i (Initializing pri) (sm_certs w), sm_posting := sm_posting w @ [Fetch i pri]\<rparr>)"

definition forget_certificate :: "Identity \<Rightarrow> 'b SecretManager \<Rightarrow> 'b SecretManager" where
  "forget_certificate i w =
     (if hm_contains (sm_certs w) i
      then w\<lparr>sm_certs := hm_remove i (sm_certs w), sm_posting := sm_posting w @ [Forget i]\<rparr> else w)"

text \<open>A receiver of a certificate channel, and one look of \<open>wait\<close> at it: no result while it keeps waiting.\<close>

record cert_receiver =
  rx_changed :: bool
  rx_closed :: bool
  rx_value :: CertState

datatype fetch_error = FetchFailed string | Forgotten

definition wait_poll :: "cert_receiver \<Rightarrow> (WorkloadCertificate, fetch_error) result option" where
  "wait_poll rx =
     (if rx_changed rx then
        (case rx_value rx of
           Unavailable err \<Rightarrow> Some (Err (FetchFailed err))
         | Available certs \<Rightarrow> Some (Ok certs)
         | Initializing _ \<Rightarrow> None)
      else if rx_closed rx then Some (Err Forgotten) else None)"

section \<open>The worker\<close>

definition has_id :: "Identity \<Rightarrow> 'b SecretManager \<Rightarrow> bool" where
  "has_id i w = hm_contains (sm_certs w) i"

definition push_increase ::
  "Identity \<Rightarrow> PendingPriority \<Rightarrow> (Identity, PendingPriority) hashmap \<Rightarrow> (Identity, PendingPriority) hashmap"
where
  "push_increase key priority kp =
     (if (case hm_get kp key of None \<Rightarrow> True | Some p \<Rightarrow> pending_less p priority) then hm_insert key priority kp else kp)"

fun worker_request :: "SecretRequest \<Rightarrow> 'b SecretManager \<Rightarrow> 'b SecretManager" where
  "worker_request (Fetch i pri) w =
     (if \<not> has_id i w then w
      else case hm_get (sm_processing w) i of
             None \<Rightarrow> w\<lparr>sm_pending := push_increase i (PendingPriority pri (sm_now w)) (sm_pending w)\<rparr>
           | Some Forgetting \<Rightarrow> w\<lparr>sm_processing := hm_insert i Processing (sm_processing w)\<rparr>
           | Some Processing \<Rightarrow> w)"
| "worker_request (Forget i) w =
     (if has_id i w then w
      else case hm_get (sm_processing w) i of
             None \<Rightarrow> w\<lparr>sm_pending := hm_remove i (sm_pending w)\<rparr>
           | Some Processing \<Rightarrow> w\<lparr>sm_processing := hm_insert i Forgetting (sm_processing w)\<rparr>
           | Some Forgetting \<Rightarrow> w)"

definition get_existing_cert_info ::
  "Converter \<Rightarrow> Identity \<Rightarrow> 'b SecretManager \<Rightarrow> (WorkloadCertificate \<times> nat) option"
where
  "get_existing_cert_info cv i w =
     (case hm_get (sm_certs w) i of
        Some (Available cert) \<Rightarrow>
          (case instant_to_system_time cv (sm_now w) of
             Some now \<Rightarrow>
               if now < wc_not_after cert
               then map_option (Pair cert) (system_time_to_instant cv (wc_not_after cert)) else None
           | None \<Rightarrow> None)
      | _ \<Rightarrow> None)"

definition update_certs :: "Identity \<Rightarrow> CertState \<Rightarrow> 'b SecretManager \<Rightarrow> 'b SecretManager \<times> bool" where
  "update_certs i certs w =
     (if hm_contains (sm_certs w) i then (w\<lparr>sm_certs := hm_insert i certs (sm_certs w)\<rparr>, True) else (w, False))"

definition failure_delay :: "'b backoff_ops \<Rightarrow> Identity \<Rightarrow> 'b SecretManager \<Rightarrow> nat \<times> 'b" where
  "failure_delay B i w =
     (let keyed_backoff = (case hm_get (sm_pending_backoffs_by_id w) i of Some b \<Rightarrow> b | None \<Rightarrow> bo_new B);
          (delay, keyed_backoff') = bo_next B keyed_backoff
      in (case delay of Some d \<Rightarrow> d | None \<Rightarrow> CERT_REFRESH_FAILURE_RETRY_DELAY_MAX_INTERVAL, keyed_backoff'))"

text \<open>The state to publish and the time of the next refresh.\<close>

definition fetch_outcome ::
  "Converter \<Rightarrow> 'b backoff_ops \<Rightarrow> Identity \<Rightarrow> (WorkloadCertificate, string) result \<Rightarrow> 'b SecretManager \<Rightarrow>
   'b SecretManager \<times> CertState \<times> nat"
where
  "fetch_outcome cv B i res w =
     (case res of
        Inl err \<Rightarrow>
          let (retry_delay, keyed_backoff) = failure_delay B i w;
              w' = w\<lparr>sm_pending_backoffs_by_id := hm_insert i keyed_backoff (sm_pending_backoffs_by_id w)\<rparr>;
              at = sm_now w + retry_delay
          in (case get_existing_cert_info cv i w of
                Some (valid_cert, expiry) \<Rightarrow> (w', Available valid_cert, min at expiry)
              | None \<Rightarrow> (w', Unavailable err, at))
      | Inr certs \<Rightarrow>
          (w\<lparr>sm_pending_backoffs_by_id := hm_remove i (sm_pending_backoffs_by_id w)\<rparr>, Available certs,
           case system_time_to_instant cv (refresh_at certs) of Some t \<Rightarrow> t | None \<Rightarrow> sm_now w))"

text \<open>A completed fetch. The result is \<^const>\<open>None\<close> where the code has \<open>unreachable!\<close>.\<close>

definition handle_fetched ::
  "Converter \<Rightarrow> 'b backoff_ops \<Rightarrow> Identity \<Rightarrow> (WorkloadCertificate, string) result \<Rightarrow> 'b SecretManager \<Rightarrow> 'b SecretManager option"
where
  "handle_fetched cv B i res w =
     (let w1 = w\<lparr>sm_fetches := remove1 i (sm_fetches w), sm_processing := hm_remove i (sm_processing w)\<rparr>
      in case hm_get (sm_processing w) i of
           None \<Rightarrow> None
         | Some Forgetting \<Rightarrow> Some w1
         | Some Processing \<Rightarrow>
             let (w2, state, at) = fetch_outcome cv B i res w1;
                 (w3, managed) = update_certs i state w2
             in Some (if managed then w3\<lparr>sm_pending := push_increase i (PendingPriority Background at) (sm_pending w3)\<rparr> else w3))"

text \<open>The next identity is the head of the queue, once its time has come and a fetch may be started.\<close>

definition is_head :: "Identity \<Rightarrow> PendingPriority \<Rightarrow> 'b SecretManager \<Rightarrow> bool" where
  "is_head i p w \<longleftrightarrow>
     hm_get (sm_pending w) i = Some p \<and> list_all (\<lambda>q. \<not> pending_less p q) (hm_values (sm_pending w))"

fun due :: "PendingPriority \<Rightarrow> nat \<Rightarrow> bool" where
  "due (PendingPriority _ ts) now = (ts \<le> now)"

definition start_next :: "Identity \<Rightarrow> 'b SecretManager \<Rightarrow> 'b SecretManager" where
  "start_next i w =
     w\<lparr>sm_pending := hm_remove i (sm_pending w), sm_processing := hm_insert i Processing (sm_processing w),
       sm_fetches := sm_fetches w @ [i]\<rparr>"

text \<open>
  The interleavings of clients, channel and worker. The channel holds ten requests. A call of \<open>start_fetch\<close> that
  found its identity looks at the priority after it has released the lock, when its channel need not be
  the one in the cache any more: its request may be posted in any state (\<open>Bump\<close>). The two looks of a completed
  fetch at the cache are one step.
\<close>

inductive sm_step :: "Converter \<Rightarrow> 'b backoff_ops \<Rightarrow> nat \<Rightarrow> 'b SecretManager \<Rightarrow> 'b SecretManager \<Rightarrow> bool"
  for cv :: Converter and B :: "'b backoff_ops" and concurrency :: nat
where
  StartFetch: "sm_step cv B concurrency w (start_fetch i pri w)"
| Bump: "sm_step cv B concurrency w (w\<lparr>sm_posting := sm_posting w @ [Fetch i pri]\<rparr>)"
| ForgetCert: "sm_step cv B concurrency w (forget_certificate i w)"
| Post: "r \<in> set (sm_posting w) \<Longrightarrow> length (sm_requests w) < 10 \<Longrightarrow>
    sm_step cv B concurrency w (w\<lparr>sm_posting := remove1 r (sm_posting w), sm_requests := sm_requests w @ [r]\<rparr>)"
| Receive: "sm_requests w = r # rs \<Longrightarrow> sm_step cv B concurrency w (worker_request r (w\<lparr>sm_requests := rs\<rparr>))"
| Fetched: "i \<in> set (sm_fetches w) \<Longrightarrow> handle_fetched cv B i res w = Some w' \<Longrightarrow> sm_step cv B concurrency w w'"
| StartNext: "is_head i p w \<Longrightarrow> due p (sm_now w) \<Longrightarrow> length (sm_fetches w) < concurrency \<Longrightarrow>
    sm_step cv B concurrency w (start_next i w)"
| Tick: "sm_now w \<le> t \<Longrightarrow> sm_step cv B concurrency w (w\<lparr>sm_now := t\<rparr>)"

inductive sm_reach :: "Converter \<Rightarrow> 'b backoff_ops \<Rightarrow> nat \<Rightarrow> 'b SecretManager \<Rightarrow> bool"
  for cv :: Converter and B :: "'b backoff_ops" and concurrency :: nat
where
  Init: "sm_reach cv B concurrency (secrets_new now)"
| Step: "sm_reach cv B concurrency w \<Longrightarrow> sm_step cv B concurrency w w' \<Longrightarrow> sm_reach cv B concurrency w'"

section \<open>Specification\<close>

text \<open>
  An identity is scheduled when it waits for a fetch, is being fetched, or a request to fetch it is under
  way. Fetches and their bookkeeping agree, no identity is both waiting and fetched, and only background
  refreshes lie in the future.
\<close>

definition scheduled :: "Identity \<Rightarrow> 'b SecretManager \<Rightarrow> bool" where
  "scheduled i w \<longleftrightarrow>
     hm_get (sm_pending w) i \<noteq> None \<or> hm_get (sm_processing w) i = Some Processing \<or>
     (\<exists>pri. Fetch i pri \<in> set (sm_requests w) \<union> set (sm_posting w))"

definition sm_inv :: "nat \<Rightarrow> 'b SecretManager \<Rightarrow> bool" where
  "sm_inv concurrency w \<longleftrightarrow>
     (\<forall>i. hm_get (sm_certs w) i \<noteq> None \<longrightarrow> scheduled i w) \<and>
     distinct (sm_fetches w) \<and> length (sm_fetches w) \<le> concurrency \<and>
     (\<forall>i. i \<in> set (sm_fetches w) \<longleftrightarrow> hm_get (sm_processing w) i \<noteq> None) \<and>
     (\<forall>i. hm_get (sm_pending w) i \<noteq> None \<longrightarrow> hm_get (sm_processing w) i = None) \<and>
     (\<forall>i pri ts. hm_get (sm_pending w) i = Some (PendingPriority pri ts) \<longrightarrow> pri = Background \<or> ts \<le> sm_now w) \<and>
     hm_wf (sm_pending w)"

text \<open>A run on one identity, for the examples.\<close>

definition ex_cv :: Converter where
  "ex_cv = \<lparr>cv_now = 0, cv_sys_now = 0\<rparr>"

definition ex_backoff :: "nat backoff_ops" where
  "ex_backoff = \<lparr>bo_new = 100, bo_next = \<lambda>n. (Some n, 2 * n)\<rparr>"

definition ex_cert :: WorkloadCertificate where
  "ex_cert = \<lparr>wc_serial = 1, wc_not_before = 0, wc_not_after = 1000\<rparr>"

definition ex_id :: Identity where
  "ex_id = Spiffe ''td'' ''ns'' ''sa''"

definition ex_pending :: "nat SecretManager" where
  "ex_pending = (secrets_new 0)\<lparr>sm_certs := [(ex_id, Initializing RealTime)], sm_pending := [(ex_id, PendingPriority RealTime 0)]\<rparr>"

definition ex_renewing :: "nat SecretManager" where
  "ex_renewing = (secrets_new 950)\<lparr>sm_certs := [(ex_id, Available ex_cert)], sm_fetches := [ex_id], sm_processing := [(ex_id, Processing)]\<rparr>"

section \<open>Lemmas\<close>

lemma push_increase_get:
  "hm_get (push_increase k p m) k' =
     (if k' = k then (case hm_get m k of None \<Rightarrow> Some p | Some q \<Rightarrow> Some (if pending_less q p then p else q)) else hm_get m k')"
  by (auto simp: push_increase_def hm.get_ins split: option.splits)

lemma push_increase_wf: "hm_wf m \<Longrightarrow> hm_wf (push_increase k p m)"
  by (simp add: push_increase_def hm.wf_ins)

lemma push_increase_some: "hm_get (push_increase k p m) k' = None \<longleftrightarrow> k' \<noteq> k \<and> hm_get m k' = None"
  by (auto simp: push_increase_get split: option.splits)

lemma push_increase_timely:
  assumes "hm_get (push_increase k p m) k' = Some (PendingPriority pri ts)"
    and "\<And>q u. p = PendingPriority q u \<Longrightarrow> q = Background \<or> u \<le> now"
    and "\<And>j q u. hm_get m j = Some (PendingPriority q u) \<Longrightarrow> q = Background \<or> u \<le> now"
  shows "pri = Background \<or> ts \<le> now"
  using assms by (auto simp: push_increase_get split: if_splits option.splits)

lemma sm_invI:
  assumes "\<And>i. hm_get (sm_certs w) i \<noteq> None \<Longrightarrow> scheduled i w"
    and "distinct (sm_fetches w)" "length (sm_fetches w) \<le> concurrency"
    and "\<And>i. i \<in> set (sm_fetches w) \<longleftrightarrow> hm_get (sm_processing w) i \<noteq> None"
    and "\<And>i. hm_get (sm_pending w) i \<noteq> None \<Longrightarrow> hm_get (sm_processing w) i = None"
    and "\<And>i pri ts. hm_get (sm_pending w) i = Some (PendingPriority pri ts) \<Longrightarrow> pri = Background \<or> ts \<le> sm_now w"
    and "hm_wf (sm_pending w)"
  shows "sm_inv concurrency w"
  using assms unfolding sm_inv_def by blast

lemma sm_invD:
  assumes "sm_inv concurrency w"
  shows "hm_get (sm_certs w) i \<noteq> None \<Longrightarrow> scheduled i w"
    and "distinct (sm_fetches w)" and "length (sm_fetches w) \<le> concurrency"
    and "i \<in> set (sm_fetches w) \<longleftrightarrow> hm_get (sm_processing w) i \<noteq> None"
    and "hm_get (sm_pending w) i \<noteq> None \<Longrightarrow> hm_get (sm_processing w) i = None"
    and "hm_get (sm_pending w) i = Some (PendingPriority pri ts) \<Longrightarrow> pri = Background \<or> ts \<le> sm_now w"
    and "hm_wf (sm_pending w)"
  using assms unfolding sm_inv_def by blast+

lemma client_fields [simp]:
  "sm_fetches (start_fetch i pri w) = sm_fetches w" "sm_processing (start_fetch i pri w) = sm_processing w"
  "sm_pending (start_fetch i pri w) = sm_pending w" "sm_now (start_fetch i pri w) = sm_now w"
  "sm_fetches (forget_certificate i w) = sm_fetches w" "sm_processing (forget_certificate i w) = sm_processing w"
  "sm_pending (forget_certificate i w) = sm_pending w" "sm_now (forget_certificate i w) = sm_now w"
  by (simp_all add: start_fetch_def forget_certificate_def split: option.split)

subsection \<open>Each step keeps the invariant\<close>

lemma inv_start_fetch:
  assumes "sm_inv n w"
  shows "sm_inv n (start_fetch i pri w)"
proof (rule sm_invI)
  note inv = sm_invD [OF assms]
  show "scheduled j (start_fetch i pri w)" if "hm_get (sm_certs (start_fetch i pri w)) j \<noteq> None" for j
    using that inv(1) [of j]
    by (auto simp: start_fetch_def scheduled_def hm.get_ins split: option.splits if_splits)
qed (use sm_invD [OF assms] in auto)

lemma inv_bump:
  assumes "sm_inv n w"
  shows "sm_inv n (w\<lparr>sm_posting := sm_posting w @ [Fetch i pri]\<rparr>)"
proof (rule sm_invI)
  note inv = sm_invD [OF assms]
  show "scheduled j (w\<lparr>sm_posting := sm_posting w @ [Fetch i pri]\<rparr>)"
    if "hm_get (sm_certs (w\<lparr>sm_posting := sm_posting w @ [Fetch i pri]\<rparr>)) j \<noteq> None" for j
    using that inv(1) [of j] by (auto simp: scheduled_def)
qed (use sm_invD [OF assms] in auto)

lemma inv_forget:
  assumes "sm_inv n w"
  shows "sm_inv n (forget_certificate i w)"
proof (rule sm_invI)
  note inv = sm_invD [OF assms]
  show "scheduled j (forget_certificate i w)" if "hm_get (sm_certs (forget_certificate i w)) j \<noteq> None" for j
    using that inv(1) [of j] by (auto simp: forget_certificate_def scheduled_def hm.get_del split: if_splits)
qed (use sm_invD [OF assms] in auto)

lemma inv_post:
  assumes "sm_inv n w" "r \<in> set (sm_posting w)"
  shows "sm_inv n (w\<lparr>sm_posting := remove1 r (sm_posting w), sm_requests := sm_requests w @ [r]\<rparr>)"
proof (rule sm_invI)
  note inv = sm_invD [OF assms(1)]
  have keep: "q \<in> set (sm_posting w) \<Longrightarrow> q = r \<or> q \<in> set (remove1 r (sm_posting w))" for q by (metis in_set_remove1)
  show "scheduled j (w\<lparr>sm_posting := remove1 r (sm_posting w), sm_requests := sm_requests w @ [r]\<rparr>)"
    if "hm_get (sm_certs (w\<lparr>sm_posting := remove1 r (sm_posting w), sm_requests := sm_requests w @ [r]\<rparr>)) j \<noteq> None" for j
    using that inv(1) [of j] keep by (fastforce simp: scheduled_def)
qed (use sm_invD [OF assms(1)] in auto)

lemma inv_request:
  assumes "sm_inv n w" "sm_requests w = r # rs"
  shows "sm_inv n (worker_request r (w\<lparr>sm_requests := rs\<rparr>))"
proof (cases r)
  case (Fetch i pri)
  note inv = sm_invD [OF assms(1)]
  show ?thesis
  proof (rule sm_invI)
    show "scheduled j (worker_request r (w\<lparr>sm_requests := rs\<rparr>))"
      if "hm_get (sm_certs (worker_request r (w\<lparr>sm_requests := rs\<rparr>))) j \<noteq> None" for j
      using that inv(1) [of j] assms(2) Fetch
      by (auto simp: scheduled_def has_id_def hm_contains_def hm.get_ins push_increase_some
          split: option.splits fetch_state.splits if_splits)
    show "j \<in> set (sm_fetches (worker_request r (w\<lparr>sm_requests := rs\<rparr>))) \<longleftrightarrow>
        hm_get (sm_processing (worker_request r (w\<lparr>sm_requests := rs\<rparr>))) j \<noteq> None" for j
      using inv(4) [of j] inv(4) [of i] Fetch by (auto simp: hm.get_ins split: option.splits fetch_state.splits)
    show "hm_get (sm_processing (worker_request r (w\<lparr>sm_requests := rs\<rparr>))) j = None"
      if "hm_get (sm_pending (worker_request r (w\<lparr>sm_requests := rs\<rparr>))) j \<noteq> None" for j
      using that inv(5) [of j] inv(5) [of i] Fetch
      by (auto simp: hm.get_ins push_increase_get split: option.splits fetch_state.splits if_splits)
    show "p = Background \<or> ts \<le> sm_now (worker_request r (w\<lparr>sm_requests := rs\<rparr>))"
      if "hm_get (sm_pending (worker_request r (w\<lparr>sm_requests := rs\<rparr>))) j = Some (PendingPriority p ts)" for j p ts
      using that inv(6) Fetch
        push_increase_timely [of i "PendingPriority pri (sm_now w)" "sm_pending w" j p ts "sm_now w"]
      by (simp split: option.splits fetch_state.splits if_splits)
  qed (use inv Fetch push_increase_wf in \<open>auto split: option.splits fetch_state.splits\<close>)
next
  case (Forget i)
  note inv = sm_invD [OF assms(1)]
  show ?thesis
  proof (rule sm_invI)
    show "scheduled j (worker_request r (w\<lparr>sm_requests := rs\<rparr>))"
      if "hm_get (sm_certs (worker_request r (w\<lparr>sm_requests := rs\<rparr>))) j \<noteq> None" for j
      using that inv(1) [of j] assms(2) Forget
      by (auto simp: scheduled_def has_id_def hm_contains_def hm.get_ins hm.get_del
          split: option.splits fetch_state.splits if_splits)
    show "j \<in> set (sm_fetches (worker_request r (w\<lparr>sm_requests := rs\<rparr>))) \<longleftrightarrow>
        hm_get (sm_processing (worker_request r (w\<lparr>sm_requests := rs\<rparr>))) j \<noteq> None" for j
      using inv(4) [of j] inv(4) [of i] Forget by (auto simp: hm.get_ins split: option.splits fetch_state.splits)
    show "hm_get (sm_processing (worker_request r (w\<lparr>sm_requests := rs\<rparr>))) j = None"
      if "hm_get (sm_pending (worker_request r (w\<lparr>sm_requests := rs\<rparr>))) j \<noteq> None" for j
      using that inv(5) [of j] inv(5) [of i] Forget
      by (auto simp: hm.get_ins hm.get_del split: option.splits fetch_state.splits if_splits)
  qed (use inv Forget hm.wf_del in \<open>auto simp: hm.get_del split: option.splits fetch_state.splits if_splits\<close>)
qed

lemma fetch_outcome_fields:
  assumes "fetch_outcome cv B i res w = (w', state, at)"
  shows "sm_certs w' = sm_certs w" "sm_fetches w' = sm_fetches w" "sm_processing w' = sm_processing w"
    "sm_pending w' = sm_pending w" "sm_now w' = sm_now w" "sm_requests w' = sm_requests w" "sm_posting w' = sm_posting w"
  using assms by (auto simp: fetch_outcome_def Let_def split: sum.splits prod.splits option.splits)

text \<open>What a completed fetch leaves behind, in terms of the state before.\<close>

lemma handle_fetched_cases:
  assumes "handle_fetched cv B i res w = Some w'"
  obtains (dropped) "hm_get (sm_processing w) i = Some Forgetting"
      "w' = w\<lparr>sm_fetches := remove1 i (sm_fetches w), sm_processing := hm_remove i (sm_processing w)\<rparr>"
  | (unmanaged) state at where "hm_get (sm_processing w) i = Some Processing" "hm_get (sm_certs w) i = None"
      "fetch_outcome cv B i res (w\<lparr>sm_fetches := remove1 i (sm_fetches w), sm_processing := hm_remove i (sm_processing w)\<rparr>) = (w', state, at)"
  | (published) w2 state at where "hm_get (sm_processing w) i = Some Processing" "hm_get (sm_certs w) i \<noteq> None"
      "fetch_outcome cv B i res (w\<lparr>sm_fetches := remove1 i (sm_fetches w), sm_processing := hm_remove i (sm_processing w)\<rparr>) = (w2, state, at)"
      "w' = w2\<lparr>sm_certs := hm_insert i state (sm_certs w),
         sm_pending := push_increase i (PendingPriority Background at) (sm_pending w)\<rparr>"
proof -
  let ?w = "w\<lparr>sm_fetches := remove1 i (sm_fetches w), sm_processing := hm_remove i (sm_processing w)\<rparr>"
  obtain w2 state at where f: "fetch_outcome cv B i res ?w = (w2, state, at)" by (metis prod_cases3)
  note fields = fetch_outcome_fields [OF f]
  consider "hm_get (sm_processing w) i = Some Forgetting" | "hm_get (sm_processing w) i = Some Processing"
    using assms by (cases "hm_get (sm_processing w) i"; cases "the (hm_get (sm_processing w) i)") (auto simp: handle_fetched_def)
  then show thesis
  proof cases
    case 1
    then show thesis using assms by (intro dropped) (simp_all add: handle_fetched_def)
  next
    case 2
    show thesis
    proof (cases "hm_get (sm_certs w) i")
      case None
      then show thesis
        using assms 2 f fields by (intro unmanaged [of state at]) (simp_all add: handle_fetched_def update_certs_def hm_contains_def)
    next
      case (Some st)
      then show thesis
        using assms 2 f fields by (intro published [of w2 state at]) (simp_all add: handle_fetched_def update_certs_def hm_contains_def)
    qed
  qed
qed

lemma handle_fetched_total: "hm_get (sm_processing w) i \<noteq> None \<Longrightarrow> handle_fetched cv B i res w \<noteq> None"
  by (auto simp: handle_fetched_def Let_def split: fetch_state.splits prod.splits)

lemma inv_fetched:
  assumes "sm_inv n w" "i \<in> set (sm_fetches w)" "handle_fetched cv B i res w = Some w'"
  shows "sm_inv n w'"
proof -
  note inv = sm_invD [OF assms(1)]
  have set: "j \<in> set (remove1 i (sm_fetches w)) \<longleftrightarrow> hm_get (hm_remove i (sm_processing w)) j \<noteq> None" for j
    using inv(4) [of j] inv(2) by (auto simp: hm.get_del)
  have len: "length (remove1 i (sm_fetches w)) \<le> n" using inv(3) by (auto simp: length_remove1)
  have fresh: "hm_get (sm_pending w) i = None" using inv(4,5) [of i] assms(2) by (cases "hm_get (sm_pending w) i") auto
  have apart: "hm_get (sm_pending w) j \<noteq> None \<Longrightarrow> hm_get (hm_remove i (sm_processing w)) j = None" for j
    using inv(5) [of j] by (auto simp: hm.get_del)
  from assms(3) show ?thesis
  proof (cases rule: handle_fetched_cases)
    case dropped
    show ?thesis
    proof (rule sm_invI)
      show "scheduled j w'" if "hm_get (sm_certs w') j \<noteq> None" for j
        using that inv(1) [of j] dropped by (auto simp: scheduled_def hm.get_del)
    qed (use dropped inv set len apart in \<open>auto simp del: remove1.simps\<close>)
  next
    case (unmanaged state at)
    note fields = fetch_outcome_fields [OF unmanaged(3)]
    show ?thesis
    proof (rule sm_invI)
      show "scheduled j w'" if "hm_get (sm_certs w') j \<noteq> None" for j
        using that inv(1) [of j] unmanaged(2) fields by (auto simp: scheduled_def hm.get_del)
    qed (use fields inv set len apart in \<open>auto simp del: remove1.simps\<close>)
  next
    case (published w2 state at)
    note fields = fetch_outcome_fields [OF published(3)]
    show ?thesis
    proof (rule sm_invI)
      show "scheduled j w'" if "hm_get (sm_certs w') j \<noteq> None" for j
        using that inv(1) [of j] published(4) fields
        by (auto simp: scheduled_def hm.get_del hm.get_ins push_increase_get split: if_splits option.splits)
      show "hm_get (sm_processing w') j = None" if "hm_get (sm_pending w') j \<noteq> None" for j
        using that published(4) fields inv(5) [of j]
        by (auto simp: hm.get_del push_increase_get split: if_splits option.splits)
      show "p = Background \<or> ts \<le> sm_now w'" if "hm_get (sm_pending w') j = Some (PendingPriority p ts)" for j p ts
        using that published(4) fields inv(6) [of j p ts] fresh by (auto simp: push_increase_get split: if_splits)
    qed (use published(4) fields inv set len push_increase_wf in \<open>auto simp del: remove1.simps\<close>)
  qed
qed

lemma inv_start_next:
  assumes "sm_inv n w" "is_head i p w" "length (sm_fetches w) < n"
  shows "sm_inv n (start_next i w)"
proof -
  note inv = sm_invD [OF assms(1)]
  have p: "hm_get (sm_pending w) i = Some p" using assms(2) by (simp add: is_head_def)
  then have idle: "hm_get (sm_processing w) i = None" using inv(5) by simp
  show ?thesis
  proof (rule sm_invI)
    show "scheduled j (start_next i w)" if "hm_get (sm_certs (start_next i w)) j \<noteq> None" for j
      using that inv(1) [of j] by (auto simp: scheduled_def start_next_def hm.get_ins hm.get_del)
    show "j \<in> set (sm_fetches (start_next i w)) \<longleftrightarrow> hm_get (sm_processing (start_next i w)) j \<noteq> None" for j
      using inv(4) [of j] by (auto simp: start_next_def hm.get_ins)
    show "hm_get (sm_processing (start_next i w)) j = None" if "hm_get (sm_pending (start_next i w)) j \<noteq> None" for j
      using that inv(5) [of j] by (auto simp: start_next_def hm.get_ins hm.get_del split: if_splits)
    show "q = Background \<or> ts \<le> sm_now (start_next i w)"
      if "hm_get (sm_pending (start_next i w)) j = Some (PendingPriority q ts)" for j q ts
      using that inv(6) [of j q ts] by (auto simp: start_next_def hm.get_del split: if_splits)
    show "distinct (sm_fetches (start_next i w))" using inv(2) inv(4) [of i] idle by (auto simp: start_next_def)
  qed (use assms(3) inv(7) hm.wf_del in \<open>auto simp: start_next_def\<close>)
qed

lemma inv_tick: "sm_inv n w \<Longrightarrow> sm_now w \<le> t \<Longrightarrow> sm_inv n (w\<lparr>sm_now := t\<rparr>)"
  unfolding sm_inv_def scheduled_def by (fastforce intro: order_trans)

lemma sm_inv_step: "sm_step cv B n w w' \<Longrightarrow> sm_inv n w \<Longrightarrow> sm_inv n w'"
  by (induction rule: sm_step.induct)
    (simp_all add: inv_start_fetch inv_bump inv_forget inv_post inv_request inv_fetched inv_start_next inv_tick)

lemma sm_inv_reach: "sm_reach cv B n w \<Longrightarrow> sm_inv n w"
proof (induction rule: sm_reach.induct)
  case (Init now)
  show ?case by (simp add: sm_inv_def secrets_new_def hm_get_def hm_wf_def)
qed (rule sm_inv_step)

lemma pending_less_chain: "pending_less p x \<Longrightarrow> \<not> pending_less p q \<Longrightarrow> \<not> pending_less x q"
  by (cases p; cases x; cases q) auto

lemma pending_max:
  assumes "ps \<noteq> []"
  shows "\<exists>p \<in> set ps. list_all (\<lambda>q. \<not> pending_less p q) ps"
  using assms
proof (induction ps)
  case (Cons x ps)
  have irrefl: "\<not> pending_less x x" by (cases x) simp
  show ?case
  proof (cases "ps = []")
    case False
    then obtain p where p: "p \<in> set ps" "list_all (\<lambda>q. \<not> pending_less p q) ps" using Cons.IH by blast
    show ?thesis
    proof (cases "pending_less p x")
      case True
      have "\<not> pending_less x q" if "q \<in> set ps" for q
        using pending_less_chain [OF True, of q] that p(2) by (simp add: list_all_iff)
      then have "list_all (\<lambda>q. \<not> pending_less x q) (x # ps)" using irrefl by (simp add: list_all_iff)
      then show ?thesis by (rule bexI) simp
    next
      case False
      then show ?thesis using p by auto
    qed
  qed (use irrefl in simp)
qed simp

lemma head_exists:
  assumes "hm_wf (sm_pending w)" "hm_get (sm_pending w) i \<noteq> None"
  shows "\<exists>j p. is_head j p w"
proof -
  have "i \<in> fst ` set (sm_pending w)" using assms(2) by (auto simp: hm_get_def map_of_eq_None_iff)
  then have "hm_values (sm_pending w) \<noteq> []" by (auto simp: hm_values_def)
  then obtain p where p: "p \<in> set (hm_values (sm_pending w))" "list_all (\<lambda>q. \<not> pending_less p q) (hm_values (sm_pending w))"
    using pending_max by blast
  from p(1) obtain j where "(j, p) \<in> set (sm_pending w)" by (auto simp: hm_values_def)
  then have "hm_get (sm_pending w) j = Some p" using assms(1) by (simp add: hm_get_def hm_wf_def)
  then show ?thesis using p(2) by (auto simp: is_head_def)
qed

lemma head_due:
  assumes "sm_inv n w" "hm_get (sm_pending w) i = Some q" "due q (sm_now w)" "is_head j p w"
  shows "due p (sm_now w)"
proof -
  obtain qp qt pp pt where pq: "q = PendingPriority qp qt" "p = PendingPriority pp pt" by (metis PendingPriority.exhaust)
  have "q \<in> set (hm_values (sm_pending w))"
    using map_of_SomeD [of "sm_pending w" i q] assms(2) by (force simp: hm_values_def hm_get_def)
  then have "\<not> pending_less p q" using assms(4) by (simp add: is_head_def list_all_iff)
  moreover have "pp = Background \<or> pt \<le> sm_now w"
    using sm_invD(6) [OF assms(1), of j pp pt] assms(4) pq(2) by (simp add: is_head_def)
  moreover have "qp = Background \<or> 0 < priority_rank qp" by (cases qp) simp_all
  ultimately show ?thesis using assms(3) pq by auto
qed

lemma expiry_instant:
  assumes "instant_to_system_time cv now = Some s" "s < e"
  shows "\<exists>t. system_time_to_instant cv e = Some t \<and> now < t"
  using assms by (auto simp: instant_to_system_time_def system_time_to_instant_def checked_system_time_def split: if_splits)

lemmas ex_defs = ex_cv_def ex_backoff_def ex_cert_def ex_pending_def ex_renewing_def secrets_new_def
  hm_get_def hm_insert_def hm_remove_def hm_contains_def hm_values_def

lemma ex_pending_reach: "sm_reach ex_cv ex_backoff 8 ex_pending"
proof -
  let ?w1 = "start_fetch ex_id RealTime (secrets_new 0) :: nat SecretManager"
  let ?w2 = "?w1\<lparr>sm_posting := [], sm_requests := [Fetch ex_id RealTime]\<rparr>"
  have w1: "sm_reach ex_cv ex_backoff 8 ?w1" by (rule sm_reach.Step [OF sm_reach.Init [of _ _ _ 0] sm_step.StartFetch])
  have "sm_step ex_cv ex_backoff 8 ?w1 ?w2"
    using sm_step.Post [of "Fetch ex_id RealTime" ?w1 ex_cv ex_backoff 8] by (simp add: start_fetch_def ex_defs)
  then have w2: "sm_reach ex_cv ex_backoff 8 ?w2" by (rule sm_reach.Step [OF w1])
  have "sm_step ex_cv ex_backoff 8 ?w2 ex_pending"
    using sm_step.Receive [of ?w2 "Fetch ex_id RealTime" "[]" ex_cv ex_backoff 8]
    by (simp add: start_fetch_def has_id_def push_increase_def ex_defs)
  then show ?thesis by (rule sm_reach.Step [OF w2])
qed

lemma ex_renewing_reach: "sm_reach ex_cv ex_backoff 8 ex_renewing"
proof -
  let ?w1 = "start_next ex_id ex_pending"
  let ?w2 = "ex_pending\<lparr>sm_certs := [(ex_id, Available ex_cert)], sm_pending := [(ex_id, PendingPriority Background 500)]\<rparr>"
  have "sm_step ex_cv ex_backoff 8 ex_pending ?w1"
    by (rule sm_step.StartNext [of _ "PendingPriority RealTime 0"]) (simp_all add: is_head_def ex_defs)
  then have w1: "sm_reach ex_cv ex_backoff 8 ?w1" by (rule sm_reach.Step [OF ex_pending_reach])
  have "sm_step ex_cv ex_backoff 8 ?w1 ?w2"
    by (rule sm_step.Fetched [of ex_id _ _ _ "Inr ex_cert"])
      (simp_all add: start_next_def handle_fetched_def fetch_outcome_def refresh_at_def system_time_to_instant_def
        update_certs_def push_increase_def ex_defs)
  then have w2: "sm_reach ex_cv ex_backoff 8 ?w2" by (rule sm_reach.Step [OF w1])
  have "sm_step ex_cv ex_backoff 8 ?w2 (?w2\<lparr>sm_now := 950\<rparr>)" by (rule sm_step.Tick) (simp add: ex_defs)
  then have w3: "sm_reach ex_cv ex_backoff 8 (?w2\<lparr>sm_now := 950\<rparr>)" by (rule sm_reach.Step [OF w2])
  have "sm_step ex_cv ex_backoff 8 (?w2\<lparr>sm_now := 950\<rparr>) ex_renewing"
    using sm_step.StartNext [of ex_id "PendingPriority Background 500" "?w2\<lparr>sm_now := 950\<rparr>" 8 ex_cv ex_backoff]
    by (simp add: is_head_def start_next_def ex_defs)
  then show ?thesis by (rule sm_reach.Step [OF w3])
qed

section \<open>Scheduling\<close>



text \<open>
  C39. The order of pending refreshes, by priority first and time second, never keeps a refresh that is
  due waiting behind one that is not: when some refresh is due, every head of the queue is due, there is
  a head, and with a free slot the worker can start it.
\<close>

theorem due_refresh_not_blocked:
  assumes "sm_reach cv B concurrency w" "hm_get (sm_pending w) i = Some q" "due q (sm_now w)"
    and "length (sm_fetches w) < concurrency"
  shows "(\<forall>j p. is_head j p w \<longrightarrow> due p (sm_now w)) \<and> (\<exists>j p. is_head j p w \<and> sm_step cv B concurrency w (start_next j w))"
proof -
  note inv = sm_inv_reach [OF assms(1)]
  have due: "\<forall>j p. is_head j p w \<longrightarrow> due p (sm_now w)" using head_due [OF inv assms(2,3)] by blast
  obtain j p where "is_head j p w" using head_exists [OF sm_invD(7) [OF inv]] assms(2) by blast
  then show ?thesis using due assms(4) sm_step.StartNext by blast
qed

theorem due_refresh_not_blocked_witness:
  "sm_reach ex_cv ex_backoff 8 ex_pending \<and> hm_get (sm_pending ex_pending) ex_id = Some (PendingPriority RealTime 0) \<and>
   (\<exists>j p. is_head j p ex_pending \<and> sm_step ex_cv ex_backoff 8 ex_pending (start_next j ex_pending))"
  using due_refresh_not_blocked [OF ex_pending_reach, of ex_id "PendingPriority RealTime 0"] ex_pending_reach
  by (simp add: ex_defs)

text \<open>
  C40. A failed renewal does not take a valid certificate away: while the certificate in the cache has not
  expired, it stays available, and the next attempt is scheduled for the end of the back-off or the
  expiry of the certificate, whichever comes first. An identity without a valid certificate becomes
  unavailable with the error, and is tried again after the back-off.
\<close>

theorem failed_renewal:
  assumes "sm_reach cv B concurrency w" "hm_get (sm_processing w) i = Some Processing"
    and "hm_get (sm_certs w) i = Some st"
    and "handle_fetched cv B i (Inl err) w = Some w'"
  shows "hm_get (sm_pending w') i \<noteq> None \<and>
    (case st of
       Available cert \<Rightarrow>
         (\<forall>s. instant_to_system_time cv (sm_now w) = Some s \<longrightarrow> s < wc_not_after cert \<longrightarrow>
            hm_get (sm_certs w') i = Some (Available cert) \<and>
            (\<exists>expiry. system_time_to_instant cv (wc_not_after cert) = Some expiry \<and> sm_now w < expiry \<and>
              hm_get (sm_pending w') i = Some (PendingPriority Background (min (sm_now w + fst (failure_delay B i w)) expiry)))) \<and>
         (\<forall>s. instant_to_system_time cv (sm_now w) = Some s \<longrightarrow> wc_not_after cert \<le> s \<longrightarrow>
            hm_get (sm_certs w') i = Some (Unavailable err))
     | _ \<Rightarrow> hm_get (sm_certs w') i = Some (Unavailable err) \<and>
         hm_get (sm_pending w') i = Some (PendingPriority Background (sm_now w + fst (failure_delay B i w))))"
proof -
  let ?w = "w\<lparr>sm_fetches := remove1 i (sm_fetches w), sm_processing := hm_remove i (sm_processing w)\<rparr>"
  note inv = sm_invD [OF sm_inv_reach [OF assms(1)]]
  have fresh: "hm_get (sm_pending w) i = None" using inv(5) [of i] assms(2) by (cases "hm_get (sm_pending w) i") auto
  obtain w2 state at where f: "fetch_outcome cv B i (Inl err) ?w = (w2, state, at)" by (metis prod_cases3)
  note fields = fetch_outcome_fields [OF f]
  have w': "hm_get (sm_certs w') i = Some state" "hm_get (sm_pending w') i = Some (PendingPriority Background at)"
    using assms(2-4) f fields fresh
    by (auto simp: handle_fetched_def update_certs_def hm_contains_def hm.get_ins push_increase_get)
  have delay: "failure_delay B i ?w = failure_delay B i w" by (simp add: failure_delay_def)
  show ?thesis
  proof (cases st)
    case (Available cert)
    show ?thesis
      using f Available assms(3) delay expiry_instant [of cv "sm_now w" _ "wc_not_after cert"]
      by (fastforce simp: w' fetch_outcome_def get_existing_cert_info_def Let_def split: prod.splits option.splits if_splits)
  qed (use f assms(3) delay in \<open>auto simp: w' fetch_outcome_def get_existing_cert_info_def Let_def split: prod.splits\<close>)
qed

theorem failed_renewal_witness:
  "\<exists>w'. handle_fetched ex_cv ex_backoff ex_id (Inl ''down'') ex_renewing = Some w' \<and>
     hm_get (sm_certs w') ex_id = Some (Available ex_cert) \<and>
     hm_get (sm_pending w') ex_id = Some (PendingPriority Background 1000)"
proof -
  have p: "hm_get (sm_processing ex_renewing) ex_id = Some Processing"
    and c: "hm_get (sm_certs ex_renewing) ex_id = Some (Available ex_cert)" by (simp_all add: ex_defs)
  then obtain w' where w': "handle_fetched ex_cv ex_backoff ex_id (Inl ''down'') ex_renewing = Some w'"
    using handle_fetched_total [of ex_renewing ex_id] by fastforce
  show ?thesis
    using failed_renewal [OF ex_renewing_reach p c w'] w'
    by (simp add: instant_to_system_time_def checked_system_time_def system_time_to_instant_def failure_delay_def ex_defs)
qed

text \<open>
  \<open>start_fetch\<close> inserts the identity into the cache before it has handed its request to the worker. A
  caller that drops the call in between, at the await of a full channel, leaves an identity in the cache
  that nothing will fetch: further calls of the same or a lower priority post nothing.
\<close>

theorem dropped_start_fetch_strands:
  assumes "hm_get (sm_certs w) i = None" "\<not> scheduled i w" "priority_rank pri' \<le> priority_rank pri"
  defines "dropped \<equiv> (start_fetch i pri w)\<lparr>sm_posting := sm_posting w\<rparr>"
  shows "hm_get (sm_certs dropped) i = Some (Initializing pri) \<and> \<not> scheduled i dropped \<and> start_fetch i pri' dropped = dropped"
  using assms by (auto simp: start_fetch_def scheduled_def hm.get_ins)

end
