(* ===== verification/Spec2Isabelle.thy ===== *)
theory Spec2Isabelle
  imports Nft Ipt XdsClient Inbound Capsule Dns FwControl Secrets
begin

text \<open>
  Header.
\<close>

section \<open>The workload firewall, from policies to netfilter\<close>

text \<open>
  C1. Policies reach the kernel through nftables unchanged: for every packet that is not TCP, the script
  generated for a workload's policies and its sandbox's inline policy accepts the packet exactly
  when the fixed rules let it through, or when neither the inline stage nor the workload stage denies
  it, each stage read on the policies themselves.
\<close>

theorem nft_enforces_policies:
  assumes "family_sound N" "packet_wf (cx_packet cx)" "pk_proto (cx_packet cx) \<noteq> L4Tcp"
    and "stage_validated ps" "stage_validated (inline_stage inline)"
    and "length (stage_rules d ps) \<le> 2147483648" "length (stage_rules d (inline_stage inline)) \<le> 2147483648"
  shows "nft_accepts N (nft_compile b (workload_ruleset ps inline)) (fw_direction d) cx \<longleftrightarrow>
    nft_bypass b (fw_direction d) cx \<or>
    stage_verdict N d (inline_stage inline) (cx_packet cx) \<noteq> Some FwDeny \<and>
    stage_verdict N d ps (cx_packet cx) \<noteq> Some FwDeny"
  using nft.accepts_workload [OF assms(1-3) TrueI assms(4-7)] .

text \<open>
  C2. The same for iptables and IPv4 packets: the installed rules accept exactly what the policies of
  the two stages do not deny, next to what the fixed rules let through.
\<close>

theorem ipt_enforces_policies:
  assumes "family_sound N" "packet_wf (cx_packet cx)" "pk_proto (cx_packet cx) \<noteq> L4Tcp"
    and "is_ipv4 (pk_dst (cx_packet cx))"
    and "stage_validated ps" "stage_validated (inline_stage inline)"
    and "length (stage_rules d ps) \<le> 2147483648" "length (stage_rules d (inline_stage inline)) \<le> 2147483648"
  shows "ipt_accepts N (ipt_compile b (workload_ruleset ps inline)) (fw_direction d) cx \<longleftrightarrow>
    ipt_bypass b (fw_direction d) cx \<or>
    stage_verdict N d (inline_stage inline) (cx_packet cx) \<noteq> Some FwDeny \<and>
    stage_verdict N d ps (cx_packet cx) \<noteq> Some FwDeny"
  using ipt.accepts_workload [OF assms] .

lemma example_ctx_in_scope:
  "packet_wf (cx_packet (example_ctx (example_packet 0x0A090909 53)))"
  "pk_proto (cx_packet (example_ctx (example_packet 0x0A090909 53))) \<noteq> L4Tcp"
  "is_ipv4 (pk_dst (cx_packet (example_ctx (example_packet 0x0A090909 53))))"
  "cx_packet (example_ctx (example_packet 0x0A090909 53)) = example_packet 0x0A090909 53"
  by (simp_all add: packet_wf_def example_ctx_def example_packet_def)

lemma example_inline_none:
  "stage_validated (inline_stage None)" "length (stage_rules d (inline_stage None)) = 0"
  "stage_verdict N d (inline_stage None) p = None"
  by (simp_all add: stage_validated_def inline_stage_def stage_verdict_def)

theorem nft_enforces_policies_witness:
  "stage_validated example_stage \<and>
   nft_accepts cidr_ops (nft_compile nft_new (workload_ruleset example_stage None)) FwInbound
     (example_ctx (example_packet 0x0A090909 53))"
  using nft_enforces_policies [OF family_sound_cidr example_ctx_in_scope(1,2) example_stage_validated(1)
      example_inline_none(1), of Inbound nft_new]
  by (simp add: example_stage_validated example_inline_none example_ctx_in_scope example_stage_verdict
      fw_direction_def)

theorem ipt_enforces_policies_witness:
  "stage_validated example_stage \<and>
   ipt_accepts cidr_ops (ipt_compile ipt_new (workload_ruleset example_stage None)) FwInbound
     (example_ctx (example_packet 0x0A090909 53))"
  using ipt_enforces_policies [OF family_sound_cidr example_ctx_in_scope(1,2,3) example_stage_validated(1)
      example_inline_none(1), of Inbound ipt_new]
  by (simp add: example_stage_validated example_inline_none example_ctx_in_scope example_stage_verdict
      fw_direction_def)

end
